(* ===== verification/Prelude.thy ===== *)
theory Prelude
  imports Main "HOL-Library.Word"
begin

text \<open>
  Shared ground of the development: the machine types of the gateway, JSON values, the
  error values of every package, the effect type in which the Go functions are written
  (explicit state passing with an error sum), the elimination rules that read a successful
  run backwards, and the generic facts on lists, sums and words that the components share.
\<close>

section \<open>Types\<close>

text \<open>
  Identifiers are the 16 bytes of \<^verbatim>\<open>uuid.UUID\<close> (\<^verbatim>\<open>uuid.Nil\<close> is \<open>0\<close>). Go's \<^verbatim>\<open>int64\<close>
  and \<^verbatim>\<open>int32\<close> are words, read with \<open>sint\<close>. A \<^verbatim>\<open>timestamptz\<close> is the number of
  microseconds since an epoch, and so is a \<^verbatim>\<open>time.Duration\<close>.
\<close>

type_synonym uuid = "128 word"
type_synonym int64 = "64 word"
type_synonym int32 = "32 word"
type_synonym time = int
type_synonym bytes = string

abbreviation uuid_nil :: uuid where "uuid_nil \<equiv> 0"

definition seconds :: "int \<Rightarrow> time" where
  "seconds n = n * 1000000"

text \<open>
  JSON values; \<open>JUuid u\<close> is the JSON string holding the text form of \<open>u\<close>, \<open>JTime t\<close> the one
  holding the RFC 3339 form of \<open>t\<close>, \<open>JRaw b\<close> a \<^verbatim>\<open>json.RawMessage\<close>.
\<close>

datatype json =
    JNull
  | JBool bool
  | JInt int
  | JStr string
  | JUuid uuid
  | JTime time
  | JRaw bytes
  | JArr "json list"
  | JObj "(string \<times> json) list"

section \<open>Errors\<close>

text \<open>
  The sentinel errors of packages \<^verbatim>\<open>service\<close> and \<^verbatim>\<open>ledger\<close> under their own names, and the
  errors of the database driver that the code can meet: no row for a \<^verbatim>\<open>:one\<close> query, the
  constraint violations of the schema, a negative \<^verbatim>\<open>LIMIT\<close>/\<^verbatim>\<open>OFFSET\<close>, a cast out of range,
  and a lost connection.
\<close>

datatype error =
    ErrInvalidAmount
  | ErrInvalidCurrency
  | ErrIntentNotFound
  | ErrPayeeRequired
  | ErrInvalidFee
  | ErrInvalidState
  | ErrBankUnavailable
  | ErrBankDeclined
  | ErrRefundExceedsCapture
  | ErrPartialRefundBeforeSettle
  | ErrPartialEscrowRefund
  | ErrEmpty
  | ErrBadEntry
  | ErrMixedCurrency
  | ErrUnbalanced
  | ErrBalanceNaN
  | ErrBalanceOverflow
  | PgNoRows
  | PgUniqueViolation
  | PgCheckViolation
  | PgForeignKeyViolation
  | PgNegativeLimit
  | PgNumericOutOfRange
  | PgConnection
  | ErrHash

section \<open>Functions with effects\<close>

text \<open>
  A Go function that reads and writes state and returns \<^verbatim>\<open>(T, error)\<close> is a function from
  the state to an error or a result, and the new state. \<open>bnd\<close> is the sequence
  \<^verbatim>\<open>x, err := m; if err != nil { return err }; ...\<close>.
\<close>

type_synonym ('s, 'a) eff = "'s \<Rightarrow> (error + 'a) \<times> 's"

definition ret :: "'a \<Rightarrow> ('s, 'a) eff" where
  "ret x s = (Inr x, s)"

definition fail :: "error \<Rightarrow> ('s, 'a) eff" where
  "fail e s = (Inl e, s)"

definition bnd :: "('s, 'a) eff \<Rightarrow> ('a \<Rightarrow> ('s, 'b) eff) \<Rightarrow> ('s, 'b) eff" where
  "bnd m k s = (case m s of (Inl e, s') \<Rightarrow> (Inl e, s') | (Inr x, s') \<Rightarrow> k x s')"

text \<open>\<open>map_err f m\<close> rewrites the error of \<open>m\<close>, as \<^verbatim>\<open>errors.Is(err, X)\<close> tests do.\<close>

definition map_err :: "(error \<Rightarrow> error) \<Rightarrow> ('s, 'a) eff \<Rightarrow> ('s, 'a) eff" where
  "map_err f m s = (case m s of (Inl e, s') \<Rightarrow> (Inl (f e), s') | (Inr x, s') \<Rightarrow> (Inr x, s'))"

text \<open>
  \<open>success\<close> collects elimination rules of the shape "this step returned \<open>Inr x\<close>, so
  \<dots>". Proofs about committed operations run through them.
\<close>

named_theorems success

lemma ret_success [success]:
  assumes "ret x s = (Inr y, s')"
  obtains "y = x" and "s' = s"
  using assms by (simp add: ret_def)

lemma fail_success [success]:
  assumes "fail e s = (Inr y, s')"
  obtains False
  using assms by (simp add: fail_def)

lemma bnd_success [success]:
  assumes "bnd m k s = (Inr y, s')"
  obtains x s1 where "m s = (Inr x, s1)" and "k x s1 = (Inr y, s')"
  using assms by (auto simp: bnd_def split: prod.splits sum.splits)

lemma map_err_success [success]:
  assumes "map_err f m s = (Inr y, s')"
  obtains "m s = (Inr y, s')"
  using assms by (auto simp: map_err_def split: prod.splits sum.splits)

lemma if_fail_success [success]:
  assumes "(if b then fail e else m) s = (Inr y, s')"
  obtains "\<not> b" and "m s = (Inr y, s')"
  using assms by (auto simp: fail_def split: if_splits)

lemma bnd_Inl: "m s = (Inl e, s') \<Longrightarrow> bnd m k s = (Inl e, s')"
  by (simp add: bnd_def)

lemma bnd_Inr: "m s = (Inr x, s') \<Longrightarrow> bnd m k s = k x s'"
  by (simp add: bnd_def)

section \<open>Lists keyed by an identifier\<close>

text \<open>
  A table is the list of its rows in insertion order. The contract of an
  \<^verbatim>\<open>UPDATE ... WHERE id = ...\<close>: the update keeps the key of a row. Everything a keyed update
  does to lookups, to the set of keys and to sums over the table follows from that.
\<close>

definition update_where :: "('r \<Rightarrow> bool) \<Rightarrow> ('r \<Rightarrow> 'r) \<Rightarrow> 'r list \<Rightarrow> 'r list" where
  "update_where P f rows = map (\<lambda>r. if P r then f r else r) rows"

locale keyed_update =
  fixes key :: "'r \<Rightarrow> uuid"
    and upd :: "'r \<Rightarrow> 'r"
  assumes key_upd: "key (upd r) = key r"
begin

lemma keys_update: "map key (update_where P upd rows) = map key rows"
  by (induction rows) (auto simp: update_where_def key_upd)

lemma find_update_same:
  "find (\<lambda>r. key r = i) (update_where (\<lambda>r. key r = i) upd rows) =
   map_option upd (find (\<lambda>r. key r = i) rows)"
  by (induction rows) (auto simp: update_where_def key_upd)

lemma find_update_other:
  "j \<noteq> i \<Longrightarrow> find (\<lambda>r. key r = j) (update_where (\<lambda>r. key r = i) upd rows) =
   find (\<lambda>r. key r = j) rows"
  by (induction rows) (auto simp: update_where_def key_upd)

lemma update_absent:
  "i \<notin> set (map key rows) \<Longrightarrow> update_where (\<lambda>r. key r = i) upd rows = rows"
  by (induction rows) (auto simp: update_where_def)

lemma mem_update_other:
  "key r \<noteq> i \<Longrightarrow> r \<in> set (update_where (\<lambda>r. key r = i) upd rows) \<longleftrightarrow> r \<in> set rows"
  by (induction rows) (auto simp: update_where_def key_upd)

lemma mem_updateE:
  assumes "r' \<in> set (update_where (\<lambda>r. key r = i) upd rows)"
  obtains (same) r where "r \<in> set rows" and "key r = i" and "r' = upd r"
    | (other) "r' \<in> set rows" and "key r' \<noteq> i"
  using assms by (auto simp: update_where_def split: if_splits)

text \<open>
  A sum over the table after the update: \<open>g\<close> may weigh the updated row differently, but agrees
  with \<open>f\<close> on the others.
\<close>

lemma sum_update_weights:
  fixes f g :: "'r \<Rightarrow> int"
  assumes "distinct (map key rows)" and "r \<in> set rows" and "key r = i"
    and "\<And>x. x \<in> set rows \<Longrightarrow> key x \<noteq> i \<Longrightarrow> g x = f x"
  shows "(\<Sum>x\<leftarrow>update_where (\<lambda>r. key r = i) upd rows. g x) =
         (\<Sum>x\<leftarrow>rows. f x) - f r + g (upd r)"
  using assms
proof (induction rows)
  case Nil
  then show ?case by simp
next
  case (Cons a rows)
  show ?case
  proof (cases "key a = i")
    case True
    with Cons.prems have ar: "a = r" and absent: "i \<notin> set (map key rows)"
      by (auto simp: image_iff)
    have "(\<Sum>x\<leftarrow>rows. g x) = (\<Sum>x\<leftarrow>rows. f x)"
      using Cons.prems(4) absent by (intro arg_cong[of _ _ sum_list] map_cong) auto
    with True ar update_absent[OF absent] show ?thesis by (simp add: update_where_def)
  next
    case False
    with Cons show ?thesis by (auto simp: update_where_def)
  qed
qed

lemma sum_update:
  fixes f :: "'r \<Rightarrow> int"
  assumes "distinct (map key rows)" and "r \<in> set rows" and "key r = i"
  shows "(\<Sum>x\<leftarrow>update_where (\<lambda>r. key r = i) upd rows. f x) =
         (\<Sum>x\<leftarrow>rows. f x) - f r + f (upd r)"
  by (rule sum_update_weights[OF assms]) simp

end

text \<open>Looking a row up by its identifier.\<close>

lemma find_SomeD: "find P xs = Some x \<Longrightarrow> x \<in> set xs \<and> P x"
  by (auto simp: find_Some_iff)

lemma find_key_iff:
  assumes "distinct (map key rows)"
  shows "find (\<lambda>r. key r = i) rows = Some r \<longleftrightarrow> r \<in> set rows \<and> key r = i"
  using assms
proof (induction rows)
  case Nil
  then show ?case by simp
next
  case (Cons a rows)
  then show ?case by (auto simp: image_iff)
qed

lemma distinct_key_eq:
  assumes "distinct (map key rows)" and "r \<in> set rows" and "r' \<in> set rows" and "key r = key r'"
  shows "r = r'"
  using assms by (auto simp: distinct_map dest: inj_onD)

lemma filter_key_single:
  assumes "distinct (map key rows)" and "r \<in> set rows"
  shows "filter (\<lambda>x. key x = key r \<and> P x) rows = (if P r then [r] else [])"
  using assms
proof (induction rows)
  case Nil
  then show ?case by simp
next
  case (Cons a rows)
  show ?case
  proof (cases "a = r")
    case True
    with Cons.prems(1) have "\<forall>x \<in> set rows. key x \<noteq> key r"
      by (auto simp: image_iff)
    then have "filter (\<lambda>x. key x = key r \<and> P x) rows = []"
      by (auto simp: filter_empty_conv)
    with True show ?thesis by simp
  next
    case False
    with Cons.prems have "key a \<noteq> key r" and "r \<in> set rows"
      by (auto simp: image_iff)
    with Cons show ?thesis by auto
  qed
qed

lemma sum_list_map_zero: "(\<And>x. x \<in> set xs \<Longrightarrow> f x = (0::int)) \<Longrightarrow> (\<Sum>x\<leftarrow>xs. f x) = 0"
  by (induction xs) auto

lemma sum_list_map_cong: "(\<And>x. x \<in> set xs \<Longrightarrow> f x = g x) \<Longrightarrow> (\<Sum>x\<leftarrow>xs. f x) = (\<Sum>x\<leftarrow>xs. g x)"
  by (induction xs) auto

section \<open>Signed 64-bit amounts\<close>

lemma int64_bounds: "- (2 ^ 63) \<le> sint (x :: int64)" "sint (x :: int64) < 2 ^ 63"
  using sint_greater_eq[of x] sint_less[of x] by simp_all

lemma sint_eq_0 [simp]: "sint (x :: 'a::len word) = 0 \<longleftrightarrow> x = 0"
  by (metis signed_0 signed_word_eqI)

lemma sint_of_bounded:
  assumes "- (2 ^ 63) \<le> n" and "n < 2 ^ 63"
  shows "sint (word_of_int n :: int64) = n"
  using assms by (simp add: signed_of_int signed_take_bit_int_eq_self)

lemma sint_of_bounded32:
  assumes "- (2 ^ 31) \<le> n" and "n < 2 ^ 31"
  shows "sint (word_of_int n :: int32) = n"
  using assms by (simp add: signed_of_int signed_take_bit_int_eq_self)

text \<open>Subtracting at most the whole of a non-negative amount does not wrap.\<close>

lemma sint_diff_le:
  fixes a b :: int64
  assumes "0 \<le> sint b" and "sint b \<le> sint a"
  shows "sint (a - b) = sint a - sint b"
proof -
  have "sint (word_of_int (sint a - sint b) :: int64) = sint a - sint b"
    using assms int64_bounds[of a] int64_bounds[of b] by (intro sint_of_bounded) auto
  moreover have "(word_of_int (sint a - sint b) :: int64) = a - b"
    by simp
  ultimately show ?thesis by simp
qed

lemma sint_inj: "sint a = sint b \<Longrightarrow> a = (b :: 'a::len word)"
  by (rule signed_word_eqI)

end
