(* ===== verification/Statemachine.thy ===== *)
theory Statemachine
  imports Prelude
begin

text \<open>
  Package \<^verbatim>\<open>statemachine\<close> (\<^verbatim>\<open>internal/statemachine/intent.go\<close>): the settlement modes, the
  statuses of a payment intent, the table of legal edges per mode and \<^verbatim>\<open>CanTransition\<close>.
  The lemmas say what the table allows: the two modes never cross, terminal statuses have no
  way out, and every legal edge climbs a rank, so an intent's life is finite.
\<close>

section \<open>Settlement modes and statuses\<close>

definition SettlementDirect :: string where "SettlementDirect = ''direct''"
definition SettlementEscrow :: string where "SettlementEscrow = ''escrow''"

definition StatusCreated :: string where "StatusCreated = ''created''"
definition StatusRequiresConfirmation :: string where
  "StatusRequiresConfirmation = ''requires_confirmation''"
definition StatusAuthorized :: string where "StatusAuthorized = ''authorized''"
definition StatusCaptured :: string where "StatusCaptured = ''captured''"
definition StatusSettled :: string where "StatusSettled = ''settled''"
definition StatusHeldInEscrow :: string where "StatusHeldInEscrow = ''held_in_escrow''"
definition StatusReleased :: string where "StatusReleased = ''released''"
definition StatusFailed :: string where "StatusFailed = ''failed''"
definition StatusRefunded :: string where "StatusRefunded = ''refunded''"
definition StatusPartiallyRefunded :: string where
  "StatusPartiallyRefunded = ''partially_refunded''"

lemmas status_defs =
  StatusCreated_def StatusRequiresConfirmation_def StatusAuthorized_def StatusCaptured_def
  StatusSettled_def StatusHeldInEscrow_def StatusReleased_def StatusFailed_def
  StatusRefunded_def StatusPartiallyRefunded_def

lemmas mode_defs = SettlementDirect_def SettlementEscrow_def

text \<open>The constants are pairwise different strings; \<open>simp\<close> decides every comparison.\<close>

lemma mode_distinct [simp]:
  "SettlementDirect \<noteq> SettlementEscrow" "SettlementEscrow \<noteq> SettlementDirect"
  by (simp_all add: mode_defs)

definition all_statuses :: "string list" where
  "all_statuses = [StatusCreated, StatusRequiresConfirmation, StatusAuthorized, StatusCaptured,
     StatusSettled, StatusHeldInEscrow, StatusReleased, StatusFailed, StatusRefunded,
     StatusPartiallyRefunded]"

lemma distinct_all_statuses: "distinct all_statuses"
  by (simp add: all_statuses_def status_defs)

lemma status_distinct [simp]:
  "StatusCreated \<noteq> StatusRequiresConfirmation" "StatusCreated \<noteq> StatusAuthorized"
  "StatusCreated \<noteq> StatusCaptured" "StatusCreated \<noteq> StatusSettled"
  "StatusCreated \<noteq> StatusHeldInEscrow" "StatusCreated \<noteq> StatusReleased"
  "StatusCreated \<noteq> StatusFailed" "StatusCreated \<noteq> StatusRefunded"
  "StatusCreated \<noteq> StatusPartiallyRefunded"
  "StatusRequiresConfirmation \<noteq> StatusAuthorized" "StatusRequiresConfirmation \<noteq> StatusCaptured"
  "StatusRequiresConfirmation \<noteq> StatusSettled" "StatusRequiresConfirmation \<noteq> StatusHeldInEscrow"
  "StatusRequiresConfirmation \<noteq> StatusReleased" "StatusRequiresConfirmation \<noteq> StatusFailed"
  "StatusRequiresConfirmation \<noteq> StatusRefunded"
  "StatusRequiresConfirmation \<noteq> StatusPartiallyRefunded"
  "StatusAuthorized \<noteq> StatusCaptured" "StatusAuthorized \<noteq> StatusSettled"
  "StatusAuthorized \<noteq> StatusHeldInEscrow" "StatusAuthorized \<noteq> StatusReleased"
  "StatusAuthorized \<noteq> StatusFailed" "StatusAuthorized \<noteq> StatusRefunded"
  "StatusAuthorized \<noteq> StatusPartiallyRefunded"
  "StatusCaptured \<noteq> StatusSettled" "StatusCaptured \<noteq> StatusHeldInEscrow"
  "StatusCaptured \<noteq> StatusReleased" "StatusCaptured \<noteq> StatusFailed"
  "StatusCaptured \<noteq> StatusRefunded" "StatusCaptured \<noteq> StatusPartiallyRefunded"
  "StatusSettled \<noteq> StatusHeldInEscrow" "StatusSettled \<noteq> StatusReleased"
  "StatusSettled \<noteq> StatusFailed" "StatusSettled \<noteq> StatusRefunded"
  "StatusSettled \<noteq> StatusPartiallyRefunded"
  "StatusHeldInEscrow \<noteq> StatusReleased" "StatusHeldInEscrow \<noteq> StatusFailed"
  "StatusHeldInEscrow \<noteq> StatusRefunded" "StatusHeldInEscrow \<noteq> StatusPartiallyRefunded"
  "StatusReleased \<noteq> StatusFailed" "StatusReleased \<noteq> StatusRefunded"
  "StatusReleased \<noteq> StatusPartiallyRefunded"
  "StatusFailed \<noteq> StatusRefunded" "StatusFailed \<noteq> StatusPartiallyRefunded"
  "StatusRefunded \<noteq> StatusPartiallyRefunded"
  using distinct_all_statuses by (simp_all add: all_statuses_def)

lemmas status_distinct_sym [simp] = status_distinct [symmetric]

section \<open>The edge table\<close>

text \<open>
  \<^verbatim>\<open>allowedEdges[mode][from]\<close>: a Go map lookup of an absent key gives the zero value, here the
  empty slice, for an unknown mode as for a terminal status.
\<close>

definition allowedEdges :: "(string \<times> (string \<times> string list) list) list" where
  "allowedEdges =
    [(SettlementDirect,
       [(StatusCreated, [StatusRequiresConfirmation, StatusFailed]),
        (StatusRequiresConfirmation, [StatusAuthorized, StatusFailed]),
        (StatusAuthorized, [StatusCaptured, StatusFailed]),
        (StatusCaptured, [StatusSettled, StatusRefunded, StatusPartiallyRefunded]),
        (StatusSettled, [StatusRefunded, StatusPartiallyRefunded])]),
     (SettlementEscrow,
       [(StatusCreated, [StatusRequiresConfirmation, StatusFailed]),
        (StatusRequiresConfirmation, [StatusAuthorized, StatusFailed]),
        (StatusAuthorized, [StatusCaptured, StatusFailed]),
        (StatusCaptured, [StatusHeldInEscrow]),
        (StatusHeldInEscrow, [StatusReleased, StatusRefunded])])]"

definition edges_from :: "string \<Rightarrow> string \<Rightarrow> string list" where
  "edges_from mode from =
     (case map_of allowedEdges mode of
        None \<Rightarrow> []
      | Some graph \<Rightarrow> (case map_of graph from of None \<Rightarrow> [] | Some nexts \<Rightarrow> nexts))"

text \<open>\<^verbatim>\<open>CanTransition\<close> scans the slice for the target.\<close>

fun scan_edges :: "string list \<Rightarrow> string \<Rightarrow> bool" where
  "scan_edges [] to = False"
| "scan_edges (nxt # rest) to = (if nxt = to then True else scan_edges rest to)"

definition CanTransition :: "string \<Rightarrow> string \<Rightarrow> string \<Rightarrow> bool" where
  "CanTransition mode from to = scan_edges (edges_from mode from) to"

lemma scan_edges_iff: "scan_edges xs to \<longleftrightarrow> to \<in> set xs"
  by (induction xs) auto

text \<open>The table read as one case distinction per source status.\<close>

lemma edges_from_simps [simp]:
  "edges_from m StatusCreated =
     (if m = SettlementDirect \<or> m = SettlementEscrow
      then [StatusRequiresConfirmation, StatusFailed] else [])"
  "edges_from m StatusRequiresConfirmation =
     (if m = SettlementDirect \<or> m = SettlementEscrow then [StatusAuthorized, StatusFailed] else [])"
  "edges_from m StatusAuthorized =
     (if m = SettlementDirect \<or> m = SettlementEscrow then [StatusCaptured, StatusFailed] else [])"
  "edges_from m StatusCaptured =
     (if m = SettlementDirect then [StatusSettled, StatusRefunded, StatusPartiallyRefunded]
      else if m = SettlementEscrow then [StatusHeldInEscrow] else [])"
  "edges_from m StatusSettled =
     (if m = SettlementDirect then [StatusRefunded, StatusPartiallyRefunded] else [])"
  "edges_from m StatusHeldInEscrow =
     (if m = SettlementEscrow then [StatusReleased, StatusRefunded] else [])"
  "edges_from m StatusReleased = []"
  "edges_from m StatusFailed = []"
  "edges_from m StatusRefunded = []"
  "edges_from m StatusPartiallyRefunded = []"
  by (auto simp: edges_from_def allowedEdges_def)

text \<open>The sources of a given target, which is how the service asks.\<close>

lemma edges_from_cases:
  assumes "to \<in> set (edges_from m from)"
  shows "(m = SettlementDirect \<or> m = SettlementEscrow) \<and>
         from \<in> {StatusCreated, StatusRequiresConfirmation, StatusAuthorized, StatusCaptured,
                 StatusSettled, StatusHeldInEscrow}"
  using assms
  by (auto simp: edges_from_def allowedEdges_def split: option.splits if_splits)

lemma CanTransition_iff: "CanTransition m from to \<longleftrightarrow> to \<in> set (edges_from m from)"
  by (simp add: CanTransition_def scan_edges_iff)

lemma CanTransition_table:
  "CanTransition m from to \<longleftrightarrow>
     (m = SettlementDirect \<or> m = SettlementEscrow) \<and>
       (from = StatusCreated \<and> to \<in> {StatusRequiresConfirmation, StatusFailed} \<or>
        from = StatusRequiresConfirmation \<and> to \<in> {StatusAuthorized, StatusFailed} \<or>
        from = StatusAuthorized \<and> to \<in> {StatusCaptured, StatusFailed}) \<or>
     m = SettlementDirect \<and>
       (from = StatusCaptured \<and> to \<in> {StatusSettled, StatusRefunded, StatusPartiallyRefunded} \<or>
        from = StatusSettled \<and> to \<in> {StatusRefunded, StatusPartiallyRefunded}) \<or>
     m = SettlementEscrow \<and>
       (from = StatusCaptured \<and> to = StatusHeldInEscrow \<or>
        from = StatusHeldInEscrow \<and> to \<in> {StatusReleased, StatusRefunded})"
  by (auto simp: CanTransition_iff edges_from_def allowedEdges_def split: if_splits)

lemma can_transition_to:
  "CanTransition m from StatusRequiresConfirmation \<longleftrightarrow>
     (m = SettlementDirect \<or> m = SettlementEscrow) \<and> from = StatusCreated"
  "CanTransition m from StatusAuthorized \<longleftrightarrow>
     (m = SettlementDirect \<or> m = SettlementEscrow) \<and> from = StatusRequiresConfirmation"
  "CanTransition m from StatusFailed \<longleftrightarrow>
     (m = SettlementDirect \<or> m = SettlementEscrow) \<and>
     from \<in> {StatusCreated, StatusRequiresConfirmation, StatusAuthorized}"
  "CanTransition m from StatusCaptured \<longleftrightarrow>
     (m = SettlementDirect \<or> m = SettlementEscrow) \<and> from = StatusAuthorized"
  "CanTransition m from StatusSettled \<longleftrightarrow> m = SettlementDirect \<and> from = StatusCaptured"
  "CanTransition m from StatusHeldInEscrow \<longleftrightarrow> m = SettlementEscrow \<and> from = StatusCaptured"
  "CanTransition m from StatusReleased \<longleftrightarrow> m = SettlementEscrow \<and> from = StatusHeldInEscrow"
  "CanTransition m from StatusRefunded \<longleftrightarrow>
     (m = SettlementDirect \<and> from \<in> {StatusCaptured, StatusSettled}) \<or>
     (m = SettlementEscrow \<and> from = StatusHeldInEscrow)"
  "CanTransition m from StatusPartiallyRefunded \<longleftrightarrow>
     m = SettlementDirect \<and> from \<in> {StatusCaptured, StatusSettled}"
  "\<not> CanTransition m from StatusCreated"
  by (auto simp: CanTransition_table)

section \<open>What the table guarantees\<close>

text \<open>Terminal: a status with no edge in the given mode.\<close>

definition terminal :: "string \<Rightarrow> string \<Rightarrow> bool" where
  "terminal mode from \<longleftrightarrow> edges_from mode from = []"

text \<open>A rank that every legal edge raises: no status is ever visited twice.\<close>

definition status_rank :: "string \<Rightarrow> nat" where
  "status_rank s =
     (if s = StatusCreated then 0
      else if s = StatusRequiresConfirmation then 1
      else if s = StatusAuthorized then 2
      else if s = StatusCaptured then 3
      else if s = StatusSettled \<or> s = StatusHeldInEscrow then 4
      else 5)"

lemma status_rank_le: "status_rank s \<le> 5"
  by (simp add: status_rank_def)

lemma CanTransition_rank: "CanTransition m from to \<Longrightarrow> status_rank from < status_rank to"
proof -
  assume "CanTransition m from to"
  then have t: "to \<in> set (edges_from m from)" by (simp add: CanTransition_iff)
  with edges_from_cases[OF t] show ?thesis
    by (auto simp: status_rank_def split: if_splits)
qed

text \<open>Walks along legal edges, as the intents of one mode make them.\<close>

inductive walk :: "string \<Rightarrow> string \<Rightarrow> string \<Rightarrow> bool" for mode where
  walk_refl: "walk mode s s"
| walk_step: "walk mode s t \<Longrightarrow> CanTransition mode t u \<Longrightarrow> walk mode s u"

lemma walk_edge: "CanTransition m s t \<Longrightarrow> walk m s t"
  by (rule walk.walk_step[OF walk.walk_refl])

lemma walk_trans: "walk m t u \<Longrightarrow> walk m s t \<Longrightarrow> walk m s u"
  by (induction rule: walk.induct) (auto intro: walk.intros)

lemma walk_rank: "walk m s t \<Longrightarrow> s = t \<or> status_rank s < status_rank t"
  by (induction rule: walk.induct) (auto dest: CanTransition_rank)

lemma walk_antisym: "walk m s t \<Longrightarrow> walk m t s \<Longrightarrow> s = t"
  using walk_rank[of m s t] walk_rank[of m t s] by auto

lemma walk_terminal:
  assumes "walk m s t" and "terminal m s"
  shows "t = s"
  using assms by (induction rule: walk.induct) (auto simp: CanTransition_iff terminal_def)

text \<open>
  A list of statuses, each a legal edge from the one before: at most five edges, whatever the
  mode.
\<close>

fun legal_run :: "string \<Rightarrow> string \<Rightarrow> string list \<Rightarrow> bool" where
  "legal_run mode s [] = True"
| "legal_run mode s (t # ts) = (CanTransition mode s t \<and> legal_run mode t ts)"

lemma legal_run_rank: "legal_run m s ts \<Longrightarrow> length ts \<le> 5 - status_rank s"
proof (induction ts arbitrary: s)
  case Nil
  then show ?case by simp
next
  case (Cons t ts)
  then have "length ts \<le> 5 - status_rank t" and "status_rank s < status_rank t"
    by (auto dest: CanTransition_rank)
  then show ?case using status_rank_le[of t] by simp
qed

text \<open>
  The statuses each mode can ever be in, and the cross-mode edges the comment in the source
  calls structurally impossible.
\<close>

definition mode_status :: "string \<Rightarrow> string \<Rightarrow> bool" where
  "mode_status mode s \<longleftrightarrow>
     (if mode = SettlementEscrow
      then s \<in> {StatusCreated, StatusRequiresConfirmation, StatusAuthorized, StatusCaptured,
                StatusHeldInEscrow, StatusReleased, StatusFailed, StatusRefunded}
      else s \<in> {StatusCreated, StatusRequiresConfirmation, StatusAuthorized, StatusCaptured,
                StatusSettled, StatusFailed, StatusRefunded, StatusPartiallyRefunded})"

lemma mode_status_created [simp]: "mode_status m StatusCreated"
  by (simp add: mode_status_def)

lemma mode_status_step: "CanTransition m s t \<Longrightarrow> mode_status m t"
proof -
  assume "CanTransition m s t"
  then have t: "t \<in> set (edges_from m s)" by (simp add: CanTransition_iff)
  with edges_from_cases[OF t] show ?thesis
    by (auto simp: mode_status_def split: if_splits)
qed

lemma walk_mode_status: "walk m s t \<Longrightarrow> mode_status m s \<Longrightarrow> mode_status m t"
  by (induction rule: walk.induct) (auto dest: mode_status_step)

section \<open>Properties of the table\<close>

lemma legal_run_walk: "legal_run m s ts \<Longrightarrow> t \<in> set ts \<Longrightarrow> status_rank s < status_rank t"
proof (induction ts arbitrary: s)
  case Nil
  then show ?case by simp
next
  case (Cons u us)
  then have "status_rank s < status_rank u" by (auto dest: CanTransition_rank)
  with Cons show ?case by fastforce
qed

lemma legal_run_distinct: "legal_run m s ts \<Longrightarrow> distinct (s # ts)"
proof (induction ts arbitrary: s)
  case Nil
  then show ?case by simp
next
  case (Cons u us)
  then have "distinct (u # us)" by auto
  moreover have "s \<notin> set (u # us)"
    using legal_run_walk[OF Cons.prems] by blast
  ultimately show ?case by simp
qed

text \<open>C35: The life of an intent is finite and never repeats: along legal edges no status comes
  twice, and there are at most five steps.\<close>

theorem life_is_finite:
  assumes "legal_run m s ts"
  shows "distinct (s # ts) \<and> length ts \<le> 5"
  using legal_run_distinct[OF assms] legal_run_rank[OF assms] by simp

theorem life_is_finite_witness:
  "distinct [StatusCreated, StatusRequiresConfirmation, StatusAuthorized, StatusCaptured,
     StatusSettled, StatusRefunded]"
proof -
  have "legal_run SettlementDirect StatusCreated [StatusRequiresConfirmation, StatusAuthorized,
      StatusCaptured, StatusSettled, StatusRefunded]"
    by (simp add: CanTransition_table)
  from life_is_finite[OF this] show ?thesis by simp
qed

text \<open>The modes never cross: whatever path a direct intent takes from creation, it is never
  held in escrow or released; an escrow intent is never settled or partially refunded; in an
  unknown mode nothing moves at all.\<close>

theorem modes_never_cross:
  assumes "walk m StatusCreated s"
  shows "s \<in> set all_statuses \<and>
    (m = SettlementDirect \<longrightarrow> s \<noteq> StatusHeldInEscrow \<and> s \<noteq> StatusReleased) \<and>
    (m = SettlementEscrow \<longrightarrow> s \<noteq> StatusSettled \<and> s \<noteq> StatusPartiallyRefunded) \<and>
    (m \<noteq> SettlementDirect \<and> m \<noteq> SettlementEscrow \<longrightarrow> s = StatusCreated)"
proof -
  have "mode_status m s" by (rule walk_mode_status[OF assms]) simp
  then have "s \<in> set all_statuses \<and>
      (m = SettlementDirect \<longrightarrow> s \<noteq> StatusHeldInEscrow \<and> s \<noteq> StatusReleased) \<and>
      (m = SettlementEscrow \<longrightarrow> s \<noteq> StatusSettled \<and> s \<noteq> StatusPartiallyRefunded)"
    by (auto simp: mode_status_def all_statuses_def split: if_splits)
  moreover have "m \<noteq> SettlementDirect \<and> m \<noteq> SettlementEscrow \<longrightarrow> s = StatusCreated"
    using assms by (induction rule: walk.induct) (auto simp: CanTransition_table)
  ultimately show ?thesis by blast
qed

theorem modes_never_cross_witness:
  "StatusRequiresConfirmation \<noteq> StatusSettled \<and> StatusRequiresConfirmation \<in> set all_statuses"
  using modes_never_cross[OF walk_edge[of SettlementEscrow StatusCreated StatusRequiresConfirmation]]
  by (simp add: CanTransition_table)

text \<open>The edge table decides exactly the documented transitions.\<close>

theorem transitions_exact:
  "CanTransition m from to \<longleftrightarrow>
     (m = SettlementDirect \<or> m = SettlementEscrow) \<and>
       (from = StatusCreated \<and> to \<in> {StatusRequiresConfirmation, StatusFailed} \<or>
        from = StatusRequiresConfirmation \<and> to \<in> {StatusAuthorized, StatusFailed} \<or>
        from = StatusAuthorized \<and> to \<in> {StatusCaptured, StatusFailed}) \<or>
     m = SettlementDirect \<and>
       (from = StatusCaptured \<and> to \<in> {StatusSettled, StatusRefunded, StatusPartiallyRefunded} \<or>
        from = StatusSettled \<and> to \<in> {StatusRefunded, StatusPartiallyRefunded}) \<or>
     m = SettlementEscrow \<and>
       (from = StatusCaptured \<and> to = StatusHeldInEscrow \<or>
        from = StatusHeldInEscrow \<and> to \<in> {StatusReleased, StatusRefunded})"
  by (rule CanTransition_table)

end
