(* ===== verification/Repository.thy ===== *)
theory Repository
  imports Statemachine "HOL-Library.List_Lexorder" "HOL-Library.Char_ord"
    "HOL-Library.Product_Lexorder"
begin

text \<open>
  The gateway's database: the row types of \<^verbatim>\<open>internal/repository/db/models.go\<close>, the tables
  with the constraints of \<^verbatim>\<open>db/migrations\<close>, and one definition per query of
  \<^verbatim>\<open>internal/repository/db/*.sql.go\<close>. A table is the list of its rows in insertion order.
  A query is a pure function of the row id that \<^verbatim>\<open>gen_random_uuid()\<close> draws, of \<^verbatim>\<open>now()\<close> and
  of the database; constraint violations and missing rows are error values. Rows that an
  \<^verbatim>\<open>ORDER BY\<close> leaves tied keep insertion order here, where SQL promises nothing.
\<close>

section \<open>Rows\<close>

record account =
  ac_id :: uuid
  ac_merchant :: uuid
  ac_type :: string
  ac_kind :: string
  ac_currency :: string
  ac_reference :: "uuid option"
  ac_created :: time

record api_key =
  ak_id :: uuid
  ak_merchant :: uuid
  ak_kind :: string
  ak_prefix :: string
  ak_hash :: string
  ak_created :: time
  ak_revoked :: "time option"

record entry =
  en_id :: uuid
  en_transaction :: uuid
  en_account :: uuid
  en_debit :: int64
  en_credit :: int64
  en_currency :: string
  en_created :: time

record idempotency_key =
  ik_id :: uuid
  ik_merchant :: uuid
  ik_key :: string
  ik_hash :: string
  ik_status :: string
  ik_code :: "int32 option"
  ik_body :: "bytes option"
  ik_locked :: time
  ik_created :: time

record merchant =
  me_id :: uuid
  me_name :: string
  me_created :: time

record outbox =
  ob_id :: uuid
  ob_merchant :: uuid
  ob_event_id :: uuid
  ob_type :: string
  ob_payload :: json
  ob_status :: string
  ob_attempts :: int32
  ob_next :: time
  ob_error :: "string option"
  ob_created :: time

record payment_intent =
  pi_id :: uuid
  pi_merchant :: uuid
  pi_amount :: int64
  pi_currency :: string
  pi_status :: string
  pi_mode :: string
  pi_payee :: "uuid option"
  pi_fee :: "int64 option"
  pi_metadata :: bytes
  pi_created :: time
  pi_updated :: time

record transaction =
  tx_id :: uuid
  tx_merchant :: uuid
  tx_kind :: string
  tx_reference :: "uuid option"
  tx_created :: time

record user =
  us_id :: uuid
  us_merchant :: uuid
  us_email :: string
  us_hash :: string
  us_created :: time

record webhook_delivery =
  wd_id :: uuid
  wd_outbox :: uuid
  wd_attempt :: int32
  wd_code :: "int32 option"
  wd_ok :: bool
  wd_error :: "string option"
  wd_created :: time

record webhook_endpoint =
  we_id :: uuid
  we_merchant :: uuid
  we_url :: string
  we_secret :: string
  we_created :: time
  we_disabled :: "time option"

record db =
  t_accounts :: "account list"
  t_api_keys :: "api_key list"
  t_entries :: "entry list"
  t_idempotency :: "idempotency_key list"
  t_merchants :: "merchant list"
  t_outbox :: "outbox list"
  t_intents :: "payment_intent list"
  t_transactions :: "transaction list"
  t_users :: "user list"
  t_deliveries :: "webhook_delivery list"
  t_endpoints :: "webhook_endpoint list"

definition empty_db :: db where
  "empty_db = \<lparr>t_accounts = [], t_api_keys = [], t_entries = [], t_idempotency = [],
     t_merchants = [], t_outbox = [], t_intents = [], t_transactions = [], t_users = [],
     t_deliveries = [], t_endpoints = []\<rparr>"

section \<open>Statements\<close>

type_synonym 'a stmt = "uuid \<Rightarrow> time \<Rightarrow> db \<Rightarrow> error + 'a \<times> db"

text \<open>A \<^verbatim>\<open>:one\<close> query scans the first row and reports \<^verbatim>\<open>pgx.ErrNoRows\<close> when there is none.\<close>

definition one_row :: "'r list \<Rightarrow> db \<Rightarrow> error + 'r \<times> db" where
  "one_row rows d = (case rows of [] \<Rightarrow> Inl PgNoRows | r # _ \<Rightarrow> Inr (r, d))"

text \<open>\<^verbatim>\<open>LIMIT lim OFFSET off\<close>: PostgreSQL rejects a negative bound.\<close>

definition limit_rows :: "int32 \<Rightarrow> int32 \<Rightarrow> 'r list \<Rightarrow> error + 'r list" where
  "limit_rows lim off rows =
     (if sint lim < 0 \<or> sint off < 0 then Inl PgNegativeLimit
      else Inr (take (nat (sint lim)) (drop (nat (sint off)) rows)))"

subsection \<open>Accounts\<close>

definition account_types :: "string list" where
  "account_types = [''asset'', ''liability'', ''revenue'']"

definition GetOrCreateSingletonAccount ::
    "uuid \<Rightarrow> string \<Rightarrow> string \<Rightarrow> string \<Rightarrow> account stmt" where
  "GetOrCreateSingletonAccount merchantID typ kind currency u now d =
     (if typ \<notin> set account_types then Inl PgCheckViolation
      else case find (\<lambda>a. ac_merchant a = merchantID \<and> ac_kind a = kind \<and>
                          ac_currency a = currency \<and> ac_reference a = None) (t_accounts d) of
        Some a \<Rightarrow> Inr (a, d)
      | None \<Rightarrow>
          (if u \<in> set (map ac_id (t_accounts d)) then Inl PgUniqueViolation
           else let a = \<lparr>ac_id = u, ac_merchant = merchantID, ac_type = typ, ac_kind = kind,
                         ac_currency = currency, ac_reference = None, ac_created = now\<rparr>
                in Inr (a, d\<lparr>t_accounts := t_accounts d @ [a]\<rparr>)))"

definition GetOrCreatePerRefAccount ::
    "uuid \<Rightarrow> string \<Rightarrow> string \<Rightarrow> string \<Rightarrow> uuid \<Rightarrow> account stmt" where
  "GetOrCreatePerRefAccount merchantID typ kind currency ref u now d =
     (if typ \<notin> set account_types then Inl PgCheckViolation
      else case find (\<lambda>a. ac_merchant a = merchantID \<and> ac_kind a = kind \<and>
                          ac_currency a = currency \<and> ac_reference a = Some ref) (t_accounts d) of
        Some a \<Rightarrow> Inr (a, d)
      | None \<Rightarrow>
          (if u \<in> set (map ac_id (t_accounts d)) then Inl PgUniqueViolation
           else let a = \<lparr>ac_id = u, ac_merchant = merchantID, ac_type = typ, ac_kind = kind,
                         ac_currency = currency, ac_reference = Some ref, ac_created = now\<rparr>
                in Inr (a, d\<lparr>t_accounts := t_accounts d @ [a]\<rparr>)))"

definition ListAccounts :: "uuid \<Rightarrow> account list stmt" where
  "ListAccounts merchantID u now d =
     Inr (sort_key ac_created (filter (\<lambda>a. ac_merchant a = merchantID) (t_accounts d)), d)"

text \<open>\<^verbatim>\<open>COALESCE(SUM(debit), 0) - COALESCE(SUM(credit), 0)\<close> over a set of entries, in exact
  \<^verbatim>\<open>numeric\<close> arithmetic.\<close>

definition debit_minus_credit :: "entry list \<Rightarrow> int" where
  "debit_minus_credit es = (\<Sum>e\<leftarrow>es. sint (en_debit e)) - (\<Sum>e\<leftarrow>es. sint (en_credit e))"

definition GetAccountBalance :: "uuid \<Rightarrow> int stmt" where
  "GetAccountBalance accountID u now d =
     Inr (debit_minus_credit (filter (\<lambda>e. en_account e = accountID) (t_entries d)), d)"

text \<open>\<^verbatim>\<open>entries JOIN accounts\<close>, as the rows of the join that satisfy the condition.\<close>

definition entries_of_accounts :: "(account \<Rightarrow> bool) \<Rightarrow> db \<Rightarrow> entry list" where
  "entries_of_accounts P d =
     concat (map (\<lambda>e. map (\<lambda>a. e) (filter (\<lambda>a. ac_id a = en_account e \<and> P a) (t_accounts d)))
       (t_entries d))"

definition SumAccountBalanceByKind :: "uuid \<Rightarrow> string \<Rightarrow> string \<Rightarrow> int stmt" where
  "SumAccountBalanceByKind merchantID kind currency u now d =
     Inr (debit_minus_credit (entries_of_accounts
       (\<lambda>a. ac_merchant a = merchantID \<and> ac_kind a = kind \<and> ac_currency a = currency) d), d)"

record balance_row =
  bl_type :: string
  bl_kind :: string
  bl_currency :: string
  bl_balance :: int64

definition balance_of_group :: "uuid \<Rightarrow> db \<Rightarrow> string \<times> string \<times> string \<Rightarrow> int" where
  "balance_of_group merchantID d g =
     debit_minus_credit (entries_of_accounts
       (\<lambda>a. ac_merchant a = merchantID \<and> (ac_type a, ac_kind a, ac_currency a) = g) d)"

definition BalancesForMerchant :: "uuid \<Rightarrow> balance_row list stmt" where
  "BalancesForMerchant merchantID u now d =
     (let groups = sort_key (\<lambda>(t, k, c). (c, k))
            (remdups (map (\<lambda>a. (ac_type a, ac_kind a, ac_currency a))
              (filter (\<lambda>a. ac_merchant a = merchantID) (t_accounts d))))
      in if list_all (\<lambda>g. - (2 ^ 63) \<le> balance_of_group merchantID d g \<and>
                          balance_of_group merchantID d g < 2 ^ 63) groups
         then Inr (map (\<lambda>g. \<lparr>bl_type = fst g, bl_kind = fst (snd g), bl_currency = snd (snd g),
                          bl_balance = word_of_int (balance_of_group merchantID d g)\<rparr>) groups, d)
         else Inl PgNumericOutOfRange)"

subsection \<open>Ledger rows\<close>

definition InsertTransaction :: "uuid \<Rightarrow> string \<Rightarrow> uuid option \<Rightarrow> transaction stmt" where
  "InsertTransaction merchantID kind ref u now d =
     (if u \<in> set (map tx_id (t_transactions d)) then Inl PgUniqueViolation
      else let t = \<lparr>tx_id = u, tx_merchant = merchantID, tx_kind = kind, tx_reference = ref,
                    tx_created = now\<rparr>
           in Inr (t, d\<lparr>t_transactions := t_transactions d @ [t]\<rparr>))"

definition InsertEntry :: "uuid \<Rightarrow> uuid \<Rightarrow> int64 \<Rightarrow> int64 \<Rightarrow> string \<Rightarrow> entry stmt" where
  "InsertEntry transactionID accountID debit credit currency u now d =
     (if sint debit < 0 \<or> sint credit < 0 \<or> (debit = 0) = (credit = 0) then Inl PgCheckViolation
      else if u \<in> set (map en_id (t_entries d)) then Inl PgUniqueViolation
      else if transactionID \<notin> set (map tx_id (t_transactions d)) \<or>
              accountID \<notin> set (map ac_id (t_accounts d)) then Inl PgForeignKeyViolation
      else let e = \<lparr>en_id = u, en_transaction = transactionID, en_account = accountID,
                    en_debit = debit, en_credit = credit, en_currency = currency,
                    en_created = now\<rparr>
           in Inr (e, d\<lparr>t_entries := t_entries d @ [e]\<rparr>))"

record ledger_row =
  lr_transaction :: uuid
  lr_tx_kind :: string
  lr_tx_created :: time
  lr_entry :: uuid
  lr_account_type :: string
  lr_account_kind :: string
  lr_debit :: int64
  lr_credit :: int64
  lr_currency :: string

definition ledger_row_of :: "transaction \<Rightarrow> entry \<Rightarrow> account \<Rightarrow> ledger_row" where
  "ledger_row_of t e a =
     \<lparr>lr_transaction = tx_id t, lr_tx_kind = tx_kind t, lr_tx_created = tx_created t,
      lr_entry = en_id e, lr_account_type = ac_type a, lr_account_kind = ac_kind a,
      lr_debit = en_debit e, lr_credit = en_credit e, lr_currency = en_currency e\<rparr>"

definition LedgerForIntent :: "uuid \<Rightarrow> uuid option \<Rightarrow> ledger_row list stmt" where
  "LedgerForIntent merchantID ref u now d =
     Inr (map (\<lambda>(t, e, a). ledger_row_of t e a)
       (sort_key (\<lambda>(t, e, a). (tx_created t, en_created e))
         (concat (map (\<lambda>t. concat (map (\<lambda>e. map (\<lambda>a. (t, e, a))
             (filter (\<lambda>a. ac_id a = en_account e) (t_accounts d)))
           (filter (\<lambda>e. en_transaction e = tx_id t) (t_entries d))))
         (filter (\<lambda>t. tx_merchant t = merchantID \<and> ref \<noteq> None \<and> tx_reference t = ref)
           (t_transactions d))))), d)"

subsection \<open>Payment intents\<close>

text \<open>The metadata are kept as the bytes that were sent, not in the normal form of \<^verbatim>\<open>jsonb\<close>.\<close>

definition CreateIntent ::
    "uuid \<Rightarrow> int64 \<Rightarrow> string \<Rightarrow> string \<Rightarrow> uuid option \<Rightarrow> int64 option \<Rightarrow> bytes \<Rightarrow>
     payment_intent stmt" where
  "CreateIntent merchantID amount currency mode payee fee metadata u now d =
     (if \<not> 0 < sint amount \<or> mode \<notin> {SettlementDirect, SettlementEscrow}
      then Inl PgCheckViolation
      else if u \<in> set (map pi_id (t_intents d)) then Inl PgUniqueViolation
      else if merchantID \<notin> set (map me_id (t_merchants d)) then Inl PgForeignKeyViolation
      else let p = \<lparr>pi_id = u, pi_merchant = merchantID, pi_amount = amount,
                    pi_currency = currency, pi_status = StatusCreated, pi_mode = mode,
                    pi_payee = payee, pi_fee = fee, pi_metadata = metadata,
                    pi_created = now, pi_updated = now\<rparr>
           in Inr (p, d\<lparr>t_intents := t_intents d @ [p]\<rparr>))"

definition GetIntent :: "uuid \<Rightarrow> uuid \<Rightarrow> payment_intent stmt" where
  "GetIntent i merchantID u now d =
     one_row (filter (\<lambda>p. pi_id p = i \<and> pi_merchant p = merchantID) (t_intents d)) d"

definition LockIntentForUpdate :: "uuid \<Rightarrow> uuid \<Rightarrow> payment_intent stmt" where
  "LockIntentForUpdate i merchantID u now d =
     one_row (filter (\<lambda>p. pi_id p = i \<and> pi_merchant p = merchantID) (t_intents d)) d"

definition ListCapturedBefore :: "time \<Rightarrow> int32 \<Rightarrow> payment_intent list stmt" where
  "ListCapturedBefore cutoff lim u now d =
     (case limit_rows lim 0 (sort_key pi_updated
             (filter (\<lambda>p. pi_status p = StatusCaptured \<and> pi_updated p < cutoff) (t_intents d))) of
        Inl e \<Rightarrow> Inl e | Inr rows \<Rightarrow> Inr (rows, d))"

definition ListStaleBefore :: "time \<Rightarrow> int32 \<Rightarrow> payment_intent list stmt" where
  "ListStaleBefore cutoff lim u now d =
     (case limit_rows lim 0 (sort_key pi_updated
             (filter (\<lambda>p. pi_status p \<in> {StatusCreated, StatusRequiresConfirmation} \<and>
                          pi_updated p < cutoff) (t_intents d))) of
        Inl e \<Rightarrow> Inl e | Inr rows \<Rightarrow> Inr (rows, d))"

definition ListIntents ::
    "uuid \<Rightarrow> string option \<Rightarrow> int32 \<Rightarrow> int32 \<Rightarrow> payment_intent list stmt" where
  "ListIntents merchantID status off lim u now d =
     (case limit_rows lim off (sort_key (\<lambda>p. - pi_created p)
             (filter (\<lambda>p. pi_merchant p = merchantID \<and>
                          (case status of None \<Rightarrow> True | Some s \<Rightarrow> pi_status p = s))
               (t_intents d))) of
        Inl e \<Rightarrow> Inl e | Inr rows \<Rightarrow> Inr (rows, d))"

definition set_status :: "string \<Rightarrow> time \<Rightarrow> payment_intent \<Rightarrow> payment_intent" where
  "set_status s now p = p\<lparr>pi_status := s, pi_updated := now\<rparr>"

definition UpdateIntentStatus :: "uuid \<Rightarrow> string \<Rightarrow> payment_intent stmt" where
  "UpdateIntentStatus i status u now d =
     (case find (\<lambda>p. pi_id p = i) (t_intents d) of
        None \<Rightarrow> Inl PgNoRows
      | Some p \<Rightarrow>
          (if status \<notin> set all_statuses then Inl PgCheckViolation
           else Inr (set_status status now p,
             d\<lparr>t_intents := update_where (\<lambda>p. pi_id p = i) (set_status status now)
                              (t_intents d)\<rparr>)))"

interpretation intent_status: keyed_update pi_id "set_status s now" for s now
  by unfold_locales (simp add: set_status_def)

end
