(* ===== verification/Repository_Access.thy ===== *)
theory Repository_Access
  imports Repository
begin

text \<open>
  The rest of \<^verbatim>\<open>internal/repository/db\<close>: the queries on merchants, API keys, portal users,
  idempotency keys, the outbox, the delivery log and the webhook endpoints, with the
  constraints of their tables.
\<close>

section \<open>Merchants, keys and users\<close>

definition CreateMerchant :: "string \<Rightarrow> merchant stmt" where
  "CreateMerchant name u now d =
     (if u \<in> set (map me_id (t_merchants d)) then Inl PgUniqueViolation
      else let m = \<lparr>me_id = u, me_name = name, me_created = now\<rparr>
           in Inr (m, d\<lparr>t_merchants := t_merchants d @ [m]\<rparr>))"

definition GetMerchant :: "uuid \<Rightarrow> merchant stmt" where
  "GetMerchant i u now d = one_row (filter (\<lambda>m. me_id m = i) (t_merchants d)) d"

definition CountKeysForMerchant :: "uuid \<Rightarrow> nat stmt" where
  "CountKeysForMerchant merchantID u now d =
     Inr (length (filter (\<lambda>k. ak_merchant k = merchantID) (t_api_keys d)), d)"

text \<open>The query asks for no order; the rows come in that of their insertion.\<close>

definition GetKeysByPrefix :: "string \<Rightarrow> api_key list stmt" where
  "GetKeysByPrefix prefix u now d =
     Inr (filter (\<lambda>k. ak_prefix k = prefix \<and> ak_revoked k = None) (t_api_keys d), d)"

definition InsertAPIKey :: "uuid \<Rightarrow> string \<Rightarrow> string \<Rightarrow> string \<Rightarrow> api_key stmt" where
  "InsertAPIKey merchantID kind prefix hash u now d =
     (if kind \<notin> {''publishable'', ''secret''} then Inl PgCheckViolation
      else if u \<in> set (map ak_id (t_api_keys d)) then Inl PgUniqueViolation
      else if merchantID \<notin> set (map me_id (t_merchants d)) then Inl PgForeignKeyViolation
      else let k = \<lparr>ak_id = u, ak_merchant = merchantID, ak_kind = kind, ak_prefix = prefix,
                    ak_hash = hash, ak_created = now, ak_revoked = None\<rparr>
           in Inr (k, d\<lparr>t_api_keys := t_api_keys d @ [k]\<rparr>))"

text \<open>The portal's listing leaves the hash out of the row.\<close>

record api_key_row =
  kr_id :: uuid
  kr_kind :: string
  kr_prefix :: string
  kr_created :: time
  kr_revoked :: "time option"

definition ListAPIKeysForMerchant :: "uuid \<Rightarrow> api_key_row list stmt" where
  "ListAPIKeysForMerchant merchantID u now d =
     Inr (map (\<lambda>k. \<lparr>kr_id = ak_id k, kr_kind = ak_kind k, kr_prefix = ak_prefix k,
                    kr_created = ak_created k, kr_revoked = ak_revoked k\<rparr>)
       (sort_key (\<lambda>k. - ak_created k)
         (filter (\<lambda>k. ak_merchant k = merchantID) (t_api_keys d))), d)"

definition CountUsersByEmail :: "string \<Rightarrow> nat stmt" where
  "CountUsersByEmail email u now d =
     Inr (length (filter (\<lambda>x. us_email x = email) (t_users d)), d)"

definition GetUserByEmail :: "string \<Rightarrow> user stmt" where
  "GetUserByEmail email u now d = one_row (filter (\<lambda>x. us_email x = email) (t_users d)) d"

definition InsertUser :: "uuid \<Rightarrow> string \<Rightarrow> string \<Rightarrow> user stmt" where
  "InsertUser merchantID email hash u now d =
     (if u \<in> set (map us_id (t_users d)) \<or> email \<in> set (map us_email (t_users d))
      then Inl PgUniqueViolation
      else if merchantID \<notin> set (map me_id (t_merchants d)) then Inl PgForeignKeyViolation
      else let x = \<lparr>us_id = u, us_merchant = merchantID, us_email = email, us_hash = hash,
                    us_created = now\<rparr>
           in Inr (x, d\<lparr>t_users := t_users d @ [x]\<rparr>))"

section \<open>Idempotency keys\<close>

definition InsertInFlight :: "uuid \<Rightarrow> string \<Rightarrow> string \<Rightarrow> idempotency_key stmt" where
  "InsertInFlight merchantID key hash u now d =
     (if u \<in> set (map ik_id (t_idempotency d)) \<or>
         (\<exists>r \<in> set (t_idempotency d). ik_merchant r = merchantID \<and> ik_key r = key)
      then Inl PgUniqueViolation
      else let r = \<lparr>ik_id = u, ik_merchant = merchantID, ik_key = key, ik_hash = hash,
                    ik_status = ''in_flight'', ik_code = None, ik_body = None,
                    ik_locked = now, ik_created = now\<rparr>
           in Inr (r, d\<lparr>t_idempotency := t_idempotency d @ [r]\<rparr>))"

definition GetByKey :: "uuid \<Rightarrow> string \<Rightarrow> idempotency_key stmt" where
  "GetByKey merchantID key u now d =
     one_row (filter (\<lambda>r. ik_merchant r = merchantID \<and> ik_key r = key) (t_idempotency d)) d"

definition complete_key :: "int32 option \<Rightarrow> bytes option \<Rightarrow> idempotency_key \<Rightarrow> idempotency_key"
  where
  "complete_key code body r = r\<lparr>ik_status := ''completed'', ik_code := code, ik_body := body\<rparr>"

definition MarkCompleted :: "uuid \<Rightarrow> int32 option \<Rightarrow> bytes option \<Rightarrow> unit stmt" where
  "MarkCompleted i code body u now d =
     Inr ((), d\<lparr>t_idempotency :=
       update_where (\<lambda>r. ik_id r = i) (complete_key code body) (t_idempotency d)\<rparr>)"

definition DeleteKey :: "uuid \<Rightarrow> unit stmt" where
  "DeleteKey i u now d =
     Inr ((), d\<lparr>t_idempotency := filter (\<lambda>r. ik_id r \<noteq> i) (t_idempotency d)\<rparr>)"

definition ResetOrphans :: "time \<Rightarrow> unit stmt" where
  "ResetOrphans cutoff u now d =
     Inr ((), d\<lparr>t_idempotency :=
       filter (\<lambda>r. \<not> (ik_status r = ''in_flight'' \<and> ik_locked r < cutoff)) (t_idempotency d)\<rparr>)"

definition ExpireCompleted :: "time \<Rightarrow> unit stmt" where
  "ExpireCompleted cutoff u now d =
     Inr ((), d\<lparr>t_idempotency :=
       filter (\<lambda>r. \<not> (ik_status r = ''completed'' \<and> ik_created r < cutoff)) (t_idempotency d)\<rparr>)"

interpretation idem_complete: keyed_update ik_id "complete_key code body" for code body
  by unfold_locales (simp add: complete_key_def)

section \<open>Outbox, deliveries, endpoints\<close>

definition InsertOutbox :: "uuid \<Rightarrow> uuid \<Rightarrow> string \<Rightarrow> json \<Rightarrow> outbox stmt" where
  "InsertOutbox merchantID eventID typ payload u now d =
     (if u \<in> set (map ob_id (t_outbox d)) \<or> eventID \<in> set (map ob_event_id (t_outbox d))
      then Inl PgUniqueViolation
      else let r = \<lparr>ob_id = u, ob_merchant = merchantID, ob_event_id = eventID, ob_type = typ,
                    ob_payload = payload, ob_status = ''pending'', ob_attempts = 0,
                    ob_next = now, ob_error = None, ob_created = now\<rparr>
           in Inr (r, d\<lparr>t_outbox := t_outbox d @ [r]\<rparr>))"

definition GetOutbox :: "uuid \<Rightarrow> outbox stmt" where
  "GetOutbox i u now d = one_row (filter (\<lambda>r. ob_id r = i) (t_outbox d)) d"

text \<open>
  The dispatcher's claim leases the first \<open>lim\<close> due rows by pushing \<^verbatim>\<open>next_attempt_at\<close>
  forward, and returns them as they are after the update.
\<close>

definition due_rows :: "time \<Rightarrow> db \<Rightarrow> outbox list" where
  "due_rows now d =
     sort_key ob_next (filter (\<lambda>r. ob_status r = ''pending'' \<and> ob_next r \<le> now) (t_outbox d))"

definition lease_row :: "time \<Rightarrow> outbox \<Rightarrow> outbox" where
  "lease_row until r = r\<lparr>ob_next := until\<rparr>"

definition ClaimDueOutbox :: "time \<Rightarrow> int32 \<Rightarrow> outbox list stmt" where
  "ClaimDueOutbox lease lim u now d =
     (case limit_rows lim 0 (due_rows now d) of
        Inl e \<Rightarrow> Inl e
      | Inr claimed \<Rightarrow>
          let rows = update_where (\<lambda>r. ob_id r \<in> set (map ob_id claimed)) (lease_row (now + lease))
                       (t_outbox d)
          in Inr (filter (\<lambda>r. ob_id r \<in> set (map ob_id claimed)) rows, d\<lparr>t_outbox := rows\<rparr>))"

definition deliver_row :: "outbox \<Rightarrow> outbox" where
  "deliver_row r = r\<lparr>ob_status := ''delivered''\<rparr>"

definition MarkOutboxDelivered :: "uuid \<Rightarrow> unit stmt" where
  "MarkOutboxDelivered i u now d =
     Inr ((), d\<lparr>t_outbox := update_where (\<lambda>r. ob_id r = i) deliver_row (t_outbox d)\<rparr>)"

definition kill_row :: "string option \<Rightarrow> outbox \<Rightarrow> outbox" where
  "kill_row err r =
     r\<lparr>ob_attempts := ob_attempts r + 1, ob_status := ''dead'', ob_error := err\<rparr>"

definition MarkOutboxDead :: "uuid \<Rightarrow> string option \<Rightarrow> unit stmt" where
  "MarkOutboxDead i err u now d =
     Inr ((), d\<lparr>t_outbox := update_where (\<lambda>r. ob_id r = i) (kill_row err) (t_outbox d)\<rparr>)"

definition retry_row :: "time \<Rightarrow> string option \<Rightarrow> outbox \<Rightarrow> outbox" where
  "retry_row nxt err r =
     r\<lparr>ob_attempts := ob_attempts r + 1, ob_next := nxt, ob_error := err\<rparr>"

definition MarkOutboxRetry :: "uuid \<Rightarrow> time \<Rightarrow> string option \<Rightarrow> unit stmt" where
  "MarkOutboxRetry i nxt err u now d =
     Inr ((), d\<lparr>t_outbox := update_where (\<lambda>r. ob_id r = i) (retry_row nxt err) (t_outbox d)\<rparr>)"

interpretation outbox_lease: keyed_update ob_id "lease_row t" for t
  by unfold_locales (simp add: lease_row_def)

interpretation outbox_deliver: keyed_update ob_id deliver_row
  by unfold_locales (simp add: deliver_row_def)

interpretation outbox_kill: keyed_update ob_id "kill_row e" for e
  by unfold_locales (simp add: kill_row_def)

interpretation outbox_retry: keyed_update ob_id "retry_row t e" for t e
  by unfold_locales (simp add: retry_row_def)

definition InsertDelivery ::
    "uuid \<Rightarrow> int32 \<Rightarrow> int32 option \<Rightarrow> bool \<Rightarrow> string option \<Rightarrow> unit stmt" where
  "InsertDelivery outboxID attempt code ok err u now d =
     (if u \<in> set (map wd_id (t_deliveries d)) then Inl PgUniqueViolation
      else if outboxID \<notin> set (map ob_id (t_outbox d)) then Inl PgForeignKeyViolation
      else Inr ((), d\<lparr>t_deliveries := t_deliveries d @
             [\<lparr>wd_id = u, wd_outbox = outboxID, wd_attempt = attempt, wd_code = code,
               wd_ok = ok, wd_error = err, wd_created = now\<rparr>]\<rparr>))"

record webhook_event_row =
  ev_id :: uuid
  ev_event_id :: uuid
  ev_type :: string
  ev_status :: string
  ev_attempts :: int32
  ev_error :: "string option"
  ev_created :: time

definition ListWebhookEventsForMerchant ::
    "uuid \<Rightarrow> int32 \<Rightarrow> int32 \<Rightarrow> webhook_event_row list stmt" where
  "ListWebhookEventsForMerchant merchantID lim off u now d =
     (case limit_rows lim off (sort_key (\<lambda>r. - ob_created r)
             (filter (\<lambda>r. ob_merchant r = merchantID) (t_outbox d))) of
        Inl e \<Rightarrow> Inl e
      | Inr rows \<Rightarrow> Inr (map (\<lambda>r. \<lparr>ev_id = ob_id r, ev_event_id = ob_event_id r,
            ev_type = ob_type r, ev_status = ob_status r, ev_attempts = ob_attempts r,
            ev_error = ob_error r, ev_created = ob_created r\<rparr>) rows, d))"

definition InsertWebhookEndpoint :: "uuid \<Rightarrow> string \<Rightarrow> string \<Rightarrow> webhook_endpoint stmt" where
  "InsertWebhookEndpoint merchantID url secret u now d =
     (if u \<in> set (map we_id (t_endpoints d)) then Inl PgUniqueViolation
      else if merchantID \<notin> set (map me_id (t_merchants d)) then Inl PgForeignKeyViolation
      else let e = \<lparr>we_id = u, we_merchant = merchantID, we_url = url, we_secret = secret,
                    we_created = now, we_disabled = None\<rparr>
           in Inr (e, d\<lparr>t_endpoints := t_endpoints d @ [e]\<rparr>))"

definition disable_row :: "time \<Rightarrow> webhook_endpoint \<Rightarrow> webhook_endpoint" where
  "disable_row now e = e\<lparr>we_disabled := Some now\<rparr>"

definition DisableEndpoint :: "uuid \<Rightarrow> uuid \<Rightarrow> webhook_endpoint stmt" where
  "DisableEndpoint i merchantID u now d =
     (let hit = (\<lambda>e. we_id e = i \<and> we_merchant e = merchantID \<and> we_disabled e = None)
      in case find hit (t_endpoints d) of
           None \<Rightarrow> Inl PgNoRows
         | Some e \<Rightarrow> Inr (disable_row now e,
             d\<lparr>t_endpoints := update_where hit (disable_row now) (t_endpoints d)\<rparr>))"

definition ListActiveEndpoints :: "uuid \<Rightarrow> webhook_endpoint list stmt" where
  "ListActiveEndpoints merchantID u now d =
     Inr (sort_key we_created
       (filter (\<lambda>e. we_merchant e = merchantID \<and> we_disabled e = None) (t_endpoints d)), d)"

definition ListEndpoints :: "uuid \<Rightarrow> webhook_endpoint list stmt" where
  "ListEndpoints merchantID u now d =
     Inr (sort_key (\<lambda>e. - we_created e)
       (filter (\<lambda>e. we_merchant e = merchantID) (t_endpoints d)), d)"

interpretation endpoint_disable: keyed_update we_id "disable_row t" for t
  by unfold_locales (simp add: disable_row_def)

end
