(* ===== verification/Txn.thy ===== *)
theory Txn
  imports Repository_Access
begin

text \<open>
  How the service reaches the database: single statements on the pool, and
  \<^verbatim>\<open>pool.Begin\<close> / \<^verbatim>\<open>defer tx.Rollback\<close> / \<^verbatim>\<open>tx.Commit\<close>. Every exchange with the server may go
  wrong: the world holds an arbitrary plan of faults, one per exchange, and an arbitrary
  stream of random ids, so a theorem here holds for every fault and every draw. The row
  lock of \<^verbatim>\<open>FOR UPDATE\<close> makes transactions on one intent run one after the other, so a
  transaction is a single step of the world.
\<close>

section \<open>The world\<close>

text \<open>
  \<open>LostReply\<close>: the server carries the exchange out, but the answer never arrives, so the
  client sees an error.
\<close>

datatype fault = NoFault | Fault | LostReply

record world =
  tables :: db
  tx_open :: "db option"
  clock :: time
  rng :: "nat \<Rightarrow> uuid"
  rpos :: nat
  faults :: "nat \<Rightarrow> fault"
  fpos :: nat

type_synonym 'a io = "(world, 'a) eff"

text \<open>One statement: \<^verbatim>\<open>q.X(ctx, ...)\<close> on the pool or on the open transaction.\<close>

definition run :: "'a stmt \<Rightarrow> 'a io" where
  "run f w =
     (let w1 = w\<lparr>fpos := Suc (fpos w), rpos := Suc (rpos w)\<rparr>
      in case faults w (fpos w) of
           Fault \<Rightarrow> (Inl PgConnection, w1)
         | flt \<Rightarrow>
             (case f (rng w (rpos w)) (clock w) (tables w) of
                Inl e \<Rightarrow> (Inl e, w1)
              | Inr (x, d) \<Rightarrow>
                  ((if flt = NoFault then Inr x else Inl PgConnection), w1\<lparr>tables := d\<rparr>)))"

text \<open>\<^verbatim>\<open>uuid.New()\<close> draws a random id in the process itself.\<close>

definition uuid_New :: "uuid io" where
  "uuid_New w = (Inr (rng w (rpos w)), w\<lparr>rpos := Suc (rpos w)\<rparr>)"

section \<open>Transactions\<close>

text \<open>
  \<^verbatim>\<open>Begin\<close> remembers the tables; \<^verbatim>\<open>Commit\<close> forgets them, unless it fails; the deferred
  \<^verbatim>\<open>Rollback\<close> restores them, and does nothing after a commit.
\<close>

definition begin_tx :: "unit io" where
  "begin_tx w =
     (let w1 = w\<lparr>fpos := Suc (fpos w)\<rparr>
      in if faults w (fpos w) = NoFault then (Inr (), w1\<lparr>tx_open := Some (tables w)\<rparr>)
         else (Inl PgConnection, w1))"

definition commit_tx :: "unit io" where
  "commit_tx w =
     (let w1 = w\<lparr>fpos := Suc (fpos w)\<rparr>
      in case faults w (fpos w) of
           NoFault \<Rightarrow> (Inr (), w1\<lparr>tx_open := None\<rparr>)
         | Fault \<Rightarrow> (Inl PgConnection, w1)
         | LostReply \<Rightarrow> (Inl PgConnection, w1\<lparr>tx_open := None\<rparr>))"

definition rollback_open :: "world \<Rightarrow> world" where
  "rollback_open w =
     (case tx_open w of None \<Rightarrow> w | Some saved \<Rightarrow> w\<lparr>tables := saved, tx_open := None\<rparr>)"

text \<open>
  The body of a transaction ends by reaching \<^verbatim>\<open>tx.Commit\<close> (\<open>Commit x\<close>) or by an early
  \<^verbatim>\<open>return nil\<close> that leaves the deferred rollback to run (\<open>Leave x\<close>).
\<close>

datatype 'a tx_exit = Commit 'a | Leave 'a

definition in_tx :: "'a tx_exit io \<Rightarrow> 'a io" where
  "in_tx body w =
     (let (r, w') = bnd begin_tx (\<lambda>_. bnd body (\<lambda>x.
            case x of Commit y \<Rightarrow> bnd commit_tx (\<lambda>_. ret y) | Leave y \<Rightarrow> ret y)) w
      in (r, rollback_open w'))"

section \<open>Reading successful runs backwards\<close>

lemma run_success [success]:
  assumes "run f w = (Inr x, w')"
  obtains u where "f u (clock w) (tables w) = Inr (x, tables w')" and "u = rng w (rpos w)"
    and "clock w' = clock w" and "tx_open w' = tx_open w"
    and "rng w' = rng w" and "faults w' = faults w"
  using assms
  by (auto simp: run_def Let_def split: fault.splits sum.splits prod.splits if_splits)

lemma uuid_New_success [success]:
  assumes "uuid_New w = (Inr x, w')"
  obtains "tables w' = tables w" and "clock w' = clock w" and "tx_open w' = tx_open w"
    and "x = rng w (rpos w)"
  using assms by (auto simp: uuid_New_def)

lemma begin_tx_success [success]:
  assumes "begin_tx w = (Inr x, w')"
  obtains "tables w' = tables w" and "clock w' = clock w" and "tx_open w' = Some (tables w)"
  using assms by (auto simp: begin_tx_def Let_def split: if_splits)

lemma commit_tx_success [success]:
  assumes "commit_tx w = (Inr x, w')"
  obtains "tables w' = tables w" and "clock w' = clock w" and "tx_open w' = None"
  using assms by (auto simp: commit_tx_def Let_def split: fault.splits)

section \<open>What a single statement and a transaction body leave alone\<close>

text \<open>
  \<open>keeps_tx m\<close>: whatever its result, \<open>m\<close> leaves the open transaction, the clock and the
  plans of faults and ids alone. It holds of every statement and is closed under sequencing.
\<close>

definition keeps_tx :: "'a io \<Rightarrow> bool" where
  "keeps_tx m \<longleftrightarrow> (\<forall>w r w'. m w = (r, w') \<longrightarrow>
     tx_open w' = tx_open w \<and> clock w' = clock w \<and> rng w' = rng w \<and> faults w' = faults w)"

named_theorems keeps

lemma keeps_run [keeps, intro]: "keeps_tx (run f)"
  unfolding keeps_tx_def run_def Let_def
  by (auto split: fault.splits sum.splits prod.splits if_splits)

lemma keeps_uuid_New [keeps, intro]: "keeps_tx uuid_New"
  by (auto simp: keeps_tx_def uuid_New_def)

lemma keeps_ret [keeps, intro]: "keeps_tx (ret x)"
  by (auto simp: keeps_tx_def ret_def)

lemma keeps_fail [keeps, intro]: "keeps_tx (fail e)"
  by (auto simp: keeps_tx_def fail_def)

lemma keeps_bnd [keeps, intro]:
  assumes "keeps_tx m" and "\<And>x. keeps_tx (k x)"
  shows "keeps_tx (bnd m k)"
  using assms unfolding keeps_tx_def bnd_def
  by (auto split: sum.splits prod.splits)

lemma keeps_map_err [keeps, intro]: "keeps_tx m \<Longrightarrow> keeps_tx (map_err f m)"
  unfolding keeps_tx_def map_err_def by (auto split: sum.splits prod.splits)

lemma keeps_if [keeps, intro]:
  "(b \<Longrightarrow> keeps_tx m) \<Longrightarrow> (\<not> b \<Longrightarrow> keeps_tx n) \<Longrightarrow> keeps_tx (if b then m else n)"
  by simp

lemma keeps_sum [keeps, intro]:
  "(\<And>e. keeps_tx (f e)) \<Longrightarrow> (\<And>x. keeps_tx (g x)) \<Longrightarrow>
   keeps_tx (case s of Inl e \<Rightarrow> f e | Inr x \<Rightarrow> g x)"
  by (cases s) auto

lemma keeps_option [keeps, intro]:
  "keeps_tx f \<Longrightarrow> (\<And>x. keeps_tx (g x)) \<Longrightarrow>
   keeps_tx (case s of None \<Rightarrow> f | Some x \<Rightarrow> g x)"
  by (cases s) auto

lemma keeps_Let [keeps, intro]: "(\<And>x. keeps_tx (f x)) \<Longrightarrow> keeps_tx (let x = e in f x)"
  by simp

section \<open>All or nothing\<close>

text \<open>
  A transaction either leaves the tables as they were, or its body reached \<^verbatim>\<open>Commit\<close> and the
  tables are those the body left. A caller that sees success knows the latter, unless the body
  left early without writing; a caller that sees an error cannot tell a lost reply to
  \<^verbatim>\<open>Commit\<close> from a rollback, but never meets a partial write.
\<close>

lemma in_tx_cases:
  assumes run: "in_tx body w = (r, w')" and body: "keeps_tx body" and none: "tx_open w = None"
  obtains (unchanged) "tables w' = tables w" and "tx_open w' = None" and "clock w' = clock w"
      and "\<And>x. r = Inr x \<Longrightarrow> \<exists>w0 w1. tables w0 = tables w \<and> clock w0 = clock w \<and>
                 body w0 = (Inr (Leave x), w1)"
    | (committed) w0 w1 x where "tables w0 = tables w" and "clock w0 = clock w"
      and "body w0 = (Inr (Commit x), w1)" and "tables w' = tables w1"
      and "tx_open w' = None" and "clock w' = clock w" and "r = Inr x \<or> r = Inl PgConnection"
proof (cases "faults w (fpos w) = NoFault")
  case False
  then have "tables w' = tables w \<and> tx_open w' = None \<and> clock w' = clock w \<and> r = Inl PgConnection"
    using run none
    by (auto simp: in_tx_def begin_tx_def bnd_def Let_def rollback_open_def)
  then show thesis by (intro unchanged) auto
next
  case True
  define w0 where "w0 = w\<lparr>fpos := Suc (fpos w), tx_open := Some (tables w)\<rparr>"
  have b: "begin_tx w = (Inr (), w0)"
    using True by (simp add: begin_tx_def Let_def w0_def)
  obtain r1 w1 where r1: "body w0 = (r1, w1)" by (cases "body w0")
  have k: "tx_open w1 = Some (tables w)" "clock w1 = clock w"
    using body r1 unfolding keeps_tx_def by (auto simp: w0_def)
  have w0: "tables w0 = tables w" "clock w0 = clock w" by (simp_all add: w0_def)
  show thesis
  proof (cases r1)
    case (Inl e)
    then have "r = Inl e \<and> w' = rollback_open w1"
      using run b r1 by (simp add: in_tx_def bnd_def Let_def)
    with k show thesis by (intro unchanged) (auto simp: rollback_open_def)
  next
    case (Inr x)
    show thesis
    proof (cases x)
      case (Leave y)
      then have "r = Inr y \<and> w' = rollback_open w1"
        using run b r1 Inr by (simp add: in_tx_def bnd_def Let_def ret_def)
      with k w0 r1 Inr Leave show thesis
        by (intro unchanged) (auto simp: rollback_open_def)
    next
      case (Commit y)
      have e: "(r, w') = (let (r, w') = bnd commit_tx (\<lambda>_. ret y) w1 in (r, rollback_open w'))"
        using run b r1 Inr Commit by (simp add: in_tx_def bnd_def Let_def)
      show thesis
      proof (cases "faults w1 (fpos w1)")
        case Fault
        with e k show thesis
          by (intro unchanged)
             (auto simp: commit_tx_def bnd_def Let_def rollback_open_def)
      next
        case NoFault
        with e k have "r = Inr y \<and> tables w' = tables w1 \<and> tx_open w' = None \<and> clock w' = clock w"
          by (auto simp: commit_tx_def bnd_def Let_def rollback_open_def ret_def)
        with w0 r1 Inr Commit show thesis by (intro committed) auto
      next
        case LostReply
        with e k have "r = Inl PgConnection \<and> tables w' = tables w1 \<and> tx_open w' = None \<and>
            clock w' = clock w"
          by (auto simp: commit_tx_def bnd_def Let_def rollback_open_def)
        with w0 r1 Inr Commit show thesis by (intro committed) auto
      qed
    qed
  qed
qed

text \<open>
  The contract of an operation that runs in one transaction: a body that keeps an invariant of
  the tables when it commits gives an operation that always keeps it. The operations of the
  service are interpretations.
\<close>

locale tx_operation =
  fixes body :: "'a tx_exit io"
    and good :: "db \<Rightarrow> bool"
  assumes body_keeps: "keeps_tx body"
    and body_good: "good (tables w) \<Longrightarrow> body w = (Inr (Commit x), w') \<Longrightarrow> good (tables w')"
begin

lemma op_closed: "tx_open w = None \<Longrightarrow> tx_open (snd (in_tx body w)) = None"
  by (cases "in_tx body w") (auto elim: in_tx_cases[OF _ body_keeps])

lemma op_clock: "tx_open w = None \<Longrightarrow> clock (snd (in_tx body w)) = clock w"
  by (cases "in_tx body w") (auto elim: in_tx_cases[OF _ body_keeps])

lemma op_good:
  assumes "tx_open w = None" and "good (tables w)"
  shows "good (tables (snd (in_tx body w)))"
proof -
  obtain r w' where r: "in_tx body w = (r, w')" by (cases "in_tx body w")
  then show ?thesis
  proof (cases rule: in_tx_cases[OF r body_keeps assms(1)])
    case 1
    with r assms show ?thesis by simp
  next
    case (2 w0 w1 x)
    with assms(2) have "good (tables w1)" using body_good[of w0 x w1] by simp
    with 2 r show ?thesis by simp
  qed
qed

end

end
