(* ===== verification/Ledger.thy ===== *)
theory Ledger
  imports Txn
begin

text \<open>
  Package \<^verbatim>\<open>ledger\<close>: account types and kinds (\<^verbatim>\<open>accounts.go\<close>), \<^verbatim>\<open>PostTransaction\<close>,
  \<^verbatim>\<open>Balance\<close> and \<^verbatim>\<open>numericToInt64\<close> (\<^verbatim>\<open>post.go\<close>), \<^verbatim>\<open>SumByKind\<close> and
  \<^verbatim>\<open>EscrowSegregationHolds\<close> (\<^verbatim>\<open>reconcile.go\<close>). The lemmas relate a successful posting to the
  derived balances: which rows it appends, by how much every sum over accounts moves, and that
  the tables stay well-formed.
\<close>

section \<open>Account types and kinds\<close>

definition TypeAsset :: string where "TypeAsset = ''asset''"
definition TypeLiability :: string where "TypeLiability = ''liability''"
definition TypeRevenue :: string where "TypeRevenue = ''revenue''"

definition KindPlatformCash :: string where "KindPlatformCash = ''platform_cash''"
definition KindAcquirerReceivable :: string where
  "KindAcquirerReceivable = ''acquirer_receivable''"
definition KindMerchantPayable :: string where "KindMerchantPayable = ''merchant_payable''"
definition KindSegregatedCash :: string where "KindSegregatedCash = ''segregated_cash''"
definition KindEscrowLiability :: string where "KindEscrowLiability = ''escrow_liability''"
definition KindPayableToPayee :: string where "KindPayableToPayee = ''payable_to_payee''"
definition KindPlatformRevenue :: string where "KindPlatformRevenue = ''platform_revenue''"

lemmas type_defs = TypeAsset_def TypeLiability_def TypeRevenue_def

lemmas kind_defs =
  KindPlatformCash_def KindAcquirerReceivable_def KindMerchantPayable_def
  KindSegregatedCash_def KindEscrowLiability_def KindPayableToPayee_def KindPlatformRevenue_def

lemma kind_distinct [simp]:
  "KindPlatformCash \<noteq> KindAcquirerReceivable" "KindPlatformCash \<noteq> KindMerchantPayable"
  "KindPlatformCash \<noteq> KindSegregatedCash" "KindPlatformCash \<noteq> KindEscrowLiability"
  "KindPlatformCash \<noteq> KindPayableToPayee" "KindPlatformCash \<noteq> KindPlatformRevenue"
  "KindAcquirerReceivable \<noteq> KindMerchantPayable" "KindAcquirerReceivable \<noteq> KindSegregatedCash"
  "KindAcquirerReceivable \<noteq> KindEscrowLiability" "KindAcquirerReceivable \<noteq> KindPayableToPayee"
  "KindAcquirerReceivable \<noteq> KindPlatformRevenue"
  "KindMerchantPayable \<noteq> KindSegregatedCash" "KindMerchantPayable \<noteq> KindEscrowLiability"
  "KindMerchantPayable \<noteq> KindPayableToPayee" "KindMerchantPayable \<noteq> KindPlatformRevenue"
  "KindSegregatedCash \<noteq> KindEscrowLiability" "KindSegregatedCash \<noteq> KindPayableToPayee"
  "KindSegregatedCash \<noteq> KindPlatformRevenue"
  "KindEscrowLiability \<noteq> KindPayableToPayee" "KindEscrowLiability \<noteq> KindPlatformRevenue"
  "KindPayableToPayee \<noteq> KindPlatformRevenue"
  by (simp_all add: kind_defs)

lemmas kind_distinct_sym [simp] = kind_distinct [symmetric]

section \<open>Posting\<close>

text \<open>\<^verbatim>\<open>ledger.Entry\<close>: one leg of a transaction, before it is a row.\<close>

record leg =
  lg_account :: uuid
  lg_debit :: int64
  lg_credit :: int64
  lg_currency :: string

definition debit_leg :: "uuid \<Rightarrow> int64 \<Rightarrow> string \<Rightarrow> leg" where
  "debit_leg a n c = \<lparr>lg_account = a, lg_debit = n, lg_credit = 0, lg_currency = c\<rparr>"

definition credit_leg :: "uuid \<Rightarrow> int64 \<Rightarrow> string \<Rightarrow> leg" where
  "credit_leg a n c = \<lparr>lg_account = a, lg_debit = 0, lg_credit = n, lg_currency = c\<rparr>"

text \<open>The validating loop, with its two running \<^verbatim>\<open>int64\<close> sums.\<close>

fun check_legs :: "string \<Rightarrow> int64 \<Rightarrow> int64 \<Rightarrow> leg list \<Rightarrow> error + int64 \<times> int64" where
  "check_legs currency sumDebit sumCredit [] = Inr (sumDebit, sumCredit)"
| "check_legs currency sumDebit sumCredit (e # es) =
     (if sint (lg_debit e) < 0 \<or> sint (lg_credit e) < 0 \<or> (lg_debit e = 0) = (lg_credit e = 0)
      then Inl ErrBadEntry
      else if lg_currency e \<noteq> currency then Inl ErrMixedCurrency
      else check_legs currency (sumDebit + lg_debit e) (sumCredit + lg_credit e) es)"

fun insert_legs :: "uuid \<Rightarrow> leg list \<Rightarrow> unit io" where
  "insert_legs t [] = ret ()"
| "insert_legs t (e # es) =
     bnd (run (InsertEntry t (lg_account e) (lg_debit e) (lg_credit e) (lg_currency e)))
       (\<lambda>_. insert_legs t es)"

definition PostTransaction :: "uuid \<Rightarrow> string \<Rightarrow> uuid option \<Rightarrow> leg list \<Rightarrow> uuid io" where
  "PostTransaction merchantID kind refID entries =
     (case entries of
        [] \<Rightarrow> fail ErrEmpty
      | e0 # _ \<Rightarrow>
          (case check_legs (lg_currency e0) 0 0 entries of
             Inl e \<Rightarrow> fail e
           | Inr (sumDebit, sumCredit) \<Rightarrow>
               if sumDebit \<noteq> sumCredit then fail ErrUnbalanced
               else bnd (run (InsertTransaction merchantID kind refID)) (\<lambda>tx.
                    bnd (insert_legs (tx_id tx) entries) (\<lambda>_.
                    ret (tx_id tx)))))"

section \<open>Balances\<close>

text \<open>\<^verbatim>\<open>pgtype.Numeric\<close>: \<open>nu_int * 10 ^ nu_exp\<close>, or NULL, or NaN.\<close>

record numeric =
  nu_int :: int
  nu_exp :: int
  nu_nan :: bool
  nu_valid :: bool

text \<open>\<^verbatim>\<open>big.Int.Quo\<close> by a positive number truncates towards zero.\<close>

definition quo :: "int \<Rightarrow> int \<Rightarrow> int" where
  "quo a b = (if a < 0 then - ((- a) div b) else a div b)"

definition numericToInt64 :: "numeric \<Rightarrow> error + int64" where
  "numericToInt64 n =
     (if \<not> nu_valid n then Inr 0
      else if nu_nan n then Inl ErrBalanceNaN
      else let i = (if nu_exp n > 0 then nu_int n * 10 ^ nat (nu_exp n)
                    else if nu_exp n < 0 then quo (nu_int n) (10 ^ nat (- nu_exp n))
                    else nu_int n)
           in if - (2 ^ 63) \<le> i \<and> i < 2 ^ 63 then Inr (word_of_int i)
              else Inl ErrBalanceOverflow)"

text \<open>
  \<open>dec\<close> is how the driver decodes the exact \<^verbatim>\<open>numeric\<close> the server sends.
\<close>

definition Balance :: "(int \<Rightarrow> numeric) \<Rightarrow> uuid \<Rightarrow> int64 io" where
  "Balance dec accountID =
     bnd (run (GetAccountBalance accountID)) (\<lambda>n.
       case numericToInt64 (dec n) of Inl e \<Rightarrow> fail e | Inr b \<Rightarrow> ret b)"

definition SumByKind :: "(int \<Rightarrow> numeric) \<Rightarrow> uuid \<Rightarrow> string \<Rightarrow> string \<Rightarrow> int64 io" where
  "SumByKind dec merchantID kind currency =
     bnd (run (SumAccountBalanceByKind merchantID kind currency)) (\<lambda>n.
       case numericToInt64 (dec n) of Inl e \<Rightarrow> fail e | Inr b \<Rightarrow> ret b)"

definition EscrowSegregationHolds ::
    "(int \<Rightarrow> numeric) \<Rightarrow> uuid \<Rightarrow> string \<Rightarrow> (int64 \<times> int64 \<times> bool) io" where
  "EscrowSegregationHolds dec merchantID currency =
     bnd (SumByKind dec merchantID KindSegregatedCash currency) (\<lambda>segregated.
     bnd (SumByKind dec merchantID KindEscrowLiability currency) (\<lambda>liability.
     ret (segregated, liability, segregated + liability = 0)))"

text \<open>What is relied on of the driver's decoder: it is exact on integers.\<close>

definition exact_codec :: "(int \<Rightarrow> numeric) \<Rightarrow> bool" where
  "exact_codec dec \<longleftrightarrow>
     (\<forall>n. nu_valid (dec n) \<and> \<not> nu_nan (dec n) \<and> 0 \<le> nu_exp (dec n) \<and>
          nu_int (dec n) * 10 ^ nat (nu_exp (dec n)) = n)"

definition plain_numeric :: "int \<Rightarrow> numeric" where
  "plain_numeric n = \<lparr>nu_int = n, nu_exp = 0, nu_nan = False, nu_valid = True\<rparr>"

lemma exact_plain_numeric: "exact_codec plain_numeric"
  by (simp add: exact_codec_def plain_numeric_def)

lemma numericToInt64_exact:
  assumes "exact_codec dec"
  shows "numericToInt64 (dec n) =
    (if - (2 ^ 63) \<le> n \<and> n < 2 ^ 63 then Inr (word_of_int n) else Inl ErrBalanceOverflow)"
proof -
  define x where "x = dec n"
  have x: "nu_valid x" "\<not> nu_nan x" "0 \<le> nu_exp x" "nu_int x * 10 ^ nat (nu_exp x) = n"
    using assms by (simp_all add: exact_codec_def x_def)
  then have e: "(if nu_exp x > 0 then nu_int x * 10 ^ nat (nu_exp x)
              else if nu_exp x < 0 then quo (nu_int x) (10 ^ nat (- nu_exp x)) else nu_int x) = n"
    by (cases "nu_exp x = 0") auto
  show ?thesis
    unfolding x_def [symmetric] numericToInt64_def Let_def e using x by simp
qed

section \<open>Well-formed ledger tables\<close>

text \<open>The keys and foreign keys of the ledger's three tables, and the entries CHECK.\<close>

definition ledger_wf :: "db \<Rightarrow> bool" where
  "ledger_wf d \<longleftrightarrow>
     distinct (map ac_id (t_accounts d)) \<and>
     distinct (map tx_id (t_transactions d)) \<and>
     distinct (map en_id (t_entries d)) \<and>
     (\<forall>e \<in> set (t_entries d).
        en_account e \<in> ac_id ` set (t_accounts d) \<and>
        en_transaction e \<in> tx_id ` set (t_transactions d) \<and>
        0 \<le> sint (en_debit e) \<and> 0 \<le> sint (en_credit e) \<and>
        (en_debit e = 0) \<noteq> (en_credit e = 0))"

definition posted :: "entry \<Rightarrow> int" where
  "posted e = sint (en_debit e) - sint (en_credit e)"

lemma debit_minus_credit_append [simp]:
  "debit_minus_credit (xs @ ys) = debit_minus_credit xs + debit_minus_credit ys"
  by (simp add: debit_minus_credit_def)

lemma debit_minus_credit_Nil [simp]: "debit_minus_credit [] = 0"
  by (simp add: debit_minus_credit_def)

lemma debit_minus_credit_Cons [simp]:
  "debit_minus_credit (e # es) = posted e + debit_minus_credit es"
  by (simp add: debit_minus_credit_def posted_def)

text \<open>The derived balance of all accounts that satisfy a predicate.\<close>

definition account_sum :: "(account \<Rightarrow> bool) \<Rightarrow> db \<Rightarrow> int" where
  "account_sum P d = debit_minus_credit (entries_of_accounts P d)"

definition of_kind :: "uuid \<Rightarrow> string \<Rightarrow> string \<Rightarrow> account \<Rightarrow> bool" where
  "of_kind m k c a \<longleftrightarrow> ac_merchant a = m \<and> ac_kind a = k \<and> ac_currency a = c"

definition kind_sum :: "uuid \<Rightarrow> string \<Rightarrow> string \<Rightarrow> db \<Rightarrow> int" where
  "kind_sum m k c d = account_sum (of_kind m k c) d"

lemma SumAccountBalanceByKind_eq: "SumAccountBalanceByKind m k c u now d = Inr (kind_sum m k c d, d)"
  by (simp add: SumAccountBalanceByKind_def kind_sum_def account_sum_def of_kind_def [abs_def])

lemma account_sum_cong:
  "t_accounts d' = t_accounts d \<Longrightarrow> t_entries d' = t_entries d \<Longrightarrow>
   account_sum P d' = account_sum P d"
  by (simp add: account_sum_def entries_of_accounts_def)

lemma account_sum_new_account:
  assumes "ledger_wf d" and "ac_id a \<notin> ac_id ` set (t_accounts d)"
  shows "account_sum P (d\<lparr>t_accounts := t_accounts d @ [a]\<rparr>) = account_sum P d"
proof -
  have neq: "e \<in> set (t_entries d) \<Longrightarrow> ac_id a \<noteq> en_account e" for e
    using assms by (auto simp: ledger_wf_def)
  show ?thesis
    by (simp add: account_sum_def entries_of_accounts_def neq cong: map_cong)
qed

lemma account_sum_new_entry:
  assumes "ledger_wf d" and "a \<in> set (t_accounts d)" and "en_account e = ac_id a"
  shows "account_sum P (d\<lparr>t_entries := t_entries d @ [e]\<rparr>) =
         account_sum P d + (if P a then posted e else 0)"
proof -
  have "filter (\<lambda>x. ac_id x = en_account e \<and> P x) (t_accounts d) = (if P a then [a] else [])"
    using assms by (simp add: filter_key_single ledger_wf_def)
  then show ?thesis
    by (simp add: account_sum_def entries_of_accounts_def)
qed

section \<open>Effect of a posting\<close>

definition leg_posted :: "leg \<Rightarrow> int" where
  "leg_posted l = sint (lg_debit l) - sint (lg_credit l)"

lemma leg_posted_simps [simp]:
  "leg_posted (debit_leg a n c) = sint n" "leg_posted (credit_leg a n c) = - sint n"
  by (simp_all add: leg_posted_def debit_leg_def credit_leg_def)

lemma leg_sel_simps [simp]:
  "lg_account (debit_leg a n c) = a" "lg_account (credit_leg a n c) = a"
  "lg_debit (debit_leg a n c) = n" "lg_debit (credit_leg a n c) = 0"
  "lg_credit (debit_leg a n c) = 0" "lg_credit (credit_leg a n c) = n"
  "lg_currency (debit_leg a n c) = c" "lg_currency (credit_leg a n c) = c"
  by (simp_all add: debit_leg_def credit_leg_def)

text \<open>By how much a leg moves the sum over the accounts satisfying \<open>P\<close>.\<close>

definition leg_delta :: "(account \<Rightarrow> bool) \<Rightarrow> db \<Rightarrow> leg \<Rightarrow> int" where
  "leg_delta P d l =
     (if \<exists>a \<in> set (t_accounts d). ac_id a = lg_account l \<and> P a then leg_posted l else 0)"

lemma leg_delta_row:
  assumes "ledger_wf d" and "a \<in> set (t_accounts d)" and "lg_account l = ac_id a"
  shows "leg_delta P d l = (if P a then leg_posted l else 0)"
proof -
  have "x = a" if "x \<in> set (t_accounts d)" and "ac_id x = ac_id a" for x
    using assms that distinct_key_eq[of ac_id "t_accounts d" x a] by (simp add: ledger_wf_def)
  with assms(2,3) show ?thesis by (auto simp: leg_delta_def)
qed

lemma leg_delta_cong: "t_accounts d' = t_accounts d \<Longrightarrow> leg_delta P d' = leg_delta P d"
  by (simp add: leg_delta_def fun_eq_iff)

definition row_matches :: "uuid \<Rightarrow> leg \<Rightarrow> entry \<Rightarrow> bool" where
  "row_matches t l e \<longleftrightarrow> en_transaction e = t \<and> en_account e = lg_account l \<and>
     en_debit e = lg_debit l \<and> en_credit e = lg_credit l \<and> en_currency e = lg_currency l"

lemma insert_legs_success:
  assumes "insert_legs t legs w = (Inr x, w')" and "ledger_wf (tables w)"
  shows "\<exists>es. tables w' = (tables w)\<lparr>t_entries := t_entries (tables w) @ es\<rparr> \<and>
           list_all2 (row_matches t) legs es \<and> ledger_wf (tables w') \<and> clock w' = clock w \<and>
           (\<forall>P. account_sum P (tables w') =
                account_sum P (tables w) + (\<Sum>l\<leftarrow>legs. leg_delta P (tables w) l))"
  using assms
proof (induction legs arbitrary: w)
  case Nil
  then have "tables w' = tables w \<and> clock w' = clock w"
    by (auto elim!: success)
  with Nil show ?case by (intro exI[of _ "[]"]) simp
next
  case (Cons l legs)
  from Cons.prems(1) obtain e w1 where
      "run (InsertEntry t (lg_account l) (lg_debit l) (lg_credit l) (lg_currency l)) w = (Inr e, w1)"
    and rest: "insert_legs t legs w1 = (Inr x, w')"
    by (auto elim!: bnd_success)
  then obtain u where
      ins: "InsertEntry t (lg_account l) (lg_debit l) (lg_credit l) (lg_currency l) u (clock w)
              (tables w) = Inr (e, tables w1)" and c1: "clock w1 = clock w"
    by (auto elim!: run_success)
  from ins have e: "row_matches t l e" "en_id e = u"
    and d1: "tables w1 = (tables w)\<lparr>t_entries := t_entries (tables w) @ [e]\<rparr>"
    and chk: "u \<notin> en_id ` set (t_entries (tables w))" "t \<in> tx_id ` set (t_transactions (tables w))"
      "lg_account l \<in> ac_id ` set (t_accounts (tables w))"
      "0 \<le> sint (lg_debit l)" "0 \<le> sint (lg_credit l)" "(lg_debit l = 0) \<noteq> (lg_credit l = 0)"
    by (auto simp: InsertEntry_def row_matches_def Let_def split: if_splits)
  have wf1: "ledger_wf (tables w1)"
    using Cons.prems(2) e chk by (auto simp: d1 ledger_wf_def row_matches_def)
  obtain a where a: "a \<in> set (t_accounts (tables w))" "ac_id a = lg_account l"
    using chk(3) by (metis imageE)
  have s1: "account_sum P (tables w1) = account_sum P (tables w) + leg_delta P (tables w) l" for P
    using account_sum_new_entry[OF Cons.prems(2) a(1), of e P]
      leg_delta_row[OF Cons.prems(2) a(1), of l P] e a
    by (simp add: d1 row_matches_def posted_def leg_posted_def)
  from Cons.IH[OF rest wf1] obtain es where
      es: "tables w' = (tables w1)\<lparr>t_entries := t_entries (tables w1) @ es\<rparr>"
        "list_all2 (row_matches t) legs es" "ledger_wf (tables w')" "clock w' = clock w1"
        "\<forall>P. account_sum P (tables w') =
            account_sum P (tables w1) + (\<Sum>l\<leftarrow>legs. leg_delta P (tables w1) l)"
    by blast
  show ?case
    using es e s1 c1 leg_delta_cong[of "tables w1" "tables w"]
    by (intro exI[of _ "e # es"]) (simp add: d1)
qed

text \<open>What the validating loop has established when it lets a posting through.\<close>

lemma check_legs_ok:
  assumes "check_legs c sd sc legs = Inr (sd', sc')"
  shows "sd' = sd + (\<Sum>l\<leftarrow>legs. lg_debit l) \<and> sc' = sc + (\<Sum>l\<leftarrow>legs. lg_credit l) \<and>
         (\<forall>l \<in> set legs. 0 \<le> sint (lg_debit l) \<and> 0 \<le> sint (lg_credit l) \<and>
            (lg_debit l = 0) \<noteq> (lg_credit l = 0) \<and> lg_currency l = c)"
  using assms
proof (induction legs arbitrary: sd sc)
  case Nil
  then show ?case by simp
next
  case (Cons l legs)
  then have l: "\<not> (sint (lg_debit l) < 0 \<or> sint (lg_credit l) < 0 \<or>
        (lg_debit l = 0) = (lg_credit l = 0))" "lg_currency l = c"
    and rest: "check_legs c (sd + lg_debit l) (sc + lg_credit l) legs = Inr (sd', sc')"
    by (simp_all split: if_splits)
  from Cons.IH[OF rest] l show ?case by (auto simp: add.assoc)
qed

lemma check_legs_total:
  assumes "\<forall>l \<in> set legs. 0 \<le> sint (lg_debit l) \<and> 0 \<le> sint (lg_credit l) \<and>
            (lg_debit l = 0) \<noteq> (lg_credit l = 0) \<and> lg_currency l = c"
  shows "check_legs c sd sc legs =
         Inr (sd + (\<Sum>l\<leftarrow>legs. lg_debit l), sc + (\<Sum>l\<leftarrow>legs. lg_credit l))"
  using assms by (induction legs arbitrary: sd sc) (auto simp: algebra_simps)

lemma PostTransaction_success:
  assumes run: "PostTransaction merchantID kind refID legs w = (Inr t, w')"
    and wf: "ledger_wf (tables w)"
  obtains es where
    "tables w' = (tables w)\<lparr>t_transactions := t_transactions (tables w) @
        [\<lparr>tx_id = t, tx_merchant = merchantID, tx_kind = kind, tx_reference = refID,
          tx_created = clock w\<rparr>], t_entries := t_entries (tables w) @ es\<rparr>"
    and "t \<notin> tx_id ` set (t_transactions (tables w))"
    and "list_all2 (row_matches t) legs es"
    and "ledger_wf (tables w')" and "clock w' = clock w"
    and "\<And>P. account_sum P (tables w') =
           account_sum P (tables w) + (\<Sum>l\<leftarrow>legs. leg_delta P (tables w) l)"
    and "legs \<noteq> []"
    and "(\<Sum>l\<leftarrow>legs. lg_debit l) = (\<Sum>l\<leftarrow>legs. lg_credit l)"
    and "\<forall>l \<in> set legs. 0 \<le> sint (lg_debit l) \<and> 0 \<le> sint (lg_credit l) \<and>
           (lg_debit l = 0) \<noteq> (lg_credit l = 0) \<and> lg_currency l = lg_currency (hd legs)"
proof -
  from run obtain l0 ls where legs: "legs = l0 # ls"
    by (cases legs) (auto simp: PostTransaction_def elim!: success)
  from run legs obtain sd sc where
      chk: "check_legs (lg_currency l0) 0 0 legs = Inr (sd, sc)" and eq: "sd = sc"
    and "bnd (run (InsertTransaction merchantID kind refID)) (\<lambda>tx.
           bnd (insert_legs (tx_id tx) legs) (\<lambda>_. ret (tx_id tx))) w = (Inr t, w')"
    by (auto simp: PostTransaction_def split: sum.splits prod.splits if_splits elim!: success)
  then obtain tx w1 where i: "run (InsertTransaction merchantID kind refID) w = (Inr tx, w1)"
    and l: "insert_legs (tx_id tx) legs w1 = (Inr (), w')" and t: "t = tx_id tx"
    by (auto elim!: bnd_success ret_success)
  from i obtain u where
      "InsertTransaction merchantID kind refID u (clock w) (tables w) = Inr (tx, tables w1)"
    and c1: "clock w1 = clock w"
    by (auto elim!: run_success)
  then have tx: "tx = \<lparr>tx_id = u, tx_merchant = merchantID, tx_kind = kind, tx_reference = refID,
        tx_created = clock w\<rparr>" and fresh: "u \<notin> tx_id ` set (t_transactions (tables w))"
    and d1: "tables w1 = (tables w)\<lparr>t_transactions := t_transactions (tables w) @ [tx]\<rparr>"
    by (auto simp: InsertTransaction_def Let_def split: if_splits)
  have wf1: "ledger_wf (tables w1)"
    using wf fresh tx by (auto simp: d1 ledger_wf_def)
  from insert_legs_success[OF l wf1] obtain es where
      es: "tables w' = (tables w1)\<lparr>t_entries := t_entries (tables w1) @ es\<rparr>"
        "list_all2 (row_matches (tx_id tx)) legs es" "ledger_wf (tables w')" "clock w' = clock w1"
        "\<forall>P. account_sum P (tables w') =
            account_sum P (tables w1) + (\<Sum>l\<leftarrow>legs. leg_delta P (tables w1) l)"
    by blast
  have a: "account_sum P (tables w1) = account_sum P (tables w)" for P
    by (rule account_sum_cong) (simp_all add: d1)
  have dl: "leg_delta P (tables w1) = leg_delta P (tables w)" for P
    by (rule leg_delta_cong) (simp add: d1)
  show thesis
  proof (rule that)
    show "tables w' = (tables w)\<lparr>t_transactions := t_transactions (tables w) @
        [\<lparr>tx_id = t, tx_merchant = merchantID, tx_kind = kind, tx_reference = refID,
          tx_created = clock w\<rparr>], t_entries := t_entries (tables w) @ es\<rparr>"
      using es(1) t tx by (simp add: d1)
    show "t \<notin> tx_id ` set (t_transactions (tables w))" using fresh t tx by simp
    show "list_all2 (row_matches t) legs es" using es(2) t by simp
    show "ledger_wf (tables w')" by (rule es(3))
    show "clock w' = clock w" using es(4) c1 by simp
    show "account_sum P (tables w') =
           account_sum P (tables w) + (\<Sum>l\<leftarrow>legs. leg_delta P (tables w) l)" for P
      using es(5) a dl by simp
    show "legs \<noteq> []" using legs by simp
    show "(\<Sum>l\<leftarrow>legs. lg_debit l) = (\<Sum>l\<leftarrow>legs. lg_credit l)"
      using check_legs_ok[OF chk] eq by auto
    show "\<forall>l \<in> set legs. 0 \<le> sint (lg_debit l) \<and> 0 \<le> sint (lg_credit l) \<and>
           (lg_debit l = 0) \<noteq> (lg_credit l = 0) \<and> lg_currency l = lg_currency (hd legs)"
      using check_legs_ok[OF chk] legs by simp
  qed
qed

text \<open>A leg that is let through is positive, whoever the caller is.\<close>

lemma PostTransaction_debit_positive:
  assumes "PostTransaction merchantID kind refID (debit_leg a n c # legs) w = (Inr t, w')"
  shows "0 < sint n"
proof -
  have "\<not> (sint n < 0 \<or> (n = 0) = (0 = (0 :: int64)))"
    using assms by (auto simp: PostTransaction_def fail_def split: if_splits)
  then show ?thesis by (auto simp: less_le)
qed

section \<open>What posting guarantees\<close>

lemma word_of_sum: "(\<Sum>l\<leftarrow>ls. f l) = (word_of_int (\<Sum>l\<leftarrow>ls. sint (f l)) :: int64)"
  by (induction ls) simp_all

lemma word_sum_eq:
  fixes a b :: int
  assumes "(word_of_int a :: int64) = word_of_int b"
    and "0 \<le> a" "a < 2 ^ 64" "0 \<le> b" "b < 2 ^ 64"
  shows "a = b"
  using assms by (simp add: word_of_int_eq_iff take_bit_int_eq_self)

definition total_debit :: "leg list \<Rightarrow> int" where
  "total_debit legs = (\<Sum>l\<leftarrow>legs. sint (lg_debit l))"

definition total_credit :: "leg list \<Rightarrow> int" where
  "total_credit legs = (\<Sum>l\<leftarrow>legs. sint (lg_credit l))"

text \<open>C25: A posting that succeeds has appended one transaction and one entry per leg, each leg
  positive on exactly one side and in one currency, and moved the balance of every set of accounts
  by exactly its legs; as long as the two totals stay below 2^64 they are equal.\<close>

theorem posting_exact:
  assumes "PostTransaction merchantID kind refID legs w = (Inr t, w')"
    and "ledger_wf (tables w)" and "total_debit legs < 2 ^ 64" and "total_credit legs < 2 ^ 64"
  shows "total_debit legs = total_credit legs \<and> legs \<noteq> [] \<and>
    (\<forall>l \<in> set legs. 0 \<le> sint (lg_debit l) \<and> 0 \<le> sint (lg_credit l) \<and>
       (lg_debit l = 0) \<noteq> (lg_credit l = 0) \<and> lg_currency l = lg_currency (hd legs)) \<and>
    (\<forall>P. account_sum P (tables w') =
       account_sum P (tables w) + (\<Sum>l\<leftarrow>legs. leg_delta P (tables w) l)) \<and>
    (\<exists>tx es. t_transactions (tables w') = t_transactions (tables w) @ [tx] \<and>
       tx_id tx = t \<and> tx_merchant tx = merchantID \<and> tx_kind tx = kind \<and> tx_reference tx = refID \<and>
       t_entries (tables w') = t_entries (tables w) @ es \<and> list_all2 (row_matches t) legs es)"
proof (rule PostTransaction_success[OF assms(1,2)])
  fix es
  assume t: "tables w' = (tables w)\<lparr>t_transactions := t_transactions (tables w) @
        [\<lparr>tx_id = t, tx_merchant = merchantID, tx_kind = kind, tx_reference = refID,
          tx_created = clock w\<rparr>], t_entries := t_entries (tables w) @ es\<rparr>"
    and rows: "list_all2 (row_matches t) legs es" and ne: "legs \<noteq> []"
    and sums: "\<And>P. account_sum P (tables w') =
           account_sum P (tables w) + (\<Sum>l\<leftarrow>legs. leg_delta P (tables w) l)"
    and eq: "(\<Sum>l\<leftarrow>legs. lg_debit l) = (\<Sum>l\<leftarrow>legs. lg_credit l)"
    and ok: "\<forall>l \<in> set legs. 0 \<le> sint (lg_debit l) \<and> 0 \<le> sint (lg_credit l) \<and>
           (lg_debit l = 0) \<noteq> (lg_credit l = 0) \<and> lg_currency l = lg_currency (hd legs)"
  have nn: "0 \<le> total_debit legs" "0 \<le> total_credit legs"
    using ok by (auto simp: total_debit_def total_credit_def intro!: sum_list_nonneg)
  have "total_debit legs = total_credit legs"
    by (rule word_sum_eq)
       (use eq nn assms(3,4) in \<open>simp_all add: word_of_sum total_debit_def total_credit_def\<close>)
  moreover have "\<exists>tx es. t_transactions (tables w') = t_transactions (tables w) @ [tx] \<and>
       tx_id tx = t \<and> tx_merchant tx = merchantID \<and> tx_kind tx = kind \<and> tx_reference tx = refID \<and>
       t_entries (tables w') = t_entries (tables w) @ es \<and> list_all2 (row_matches t) legs es"
    using t rows by auto
  ultimately show ?thesis using ne ok sums by blast
qed

definition demo_ledger :: world where
  "demo_ledger = \<lparr>tables = empty_db\<lparr>t_accounts :=
       [\<lparr>ac_id = 1, ac_merchant = 9, ac_type = TypeAsset, ac_kind = KindPlatformCash,
         ac_currency = ''USD'', ac_reference = None, ac_created = 0\<rparr>,
        \<lparr>ac_id = 2, ac_merchant = 9, ac_type = TypeLiability, ac_kind = KindMerchantPayable,
         ac_currency = ''USD'', ac_reference = None, ac_created = 0\<rparr>]\<rparr>,
     tx_open = None, clock = 0, rng = (\<lambda>n. word_of_nat (n + 3)), rpos = 0,
     faults = (\<lambda>_. NoFault), fpos = 0\<rparr>"

lemma demo_ledger_wf: "ledger_wf (tables demo_ledger)"
  by (simp add: demo_ledger_def ledger_wf_def empty_db_def)

definition demo_legs :: "leg list" where
  "demo_legs = [debit_leg 1 40 ''USD'', credit_leg 2 30 ''USD'', credit_leg 2 10 ''USD'']"

lemma demo_posting: "fst (PostTransaction 9 ''x'' None demo_legs demo_ledger) = Inr 3"
  by code_simp

theorem posting_exact_witness:
  "account_sum (\<lambda>a. ac_id a = 1) (tables (snd (PostTransaction 9 ''x'' None demo_legs demo_ledger))) = 40"
proof -
  have "PostTransaction 9 ''x'' None demo_legs demo_ledger =
      (Inr 3, snd (PostTransaction 9 ''x'' None demo_legs demo_ledger))"
    using demo_posting by (metis prod.collapse)
  from posting_exact[OF this demo_ledger_wf] show ?thesis
    by (simp add: demo_legs_def total_debit_def total_credit_def leg_delta_def demo_ledger_def
        account_sum_def entries_of_accounts_def empty_db_def)
qed

definition malformed :: "leg \<Rightarrow> bool" where
  "malformed l \<longleftrightarrow> sint (lg_debit l) < 0 \<or> sint (lg_credit l) < 0 \<or>
     (lg_debit l = 0) = (lg_credit l = 0)"

lemma check_legs_append:
  "\<forall>l \<in> set ls. \<not> malformed l \<and> lg_currency l = c \<Longrightarrow>
   check_legs c sd sc (ls @ ls') =
   check_legs c (sd + (\<Sum>l\<leftarrow>ls. lg_debit l)) (sc + (\<Sum>l\<leftarrow>ls. lg_credit l)) ls'"
  by (induction ls arbitrary: sd sc) (auto simp: malformed_def add.assoc)

text \<open>A posting that the validation rejects touches nothing, not even the database: no legs, a
  leg that is negative or not on exactly one side, mixed currencies, or 64-bit totals that
  differ; each has its own error, and the first offending leg decides.\<close>

theorem posting_rejected:
  assumes "legs = [] \<and> e = ErrEmpty \<or>
    (\<exists>before bad rest. legs = before @ bad # rest \<and>
       (\<forall>l \<in> set before. \<not> malformed l \<and> lg_currency l = lg_currency (hd legs)) \<and>
       (malformed bad \<and> e = ErrBadEntry \<or>
        \<not> malformed bad \<and> lg_currency bad \<noteq> lg_currency (hd legs) \<and> e = ErrMixedCurrency)) \<or>
    legs \<noteq> [] \<and> (\<forall>l \<in> set legs. \<not> malformed l \<and> lg_currency l = lg_currency (hd legs)) \<and>
       (\<Sum>l\<leftarrow>legs. lg_debit l) \<noteq> (\<Sum>l\<leftarrow>legs. lg_credit l) \<and> e = ErrUnbalanced"
  shows "PostTransaction merchantID kind refID legs w = (Inl e, w)"
proof (cases "legs = []")
  case True
  with assms show ?thesis by (auto simp: PostTransaction_def fail_def)
next
  case False
  define c where "c = lg_currency (hd legs)"
  have post: "PostTransaction merchantID kind refID legs w =
      (case check_legs c 0 0 legs of
         Inl e \<Rightarrow> fail e
       | Inr (sumDebit, sumCredit) \<Rightarrow>
           if sumDebit \<noteq> sumCredit then fail ErrUnbalanced
           else bnd (run (InsertTransaction merchantID kind refID)) (\<lambda>tx.
                bnd (insert_legs (tx_id tx) legs) (\<lambda>_. ret (tx_id tx)))) w"
    using False unfolding PostTransaction_def c_def
    by (cases legs) (simp_all del: check_legs.simps insert_legs.simps)
  from assms consider
      (bad) before bad rest where "legs = before @ bad # rest"
        "\<forall>l \<in> set before. \<not> malformed l \<and> lg_currency l = c"
        "malformed bad \<and> e = ErrBadEntry \<or>
         \<not> malformed bad \<and> lg_currency bad \<noteq> c \<and> e = ErrMixedCurrency"
    | (unequal) "\<forall>l \<in> set legs. \<not> malformed l \<and> lg_currency l = c"
        "(\<Sum>l\<leftarrow>legs. lg_debit l) \<noteq> (\<Sum>l\<leftarrow>legs. lg_credit l)" "e = ErrUnbalanced"
    using False unfolding c_def by blast
  then show ?thesis
  proof cases
    case bad
    have "check_legs c 0 0 (before @ bad # rest) = Inl e"
      using bad(3) by (subst check_legs_append[OF bad(2)]) (auto simp: malformed_def)
    then show ?thesis by (simp add: post fail_def flip: bad(1))
  next
    case unequal
    have "check_legs c 0 0 (legs @ []) = Inr (\<Sum>l\<leftarrow>legs. lg_debit l, \<Sum>l\<leftarrow>legs. lg_credit l)"
      by (subst check_legs_append[OF unequal(1)]) simp
    then show ?thesis using unequal by (simp add: post fail_def)
  qed
qed

theorem posting_rejected_witness:
  "PostTransaction 9 ''x'' None [debit_leg 1 40 ''USD'', credit_leg 2 30 ''USD''] demo_ledger =
   (Inl ErrUnbalanced, demo_ledger)"
  by (rule posting_rejected) (simp add: malformed_def)

text \<open>C39: The totals of the validation are 64-bit sums, and they can wrap around: there are
  well-formed legs in one currency whose debits exceed their credits by 2^64 and which are posted
  all the same.\<close>

theorem posting_wraps:
  "\<exists>legs w t w'. PostTransaction 9 ''x'' None legs w = (Inr t, w') \<and> ledger_wf (tables w) \<and>
     total_debit legs = total_credit legs + 2 ^ 64"
proof -
  let ?legs = "[debit_leg 1 9223372036854775807 ''USD'', debit_leg 1 9223372036854775807 ''USD'',
    debit_leg 1 7 ''USD'', credit_leg 2 5 ''USD'']"
  have "fst (PostTransaction 9 ''x'' None ?legs demo_ledger) = Inr 3" by code_simp
  then have "PostTransaction 9 ''x'' None ?legs demo_ledger =
      (Inr 3, snd (PostTransaction 9 ''x'' None ?legs demo_ledger))"
    by (metis prod.collapse)
  moreover have "total_debit ?legs = total_credit ?legs + 2 ^ 64"
    by (simp add: total_debit_def total_credit_def)
  ultimately show ?thesis using demo_ledger_wf by blast
qed

text \<open>A balance is reported exactly or refused. Whatever exact decoding of numbers the driver
  uses, the balance of an account is its debits minus its credits when that fits 64 bits, and
  the overflow error when it does not, never a truncated number.\<close>

theorem balance_exact:
  assumes "exact_codec dec" and "faults w (fpos w) = NoFault"
    and "n = debit_minus_credit (filter (\<lambda>e. en_account e = a) (t_entries (tables w)))"
  shows "fst (Balance dec a w) =
    (if - (2 ^ 63) \<le> n \<and> n < 2 ^ 63 then Inr (word_of_int n) else Inl ErrBalanceOverflow)"
proof -
  have "run (GetAccountBalance a) w = (Inr n, w\<lparr>fpos := Suc (fpos w), rpos := Suc (rpos w)\<rparr>)"
    using assms(2,3) by (simp add: run_def GetAccountBalance_def)
  then show ?thesis
    using numericToInt64_exact[OF assms(1), of n]
    by (simp add: Balance_def bnd_def ret_def fail_def)
qed

text \<open>A driver that strips a trailing zero into the exponent, as \<^verbatim>\<open>pgtype\<close> may.\<close>

definition stripped_numeric :: "int \<Rightarrow> numeric" where
  "stripped_numeric n =
     (if n mod 10 = 0 then \<lparr>nu_int = n div 10, nu_exp = 1, nu_nan = False, nu_valid = True\<rparr>
      else plain_numeric n)"

theorem balance_exact_witness:
  "fst (Balance stripped_numeric 1 (snd (PostTransaction 9 ''x'' None demo_legs demo_ledger))) = Inr 40"
proof -
  let ?w = "snd (PostTransaction 9 ''x'' None demo_legs demo_ledger)"
  have codec: "exact_codec stripped_numeric"
    by (auto simp: exact_codec_def stripped_numeric_def plain_numeric_def)
  have "faults ?w (fpos ?w) = NoFault" by code_simp
  moreover have "40 = debit_minus_credit (filter (\<lambda>e. en_account e = 1) (t_entries (tables ?w)))"
    by code_simp
  ultimately show ?thesis using balance_exact[OF codec, of ?w 40 1] by simp
qed

end
