(* ===== verification/Banksim.thy ===== *)
theory Banksim
  imports Prelude
begin

text \<open>
  The acquirer: the client of \<^verbatim>\<open>internal/banksim/client.go\<close> over an arbitrary HTTP exchange,
  and the simulator of \<^verbatim>\<open>bank-sim/cmd/banksim/main.go\<close> behind it. The service sees the bank
  only through the client, for any exchange whatsoever; the composition with the simulator
  shows which outcome each magic token has.
\<close>

section \<open>Client\<close>

definition Approved :: string where "Approved = ''approved''"
definition Declined :: string where "Declined = ''declined''"

lemma outcome_distinct [simp]: "Approved \<noteq> Declined" "Declined \<noteq> Approved"
  by (simp_all add: Approved_def Declined_def)

record authorize_request =
  ar_intent :: uuid
  ar_amount :: int64
  ar_currency :: string
  ar_token :: string

text \<open>The two calls, each with the path and payload the client posts.\<close>

datatype bank_request =
    AuthorizeCall authorize_request
  | CaptureCall uuid int64

text \<open>
  What \<^verbatim>\<open>hc.Do\<close> and the JSON decoder leave of an exchange: a transport error (a passed
  deadline is one), or a status code with the decoded \<^verbatim>\<open>status\<close> field, \<open>None\<close> where the body
  does not decode.
\<close>

datatype http_result = TransportError | HttpResponse int "string option"

type_synonym bank_http = "bank_request \<Rightarrow> http_result"

datatype bank_error =
    BankTransport
  | BankUnexpectedStatus int
  | BankDecode
  | BankUnknownStatus string

definition banksim_call :: "bank_http \<Rightarrow> bank_request \<Rightarrow> bank_error + string" where
  "banksim_call http req =
     (case http req of
        TransportError \<Rightarrow> Inl BankTransport
      | HttpResponse code body \<Rightarrow>
          (if code \<noteq> 200 then Inl (BankUnexpectedStatus code)
           else case body of
             None \<Rightarrow> Inl BankDecode
           | Some status \<Rightarrow>
               if status = Approved then Inr Approved
               else if status = Declined then Inr Declined
               else Inl (BankUnknownStatus status)))"

definition Authorize :: "bank_http \<Rightarrow> authorize_request \<Rightarrow> bank_error + string" where
  "Authorize http req = banksim_call http (AuthorizeCall req)"

definition Capture :: "bank_http \<Rightarrow> uuid \<Rightarrow> int64 \<Rightarrow> bank_error + string" where
  "Capture http intentID amount = banksim_call http (CaptureCall intentID amount)"

lemma banksim_call_outcome: "banksim_call http req = Inr out \<Longrightarrow> out = Approved \<or> out = Declined"
  by (auto simp: banksim_call_def split: http_result.splits option.splits if_splits)

lemma banksim_call_Inr_iff:
  "banksim_call http req = Inr out \<longleftrightarrow>
   out \<in> {Approved, Declined} \<and> http req = HttpResponse 200 (Some out)"
  by (auto simp: banksim_call_def split: http_result.splits option.splits if_splits)

section \<open>Simulator\<close>

definition tokDeclined :: string where "tokDeclined = ''tok_declined''"
definition tokTimeout :: string where "tokTimeout = ''tok_timeout''"

definition timeoutSleep :: time where "timeoutSleep = seconds 5"
definition bankTimeout :: time where "bankTimeout = seconds 2"

text \<open>
  The handlers: how long they sleep, the status code and the \<^verbatim>\<open>status\<close> field they answer (absent
  is the empty string). \<open>None\<close> is a request body that does not decode.
\<close>

definition sim_authorize :: "authorize_request option \<Rightarrow> time \<times> int \<times> string" where
  "sim_authorize body =
     (case body of
        None \<Rightarrow> (0, 400, [])
      | Some req \<Rightarrow>
          if ar_token req = tokDeclined then (0, 200, ''declined'')
          else if ar_token req = tokTimeout then (timeoutSleep, 200, ''approved'')
          else (0, 200, ''approved''))"

definition sim_capture :: "time \<times> int \<times> string" where
  "sim_capture = (0, 200, ''approved'')"

definition sim_health :: "time \<times> int \<times> string" where
  "sim_health = (0, 200, ''ok'')"

definition sim_mux :: "string \<Rightarrow> authorize_request option \<Rightarrow> time \<times> int \<times> string" where
  "sim_mux path body =
     (if path = ''/health'' then sim_health
      else if path = ''/authorize'' then sim_authorize body
      else if path = ''/capture'' then sim_capture
      else (0, 404, []))"

text \<open>What the simulator does with the requests of the client.\<close>

fun sim_handle :: "bank_request \<Rightarrow> time \<times> int \<times> string" where
  "sim_handle (AuthorizeCall req) = sim_mux ''/authorize'' (Some req)"
| "sim_handle (CaptureCall i n) = sim_mux ''/capture'' None"

text \<open>
  The exchange with the simulator over a network that adds \<open>latency\<close>, under the client's
  deadline: past it, \<^verbatim>\<open>hc.Do\<close> fails although the bank has answered.
\<close>

definition sim_http :: "time \<Rightarrow> time \<Rightarrow> bank_http" where
  "sim_http timeout latency req =
     (case sim_handle req of (delay, code, status) \<Rightarrow>
        if timeout \<le> delay + latency then TransportError else HttpResponse code (Some status))"

text \<open>Against the simulator, over a network faster than the client's deadline: a declined token
  is declined, the timeout token is a transport error because the simulator sleeps past the
  deadline, every other token is approved; a capture is always approved.\<close>

lemma simulator_outcomes:
  assumes "0 \<le> latency" and "latency < bankTimeout"
  shows "Authorize (sim_http bankTimeout latency) req =
      (if ar_token req = tokDeclined then Inr Declined
       else if ar_token req = tokTimeout then Inl BankTransport else Inr Approved) \<and>
    Capture (sim_http bankTimeout latency) i n = Inr Approved"
  using assms
  by (auto simp: Authorize_def Capture_def banksim_call_def sim_http_def sim_mux_def sim_authorize_def
      sim_capture_def tokDeclined_def tokTimeout_def bankTimeout_def timeoutSleep_def seconds_def
      Approved_def Declined_def)

end
