(* ===== verification/Intents.thy ===== *)
theory Intents
  imports Ledger Banksim
begin

text \<open>
  The payment-intent service (\<^verbatim>\<open>internal/service/payment_intent.go\<close> and \<^verbatim>\<open>money.go\<close>) with the
  write side of the outbox (\<^verbatim>\<open>internal/outbox/emit.go\<close>). Every money operation is the body of
  one transaction; the two sweeps list due rows and run one transaction per row.
\<close>

section \<open>Creating and reading intents\<close>

definition defaultListLimit :: int32 where "defaultListLimit = 20"
definition maxListLimit :: int32 where "maxListLimit = 100"

record create_input =
  ci_amount :: int64
  ci_currency :: string
  ci_metadata :: bytes
  ci_escrow :: bool
  ci_payee :: "uuid option"
  ci_fee :: "int64 option"

text \<open>
  \<^verbatim>\<open>normalizeCurrency\<close> works on bytes: a lower-case ASCII letter is shifted up by 32, an
  upper-case one is kept, anything else fails.
\<close>

definition upper_byte :: "char \<Rightarrow> char option" where
  "upper_byte b =
     (if CHR ''a'' \<le> b \<and> b \<le> CHR ''z'' then Some (char_of (of_char b - 32 :: nat))
      else if CHR ''A'' \<le> b \<and> b \<le> CHR ''Z'' then Some b
      else None)"

fun upper_bytes :: "string \<Rightarrow> string option" where
  "upper_bytes [] = Some []"
| "upper_bytes (b # bs) =
     (case upper_byte b of None \<Rightarrow> None | Some b' \<Rightarrow> map_option ((#) b') (upper_bytes bs))"

definition normalizeCurrency :: "string \<Rightarrow> string option" where
  "normalizeCurrency cur = (if length cur \<noteq> 3 then None else upper_bytes cur)"

definition Create :: "uuid \<Rightarrow> create_input \<Rightarrow> payment_intent io" where
  "Create merchantID inp =
     (if sint (ci_amount inp) \<le> 0 then fail ErrInvalidAmount
      else case normalizeCurrency (ci_currency inp) of
        None \<Rightarrow> fail ErrInvalidCurrency
      | Some currency \<Rightarrow>
          let metadata = (if ci_metadata inp = [] then ''{}'' else ci_metadata inp) in
          if ci_escrow inp then
            (case ci_payee inp of
               None \<Rightarrow> fail ErrPayeeRequired
             | Some payee \<Rightarrow>
                 if payee = uuid_nil then fail ErrPayeeRequired
                 else case ci_fee inp of
                   None \<Rightarrow> fail ErrInvalidFee
                 | Some fee \<Rightarrow>
                     if sint fee < 0 \<or> sint (ci_amount inp) < sint fee then fail ErrInvalidFee
                     else run (CreateIntent merchantID (ci_amount inp) currency SettlementEscrow
                                 (Some payee) (Some fee) metadata))
          else run (CreateIntent merchantID (ci_amount inp) currency SettlementDirect
                      None None metadata))"

definition not_found :: "error \<Rightarrow> error" where
  "not_found e = (if e = PgNoRows then ErrIntentNotFound else e)"

definition Get :: "uuid \<Rightarrow> uuid \<Rightarrow> payment_intent io" where
  "Get i merchantID = map_err not_found (run (GetIntent i merchantID))"

definition List :: "uuid \<Rightarrow> string \<Rightarrow> int32 \<Rightarrow> int32 \<Rightarrow> payment_intent list io" where
  "List merchantID status limit offset =
     (let limit1 = (if sint limit \<le> 0 then defaultListLimit else limit);
          limit2 = (if sint maxListLimit < sint limit1 then maxListLimit else limit1);
          offset1 = (if sint offset < 0 then 0 else offset);
          statusFilter = (if status \<noteq> [] then Some status else None)
      in run (ListIntents merchantID statusFilter offset1 limit2))"

section \<open>Events\<close>

definition eventTypeFor :: "string \<Rightarrow> string" where
  "eventTypeFor status =
     (if status = StatusAuthorized then ''payment_intent.authorized''
      else if status = StatusFailed then ''payment_intent.failed''
      else if status = StatusCaptured then ''payment_intent.captured''
      else if status = StatusSettled then ''payment_intent.settled''
      else if status = StatusHeldInEscrow then ''payment_intent.held_in_escrow''
      else if status = StatusReleased then ''escrow.released''
      else if status = StatusRefunded then ''payment_intent.refunded''
      else if status = StatusPartiallyRefunded then ''payment_intent.partially_refunded''
      else ''payment_intent.'' @ status)"

definition EmitEvent :: "uuid \<Rightarrow> string \<Rightarrow> json \<Rightarrow> unit io" where
  "EmitEvent merchantID eventType payload =
     bnd uuid_New (\<lambda>eventID.
     bnd (run (InsertOutbox merchantID eventID eventType payload)) (\<lambda>_. ret ()))"

text \<open>\<^verbatim>\<open>json.Marshal\<close> of a map writes the keys in sorted order.\<close>

definition intent_payload :: "payment_intent \<Rightarrow> json" where
  "intent_payload p = JObj
     [(''amount'', JInt (sint (pi_amount p))),
      (''currency'', JStr (pi_currency p)),
      (''id'', JUuid (pi_id p)),
      (''object'', JStr ''payment_intent''),
      (''settlement_mode'', JStr (pi_mode p)),
      (''status'', JStr (pi_status p))]"

definition emit :: "payment_intent \<Rightarrow> unit io" where
  "emit p = EmitEvent (pi_merchant p) (eventTypeFor (pi_status p)) (intent_payload p)"

section \<open>Helpers of the money operations\<close>

definition sweepBatch :: int32 where "sweepBatch = 100"

definition lock :: "uuid \<Rightarrow> uuid \<Rightarrow> payment_intent io" where
  "lock i merchantID = map_err not_found (run (LockIntentForUpdate i merchantID))"

definition get_account :: "uuid \<Rightarrow> string \<Rightarrow> string \<Rightarrow> string \<Rightarrow> uuid io" where
  "get_account merchantID typ kind currency =
     bnd (run (GetOrCreateSingletonAccount merchantID typ kind currency)) (\<lambda>a. ret (ac_id a))"

definition perRefAccount :: "uuid \<Rightarrow> string \<Rightarrow> string \<Rightarrow> string \<Rightarrow> uuid \<Rightarrow> uuid io" where
  "perRefAccount merchantID typ kind currency ref =
     bnd (run (GetOrCreatePerRefAccount merchantID typ kind currency ref)) (\<lambda>a. ret (ac_id a))"

text \<open>The tail every operation shares: advance the status, emit, commit.\<close>

definition advance :: "uuid \<Rightarrow> string \<Rightarrow> payment_intent tx_exit io" where
  "advance i next =
     bnd (run (UpdateIntentStatus i next)) (\<lambda>updated.
     bnd (emit updated) (\<lambda>_.
     ret (Commit updated)))"

section \<open>Confirm\<close>

definition confirm_body ::
    "bank_http \<Rightarrow> uuid \<Rightarrow> uuid \<Rightarrow> string \<Rightarrow> payment_intent tx_exit io" where
  "confirm_body bank i merchantID token =
     bnd (lock i merchantID) (\<lambda>p.
     if pi_status p = StatusCreated \<and>
        \<not> CanTransition (pi_mode p) (pi_status p) StatusRequiresConfirmation
     then fail ErrInvalidState
     else let from = (if pi_status p = StatusCreated then StatusRequiresConfirmation
                      else pi_status p) in
     if from \<noteq> StatusRequiresConfirmation then fail ErrInvalidState
     else case Authorize bank \<lparr>ar_intent = pi_id p, ar_amount = pi_amount p,
                               ar_currency = pi_currency p, ar_token = token\<rparr> of
       Inl _ \<Rightarrow> fail ErrBankUnavailable
     | Inr outcome \<Rightarrow>
         let next = (if outcome = Declined then StatusFailed else StatusAuthorized) in
         if \<not> CanTransition (pi_mode p) StatusRequiresConfirmation next
         then fail ErrInvalidState
         else advance (pi_id p) next)"

definition Confirm :: "bank_http \<Rightarrow> uuid \<Rightarrow> uuid \<Rightarrow> string \<Rightarrow> payment_intent io" where
  "Confirm bank i merchantID token = in_tx (confirm_body bank i merchantID token)"

section \<open>Capture\<close>

definition capture_body :: "bank_http \<Rightarrow> uuid \<Rightarrow> uuid \<Rightarrow> payment_intent tx_exit io" where
  "capture_body bank i merchantID =
     bnd (lock i merchantID) (\<lambda>p.
     if \<not> CanTransition (pi_mode p) (pi_status p) StatusCaptured then fail ErrInvalidState
     else case Banksim.Capture bank (pi_id p) (pi_amount p) of
       Inl _ \<Rightarrow> fail ErrBankUnavailable
     | Inr outcome \<Rightarrow>
     if outcome \<noteq> Approved then fail ErrBankDeclined
     else
       bnd (get_account merchantID TypeAsset KindAcquirerReceivable (pi_currency p)) (\<lambda>recv.
       bnd (if pi_mode p = SettlementEscrow
            then perRefAccount merchantID TypeLiability KindEscrowLiability (pi_currency p) (pi_id p)
            else get_account merchantID TypeLiability KindMerchantPayable (pi_currency p)) (\<lambda>payable.
       bnd (PostTransaction merchantID ''capture'' (Some (pi_id p))
              [debit_leg recv (pi_amount p) (pi_currency p),
               credit_leg payable (pi_amount p) (pi_currency p)]) (\<lambda>_.
       advance (pi_id p) StatusCaptured))))"

definition CaptureIntent :: "bank_http \<Rightarrow> uuid \<Rightarrow> uuid \<Rightarrow> payment_intent io" where
  "CaptureIntent bank i merchantID = in_tx (capture_body bank i merchantID)"

section \<open>Refund\<close>

definition refund_escrow :: "payment_intent \<Rightarrow> uuid \<Rightarrow> int64 \<Rightarrow> payment_intent tx_exit io" where
  "refund_escrow p merchantID amount =
     (if amount \<noteq> pi_amount p then fail ErrPartialEscrowRefund
      else if \<not> CanTransition (pi_mode p) (pi_status p) StatusRefunded then fail ErrInvalidState
      else
        bnd (perRefAccount merchantID TypeLiability KindEscrowLiability (pi_currency p) (pi_id p))
          (\<lambda>escrowLiab.
        bnd (get_account merchantID TypeAsset KindSegregatedCash (pi_currency p)) (\<lambda>segCash.
        bnd (PostTransaction merchantID ''refund'' (Some (pi_id p))
               [debit_leg escrowLiab amount (pi_currency p),
                credit_leg segCash amount (pi_currency p)]) (\<lambda>_.
        advance (pi_id p) StatusRefunded))))"

definition refund_direct :: "payment_intent \<Rightarrow> uuid \<Rightarrow> int64 \<Rightarrow> payment_intent tx_exit io" where
  "refund_direct p merchantID amount =
     (if sint (pi_amount p) < sint amount then fail ErrRefundExceedsCapture
      else if pi_status p = StatusCaptured \<and> sint amount < sint (pi_amount p)
      then fail ErrPartialRefundBeforeSettle
      else let next = (if amount = pi_amount p then StatusRefunded else StatusPartiallyRefunded) in
      if \<not> CanTransition (pi_mode p) (pi_status p) next then fail ErrInvalidState
      else
        bnd (get_account merchantID TypeLiability KindMerchantPayable (pi_currency p)) (\<lambda>payable.
        bnd (get_account merchantID TypeAsset
               (if pi_status p = StatusSettled then KindPlatformCash else KindAcquirerReceivable)
               (pi_currency p)) (\<lambda>credit.
        bnd (PostTransaction merchantID ''refund'' (Some (pi_id p))
               [debit_leg payable amount (pi_currency p),
                credit_leg credit amount (pi_currency p)]) (\<lambda>_.
        advance (pi_id p) next))))"

definition refund_body :: "uuid \<Rightarrow> uuid \<Rightarrow> int64 \<Rightarrow> payment_intent tx_exit io" where
  "refund_body i merchantID amount =
     bnd (lock i merchantID) (\<lambda>p.
     if pi_mode p = SettlementEscrow then refund_escrow p merchantID amount
     else refund_direct p merchantID amount)"

definition Refund :: "uuid \<Rightarrow> uuid \<Rightarrow> int64 \<Rightarrow> payment_intent io" where
  "Refund i merchantID amount =
     (if sint amount \<le> 0 then fail ErrInvalidAmount
      else in_tx (refund_body i merchantID amount))"

section \<open>Release\<close>

text \<open>The conditional legs of a release: each get-or-creates its account first.\<close>

definition payee_legs :: "payment_intent \<Rightarrow> uuid \<Rightarrow> uuid \<Rightarrow> int64 \<Rightarrow> leg list io" where
  "payee_legs p merchantID payee payeeAmount =
     (if 0 < sint payeeAmount
      then bnd (perRefAccount merchantID TypeLiability KindPayableToPayee (pi_currency p) payee)
             (\<lambda>payable. ret [credit_leg payable payeeAmount (pi_currency p)])
      else ret [])"

definition fee_legs :: "payment_intent \<Rightarrow> uuid \<Rightarrow> int64 \<Rightarrow> leg list io" where
  "fee_legs p merchantID fee =
     (if 0 < sint fee
      then bnd (get_account merchantID TypeRevenue KindPlatformRevenue (pi_currency p))
             (\<lambda>rev. ret [credit_leg rev fee (pi_currency p)])
      else ret [])"

definition release_body :: "uuid \<Rightarrow> uuid \<Rightarrow> payment_intent tx_exit io" where
  "release_body i merchantID =
     bnd (lock i merchantID) (\<lambda>p.
     case pi_payee p of
       None \<Rightarrow> fail ErrInvalidState
     | Some payee \<Rightarrow>
     if \<not> CanTransition (pi_mode p) (pi_status p) StatusReleased then fail ErrInvalidState
     else
       let fee = (case pi_fee p of None \<Rightarrow> 0 | Some f \<Rightarrow> f);
           payeeAmount = pi_amount p - fee in
       bnd (perRefAccount merchantID TypeLiability KindEscrowLiability (pi_currency p) (pi_id p))
         (\<lambda>escrowLiab.
       bnd (get_account merchantID TypeAsset KindSegregatedCash (pi_currency p)) (\<lambda>segCash.
       bnd (get_account merchantID TypeAsset KindPlatformCash (pi_currency p)) (\<lambda>platformCash.
       bnd (payee_legs p merchantID payee payeeAmount) (\<lambda>payeeLegs.
       bnd (fee_legs p merchantID fee) (\<lambda>feeLegs.
       bnd (PostTransaction merchantID ''release'' (Some (pi_id p))
              ([debit_leg escrowLiab (pi_amount p) (pi_currency p),
                debit_leg platformCash (pi_amount p) (pi_currency p),
                credit_leg segCash (pi_amount p) (pi_currency p)] @ payeeLegs @ feeLegs)) (\<lambda>_.
       advance (pi_id p) StatusReleased)))))))"

definition Release :: "uuid \<Rightarrow> uuid \<Rightarrow> payment_intent io" where
  "Release i merchantID = in_tx (release_body i merchantID)"

section \<open>The settle and expiry sweeps\<close>

definition settle_body :: "uuid \<Rightarrow> uuid \<Rightarrow> unit tx_exit io" where
  "settle_body i merchantID =
     bnd (lock i merchantID) (\<lambda>p.
     if pi_status p \<noteq> StatusCaptured then ret (Leave ())
     else
       let target = (if pi_mode p = SettlementEscrow then StatusHeldInEscrow else StatusSettled);
           cashKind = (if pi_mode p = SettlementEscrow then KindSegregatedCash
                       else KindPlatformCash) in
       if \<not> CanTransition (pi_mode p) (pi_status p) target then fail ErrInvalidState
       else
         bnd (get_account merchantID TypeAsset cashKind (pi_currency p)) (\<lambda>cash.
         bnd (get_account merchantID TypeAsset KindAcquirerReceivable (pi_currency p)) (\<lambda>recv.
         bnd (PostTransaction merchantID ''settle'' (Some (pi_id p))
                [debit_leg cash (pi_amount p) (pi_currency p),
                 credit_leg recv (pi_amount p) (pi_currency p)]) (\<lambda>_.
         bnd (advance (pi_id p) target) (\<lambda>_. ret (Commit ()))))))"

definition settleOne :: "uuid \<Rightarrow> uuid \<Rightarrow> unit io" where
  "settleOne i merchantID = in_tx (settle_body i merchantID)"

definition expire_body :: "uuid \<Rightarrow> uuid \<Rightarrow> unit tx_exit io" where
  "expire_body i merchantID =
     bnd (lock i merchantID) (\<lambda>p.
     if \<not> CanTransition (pi_mode p) (pi_status p) StatusFailed then ret (Leave ())
     else bnd (advance (pi_id p) StatusFailed) (\<lambda>_. ret (Commit ())))"

definition expireOne :: "uuid \<Rightarrow> uuid \<Rightarrow> unit io" where
  "expireOne i merchantID = in_tx (expire_body i merchantID)"

text \<open>The loop of both sweeps: it stops at the first error with the count so far.\<close>

fun sweep_rows :: "(uuid \<Rightarrow> uuid \<Rightarrow> unit io) \<Rightarrow> payment_intent list \<Rightarrow> nat \<Rightarrow> world \<Rightarrow>
    (nat \<times> error option) \<times> world" where
  "sweep_rows one [] n w = ((n, None), w)"
| "sweep_rows one (p # ps) n w =
     (case one (pi_id p) (pi_merchant p) w of
        (Inl e, w') \<Rightarrow> ((n, Some e), w')
      | (Inr _, w') \<Rightarrow> sweep_rows one ps (Suc n) w')"

definition SettleDueIntents :: "time \<Rightarrow> world \<Rightarrow> (nat \<times> error option) \<times> world" where
  "SettleDueIntents olderThan w =
     (case run (ListCapturedBefore (clock w - olderThan) sweepBatch) w of
        (Inl e, w') \<Rightarrow> ((0, Some e), w')
      | (Inr due, w') \<Rightarrow> sweep_rows settleOne due 0 w')"

definition ExpireStaleIntents :: "time \<Rightarrow> world \<Rightarrow> (nat \<times> error option) \<times> world" where
  "ExpireStaleIntents olderThan w =
     (case run (ListStaleBefore (clock w - olderThan) sweepBatch) w of
        (Inl e, w') \<Rightarrow> ((0, Some e), w')
      | (Inr stale, w') \<Rightarrow> sweep_rows expireOne stale 0 w')"

end
