(* ===== verification/Postings.thy ===== *)
theory Postings
  imports Intents
begin

text \<open>
  What the money operations do to the tables when they commit. Accounts are addressed by the
  key of their unique index; \<open>account_source\<close> is the contract that both get-or-create queries
  provide, and \<open>money_step\<close> is the one shape every committed operation has: a status update,
  at most one balanced posting, one outbox row.
\<close>

section \<open>Account keys\<close>

type_synonym akey = "uuid \<times> string \<times> string \<times> uuid option"

definition ac_key :: "account \<Rightarrow> akey" where
  "ac_key a = (ac_merchant a, ac_kind a, ac_currency a, ac_reference a)"

text \<open>The two partial unique indexes together: no two accounts share a key.\<close>

definition accounts_unique :: "db \<Rightarrow> bool" where
  "accounts_unique d \<longleftrightarrow> distinct (map ac_key (t_accounts d))"

definition good_ledger :: "db \<Rightarrow> bool" where
  "good_ledger d \<longleftrightarrow> ledger_wf d \<and> accounts_unique d"

definition has_account :: "db \<Rightarrow> uuid \<Rightarrow> akey \<Rightarrow> bool" where
  "has_account d i k \<longleftrightarrow> (\<exists>a \<in> set (t_accounts d). ac_id a = i \<and> ac_key a = k)"

text \<open>The sum of all derived balances over the keys in a set.\<close>

definition key_sum :: "(akey \<Rightarrow> bool) \<Rightarrow> db \<Rightarrow> int" where
  "key_sum Q d = account_sum (\<lambda>a. Q (ac_key a)) d"

lemma kind_sum_key_sum: "kind_sum m k c d = key_sum (\<lambda>(m', k', c', r). m' = m \<and> k' = k \<and> c' = c) d"
  by (simp add: kind_sum_def key_sum_def of_kind_def [abs_def] ac_key_def)

lemma key_sum_cong:
  "t_accounts d' = t_accounts d \<Longrightarrow> t_entries d' = t_entries d \<Longrightarrow> key_sum Q d' = key_sum Q d"
  unfolding key_sum_def by (rule account_sum_cong)

lemma good_ledger_cong:
  "t_accounts d' = t_accounts d \<Longrightarrow> t_entries d' = t_entries d \<Longrightarrow>
   t_transactions d' = t_transactions d \<Longrightarrow> good_ledger d' = good_ledger d"
  by (simp add: good_ledger_def ledger_wf_def accounts_unique_def)

section \<open>Opening accounts\<close>

definition opens :: "db \<Rightarrow> db \<Rightarrow> bool" where
  "opens d d' \<longleftrightarrow> (\<exists>xs. d' = d\<lparr>t_accounts := t_accounts d @ xs\<rparr>) \<and>
     (good_ledger d \<longrightarrow> good_ledger d' \<and> (\<forall>P. account_sum P d' = account_sum P d))"

lemma opens_refl: "opens d d"
  by (auto simp: opens_def intro: exI[of _ "[]"])

lemma opens_trans: "opens d1 d2 \<Longrightarrow> opens d2 d3 \<Longrightarrow> opens d1 d3"
  by (auto simp: opens_def)

lemma opens_has_account: "opens d d' \<Longrightarrow> has_account d i k \<Longrightarrow> has_account d' i k"
  by (auto simp: opens_def has_account_def)

lemma opens_frame:
  assumes "opens d d'"
  shows "t_intents d' = t_intents d" "t_transactions d' = t_transactions d"
    "t_entries d' = t_entries d" "t_outbox d' = t_outbox d"
  using assms by (auto simp: opens_def)

text \<open>
  The contract of a get-or-create query: it hands out an account with the wanted key, either
  the one the table holds or a new one, and touches nothing else.
\<close>

locale account_source =
  fixes getc :: "account stmt"
    and want :: akey
  assumes getc_row: "getc u now d = Inr (a, d') \<Longrightarrow>
      ac_key a = want \<and>
      (a \<in> set (t_accounts d) \<and> d' = d \<or>
       ac_id a \<notin> ac_id ` set (t_accounts d) \<and> want \<notin> ac_key ` set (t_accounts d) \<and>
       d' = d\<lparr>t_accounts := t_accounts d @ [a]\<rparr>)"
begin

lemma getc_opens:
  assumes g: "getc u now d = Inr (a, d')"
  shows "opens d d' \<and> has_account d' (ac_id a) want"
proof (cases "a \<in> set (t_accounts d) \<and> d' = d")
  case True
  then show ?thesis using getc_row[OF g] by (auto simp: opens_refl has_account_def)
next
  case False
  then have new: "ac_key a = want" "ac_id a \<notin> ac_id ` set (t_accounts d)"
      "want \<notin> ac_key ` set (t_accounts d)" "d' = d\<lparr>t_accounts := t_accounts d @ [a]\<rparr>"
    using getc_row[OF g] by auto
  then have "good_ledger d \<longrightarrow> good_ledger d'"
    by (auto simp: good_ledger_def ledger_wf_def accounts_unique_def)
  moreover have "good_ledger d \<longrightarrow> (\<forall>P. account_sum P d' = account_sum P d)"
    using new by (simp add: good_ledger_def account_sum_new_account)
  ultimately show ?thesis
    using new by (auto simp: opens_def has_account_def)
qed

lemma run_getc:
  assumes "run getc w = (Inr a, w')"
  shows "opens (tables w) (tables w') \<and> has_account (tables w') (ac_id a) want \<and>
         clock w' = clock w"
  using assms getc_opens by (auto elim!: run_success)

end

interpretation singleton_account:
  account_source "GetOrCreateSingletonAccount m t k c" "(m, k, c, None)" for m t k c
proof unfold_locales
  fix u now d a d'
  assume "GetOrCreateSingletonAccount m t k c u now d = Inr (a, d')"
  then show "ac_key a = (m, k, c, None) \<and>
      (a \<in> set (t_accounts d) \<and> d' = d \<or>
       ac_id a \<notin> ac_id ` set (t_accounts d) \<and> (m, k, c, None) \<notin> ac_key ` set (t_accounts d) \<and>
       d' = d\<lparr>t_accounts := t_accounts d @ [a]\<rparr>)"
    by (auto simp: GetOrCreateSingletonAccount_def ac_key_def Let_def find_None_iff
        split: if_splits option.splits dest: find_SomeD)
qed

interpretation per_ref_account:
  account_source "GetOrCreatePerRefAccount m t k c r" "(m, k, c, Some r)" for m t k c r
proof unfold_locales
  fix u now d a d'
  assume "GetOrCreatePerRefAccount m t k c r u now d = Inr (a, d')"
  then show "ac_key a = (m, k, c, Some r) \<and>
      (a \<in> set (t_accounts d) \<and> d' = d \<or>
       ac_id a \<notin> ac_id ` set (t_accounts d) \<and>
       (m, k, c, Some r) \<notin> ac_key ` set (t_accounts d) \<and>
       d' = d\<lparr>t_accounts := t_accounts d @ [a]\<rparr>)"
    by (auto simp: GetOrCreatePerRefAccount_def ac_key_def Let_def find_None_iff
        split: if_splits option.splits dest: find_SomeD)
qed

lemma get_account_success [success]:
  assumes "get_account m t k c w = (Inr i, w')"
  obtains "opens (tables w) (tables w')" and "has_account (tables w') i (m, k, c, None)"
    and "clock w' = clock w"
  using assms singleton_account.run_getc[of m t k c w]
  by (auto simp: get_account_def elim!: bnd_success ret_success)

lemma perRefAccount_success [success]:
  assumes "perRefAccount m t k c r w = (Inr i, w')"
  obtains "opens (tables w) (tables w')" and "has_account (tables w') i (m, k, c, Some r)"
    and "clock w' = clock w"
  using assms per_ref_account.run_getc[of m t k c r w]
  by (auto simp: perRefAccount_def elim!: bnd_success ret_success)

section \<open>Postings by key\<close>

text \<open>What a list of keyed amounts adds to the sum over a set of keys.\<close>

definition effect :: "(akey \<times> int) list \<Rightarrow> (akey \<Rightarrow> bool) \<Rightarrow> int" where
  "effect moves Q = (\<Sum>(k, n)\<leftarrow>moves. if Q k then n else 0)"

lemma effect_Nil [simp]: "effect [] Q = 0"
  by (simp add: effect_def)

lemma effect_Cons [simp]: "effect ((k, n) # ms) Q = (if Q k then n else 0) + effect ms Q"
  by (simp add: effect_def)

lemma effect_append [simp]: "effect (ms @ ns) Q = effect ms Q + effect ns Q"
  by (simp add: effect_def)

text \<open>Legs paired with the keys of the accounts they post to.\<close>

definition keyed_legs :: "db \<Rightarrow> leg list \<Rightarrow> (akey \<times> int) list \<Rightarrow> bool" where
  "keyed_legs d legs moves \<longleftrightarrow>
     list_all2 (\<lambda>l (k, n). has_account d (lg_account l) k \<and> leg_posted l = n) legs moves"

lemma keyed_legs_simps [simp]:
  "keyed_legs d [] []"
  "keyed_legs d (l # ls) ((k, n) # ms) \<longleftrightarrow>
     has_account d (lg_account l) k \<and> leg_posted l = n \<and> keyed_legs d ls ms"
  by (auto simp: keyed_legs_def)

lemma keyed_legs_append:
  "keyed_legs d ls ms \<Longrightarrow> keyed_legs d ls' ms' \<Longrightarrow> keyed_legs d (ls @ ls') (ms @ ms')"
  unfolding keyed_legs_def by (rule list_all2_appendI)

lemma keyed_legs_opens: "opens d d' \<Longrightarrow> keyed_legs d ls ms \<Longrightarrow> keyed_legs d' ls ms"
  unfolding keyed_legs_def
  by (erule list_all2_mono) (auto intro: opens_has_account)

lemma sum_leg_delta:
  assumes wf: "ledger_wf d" and keyed: "keyed_legs d legs moves"
  shows "(\<Sum>l\<leftarrow>legs. leg_delta (\<lambda>a. Q (ac_key a)) d l) = effect moves Q"
  using keyed
proof (induction legs moves rule: list_induct2')
  case (4 l ls m ms)
  obtain k n where m: "m = (k, n)" by (cases m)
  with 4 obtain a where "a \<in> set (t_accounts d)" "ac_id a = lg_account l" "ac_key a = k"
    and n: "leg_posted l = n" and rest: "keyed_legs d ls ms"
    by (auto simp: has_account_def)
  then have "leg_delta (\<lambda>a. Q (ac_key a)) d l = (if Q k then n else 0)"
    using leg_delta_row[OF wf, of a l "\<lambda>a. Q (ac_key a)"] by simp
  with 4 rest m show ?case by simp
qed (auto simp: keyed_legs_def)

lemma sum_posted_legs:
  assumes "list_all2 (row_matches t) legs es" and "keyed_legs d legs moves"
  shows "(\<Sum>e\<leftarrow>es. posted e) = effect moves (\<lambda>_. True)"
  using assms
proof (induction legs es arbitrary: moves rule: list_all2_induct)
  case Nil
  then show ?case by (cases moves) (auto simp: keyed_legs_def)
next
  case (Cons l ls e es)
  from Cons.prems obtain m ms where moves: "moves = m # ms"
    by (cases moves) (auto simp: keyed_legs_def)
  obtain k n where m: "m = (k, n)" by (cases m)
  with Cons moves show ?case
    by (auto simp: row_matches_def posted_def leg_posted_def)
qed

section \<open>The shape of a committed operation\<close>

definition event_row :: "payment_intent \<Rightarrow> outbox \<Rightarrow> bool" where
  "event_row p r \<longleftrightarrow> ob_merchant r = pi_merchant p \<and> ob_type r = eventTypeFor (pi_status p) \<and>
     ob_payload r = intent_payload p \<and> ob_status r = ''pending'' \<and> ob_attempts r = 0 \<and>
     ob_error r = None"

text \<open>
  \<open>posts p posting txs es\<close>: the ledger rows appended for intent \<open>p\<close>; \<open>posting\<close> is \<open>None\<close>, or
  the kind of the transaction with the keyed amounts it moves.
\<close>

definition posts ::
    "payment_intent \<Rightarrow> time \<Rightarrow> (string \<times> (akey \<times> int) list) option \<Rightarrow> transaction list \<Rightarrow>
     entry list \<Rightarrow> bool" where
  "posts p now posting txs es \<longleftrightarrow>
     (case posting of
        None \<Rightarrow> txs = [] \<and> es = []
      | Some (kind, moves) \<Rightarrow>
          \<exists>t. txs = [\<lparr>tx_id = t, tx_merchant = pi_merchant p, tx_kind = kind,
                      tx_reference = Some (pi_id p), tx_created = now\<rparr>] \<and>
              (\<forall>e \<in> set es. en_transaction e = t) \<and>
              (\<Sum>e\<leftarrow>es. posted e) = effect moves (\<lambda>_. True))"

definition posting_moves :: "(string \<times> (akey \<times> int) list) option \<Rightarrow> (akey \<times> int) list" where
  "posting_moves posting = (case posting of None \<Rightarrow> [] | Some (kind, moves) \<Rightarrow> moves)"

definition money_step ::
    "payment_intent \<Rightarrow> string \<Rightarrow> time \<Rightarrow> (string \<times> (akey \<times> int) list) option \<Rightarrow> db \<Rightarrow> db \<Rightarrow> bool"
  where
  "money_step p s now posting d d' \<longleftrightarrow>
     p \<in> set (t_intents d) \<and> s \<in> set all_statuses \<and> good_ledger d' \<and>
     (\<forall>Q. key_sum Q d' = key_sum Q d + effect (posting_moves posting) Q) \<and>
     (\<exists>accts txs es r.
        posts p now posting txs es \<and> event_row (set_status s now p) r \<and>
        d' = d\<lparr>t_accounts := t_accounts d @ accts,
               t_transactions := t_transactions d @ txs,
               t_entries := t_entries d @ es,
               t_intents := update_where (\<lambda>x. pi_id x = pi_id p) (set_status s now) (t_intents d),
               t_outbox := t_outbox d @ [r]\<rparr>)"

lemma money_stepI:
  assumes "p \<in> set (t_intents d)" and "s \<in> set all_statuses" and "good_ledger d'"
    and "\<And>Q. key_sum Q d' = key_sum Q d + effect (posting_moves posting) Q"
    and "posts p now posting txs es" and "event_row (set_status s now p) r"
    and "d' = d\<lparr>t_accounts := t_accounts d @ accts,
               t_transactions := t_transactions d @ txs,
               t_entries := t_entries d @ es,
               t_intents := update_where (\<lambda>x. pi_id x = pi_id p) (set_status s now) (t_intents d),
               t_outbox := t_outbox d @ [r]\<rparr>"
  shows "money_step p s now posting d d'"
  using assms unfolding money_step_def by blast

definition sound :: "db \<Rightarrow> bool" where
  "sound d \<longleftrightarrow> good_ledger d \<and> distinct (map pi_id (t_intents d))"

lemma lock_success [success]:
  assumes "lock i m w = (Inr p, w')"
  obtains "tables w' = tables w" and "clock w' = clock w" and "p \<in> set (t_intents (tables w))"
    and "pi_id p = i" and "pi_merchant p = m"
proof -
  let ?hits = "filter (\<lambda>p. pi_id p = i \<and> pi_merchant p = m) (t_intents (tables w))"
  from assms obtain u where
      l: "LockIntentForUpdate i m u (clock w) (tables w) = Inr (p, tables w')"
    and c: "clock w' = clock w"
    by (auto simp: lock_def elim!: map_err_success run_success)
  from l obtain xs where "?hits = p # xs" and t: "tables w' = tables w"
    by (auto simp: LockIntentForUpdate_def one_row_def split: list.splits)
  then have "p \<in> set ?hits" by simp
  with t c show thesis using that by simp
qed

lemma advance_success:
  assumes adv: "advance (pi_id p) s w = (Inr x, w')"
    and p: "p \<in> set (t_intents (tables w))" and dist: "distinct (map pi_id (t_intents (tables w)))"
  obtains r where "x = Commit (set_status s (clock w) p)" and "s \<in> set all_statuses"
    and "event_row (set_status s (clock w) p) r"
    and "tables w' = (tables w)\<lparr>t_intents := update_where (\<lambda>x. pi_id x = pi_id p)
           (set_status s (clock w)) (t_intents (tables w)),
           t_outbox := t_outbox (tables w) @ [r]\<rparr>"
    and "clock w' = clock w"
proof -
  have f: "find (\<lambda>x. pi_id x = pi_id p) (t_intents (tables w)) = Some p"
    using find_key_iff[OF dist] p by simp
  from adv obtain p' w1 where
      r1: "run (UpdateIntentStatus (pi_id p) s) w = (Inr p', w1)"
    and e1: "emit p' w1 = (Inr (), w')" and x: "x = Commit p'"
    by (auto simp: advance_def elim!: bnd_success ret_success)
  from r1 obtain u where
      upd: "UpdateIntentStatus (pi_id p) s u (clock w) (tables w) = Inr (p', tables w1)"
    and c1: "clock w1 = clock w"
    by (auto elim!: run_success)
  from e1 obtain ev w2 row where
      n: "uuid_New w1 = (Inr ev, w2)"
    and r3: "run (InsertOutbox (pi_merchant p') ev (eventTypeFor (pi_status p')) (intent_payload p'))
           w2 = (Inr row, w')"
    by (auto simp: emit_def EmitEvent_def elim!: bnd_success ret_success)
  from n have t2: "tables w2 = tables w1" and c2: "clock w2 = clock w1"
    by (auto elim!: uuid_New_success)
  from r3 obtain u' where
      ins: "InsertOutbox (pi_merchant p') ev (eventTypeFor (pi_status p')) (intent_payload p') u'
           (clock w2) (tables w2) = Inr (row, tables w')"
    and c3: "clock w' = clock w2"
    by (auto elim!: run_success)
  from upd f have s: "s \<in> set all_statuses" and p': "p' = set_status s (clock w) p"
    and t1: "tables w1 = (tables w)\<lparr>t_intents := update_where (\<lambda>x. pi_id x = pi_id p)
           (set_status s (clock w)) (t_intents (tables w))\<rparr>"
    by (auto simp: UpdateIntentStatus_def split: if_splits)
  from ins have row: "event_row p' row"
    and t3: "tables w' = (tables w2)\<lparr>t_outbox := t_outbox (tables w2) @ [row]\<rparr>"
    by (auto simp: InsertOutbox_def event_row_def Let_def split: if_splits)
  show thesis
    using s p' row t1 t2 t3 x c1 c2 c3 by (intro that[of row]) simp_all
qed

text \<open>The tail "post, advance" of an operation, from the accounts it has opened.\<close>

lemma post_advance:
  assumes post: "PostTransaction (pi_merchant p) kind (Some (pi_id p)) legs w1 = (Inr t, w2)"
    and adv: "advance (pi_id p) s w2 = (Inr x, w3)"
    and opened: "opens (tables w) (tables w1)" and clk: "clock w1 = clock w"
    and snd: "sound (tables w)" and p: "p \<in> set (t_intents (tables w))"
    and keyed: "keyed_legs (tables w1) legs moves"
  shows "x = Commit (set_status s (clock w) p) \<and>
         money_step p s (clock w) (Some (kind, moves)) (tables w) (tables w3)"
proof -
  have g1: "good_ledger (tables w1)" "\<And>P. account_sum P (tables w1) = account_sum P (tables w)"
    using opened snd by (auto simp: opens_def sound_def)
  then have wf1: "ledger_wf (tables w1)" by (simp add: good_ledger_def)
  from PostTransaction_success[OF post wf1] obtain es where
      t2: "tables w2 = (tables w1)\<lparr>t_transactions := t_transactions (tables w1) @
        [\<lparr>tx_id = t, tx_merchant = pi_merchant p, tx_kind = kind,
          tx_reference = Some (pi_id p), tx_created = clock w1\<rparr>],
        t_entries := t_entries (tables w1) @ es\<rparr>"
    and rows: "list_all2 (row_matches t) legs es" and wf2: "ledger_wf (tables w2)"
    and c2: "clock w2 = clock w1"
    and sums: "\<And>P. account_sum P (tables w2) =
           account_sum P (tables w1) + (\<Sum>l\<leftarrow>legs. leg_delta P (tables w1) l)"
    by metis
  have i2: "t_intents (tables w2) = t_intents (tables w)"
    using opens_frame[OF opened] t2 by simp
  obtain r where
      x: "x = Commit (set_status s (clock w2) p)" and s: "s \<in> set all_statuses"
    and r: "event_row (set_status s (clock w2) p) r"
    and t3: "tables w3 = (tables w2)\<lparr>t_intents := update_where (\<lambda>x. pi_id x = pi_id p)
           (set_status s (clock w2)) (t_intents (tables w2)),
           t_outbox := t_outbox (tables w2) @ [r]\<rparr>"
    using advance_success[OF adv] p snd i2 by (metis sound_def)
  obtain accts where t1: "tables w1 = (tables w)\<lparr>t_accounts := t_accounts (tables w) @ accts\<rparr>"
    using opened by (auto simp: opens_def)
  have g3: "good_ledger (tables w3)"
    using g1(1) wf2 by (simp add: t3 t2 good_ledger_def accounts_unique_def ledger_wf_def)
  have k3: "key_sum Q (tables w3) = key_sum Q (tables w) + effect moves Q" for Q
  proof -
    have "key_sum Q (tables w3) = key_sum Q (tables w2)"
      by (rule key_sum_cong) (simp_all add: t3)
    then show ?thesis
      using sums[of "\<lambda>a. Q (ac_key a)"] g1(2) sum_leg_delta[OF wf1 keyed, of Q]
      by (simp add: key_sum_def)
  qed
  have tr: "\<forall>e \<in> set es. en_transaction e = t"
    using rows by (induction rule: list_all2_induct) (auto simp: row_matches_def)
  have "posts p (clock w) (Some (kind, moves))
      [\<lparr>tx_id = t, tx_merchant = pi_merchant p, tx_kind = kind,
        tx_reference = Some (pi_id p), tx_created = clock w\<rparr>] es"
    using tr sum_posted_legs[OF rows keyed] by (simp add: posts_def)
  moreover have "tables w3 = (tables w)\<lparr>t_accounts := t_accounts (tables w) @ accts,
               t_transactions := t_transactions (tables w) @
                 [\<lparr>tx_id = t, tx_merchant = pi_merchant p, tx_kind = kind,
                   tx_reference = Some (pi_id p), tx_created = clock w\<rparr>],
               t_entries := t_entries (tables w) @ es,
               t_intents := update_where (\<lambda>x. pi_id x = pi_id p) (set_status s (clock w))
                 (t_intents (tables w)),
               t_outbox := t_outbox (tables w) @ [r]\<rparr>"
    by (simp add: t3 t2 t1 clk c2)
  ultimately show ?thesis
    using x s r p g3 k3 clk c2
    by (auto simp: posting_moves_def intro!: money_stepI)
qed

text \<open>The tail without a posting.\<close>

lemma plain_advance:
  assumes adv: "advance (pi_id p) s w = (Inr x, w')"
    and snd: "sound (tables w)" and p: "p \<in> set (t_intents (tables w))"
  shows "x = Commit (set_status s (clock w) p) \<and>
         money_step p s (clock w) None (tables w) (tables w')"
proof -
  obtain r where
      x: "x = Commit (set_status s (clock w) p)" and s: "s \<in> set all_statuses"
    and r: "event_row (set_status s (clock w) p) r"
    and t: "tables w' = (tables w)\<lparr>t_intents := update_where (\<lambda>x. pi_id x = pi_id p)
           (set_status s (clock w)) (t_intents (tables w)),
           t_outbox := t_outbox (tables w) @ [r]\<rparr>"
    using advance_success[OF adv] p snd by (metis sound_def)
  have "posts p (clock w) None [] []" by (simp add: posts_def)
  moreover have "tables w' = (tables w)\<lparr>t_accounts := t_accounts (tables w) @ [],
       t_transactions := t_transactions (tables w) @ [], t_entries := t_entries (tables w) @ [],
       t_intents := update_where (\<lambda>x. pi_id x = pi_id p) (set_status s (clock w))
         (t_intents (tables w)),
       t_outbox := t_outbox (tables w) @ [r]\<rparr>"
    by (simp add: t)
  moreover have "key_sum Q (tables w') = key_sum Q (tables w)" for Q
    by (rule key_sum_cong) (simp_all add: t)
  moreover have "good_ledger (tables w')"
    using snd by (simp add: t sound_def good_ledger_def ledger_wf_def accounts_unique_def)
  ultimately show ?thesis
    using x s r p
    by (auto simp: posting_moves_def intro!: money_stepI [where accts = "[]" and txs = "[]" and es = "[]"])
qed

end
