(* ===== verification/Operations.thy ===== *)
theory Operations
  imports Postings
begin

text \<open>
  One summary per money operation of \<^verbatim>\<open>internal/service/money.go\<close>: when the body of its
  transaction commits, which intent it moved, from which status to which, what the bank had
  answered, and exactly which amounts it posted to which accounts.
\<close>

section \<open>Bodies stay inside their transaction\<close>

lemma keeps_emit [keeps, intro]: "keeps_tx (emit p)"
  unfolding emit_def EmitEvent_def by (intro keeps)

lemma keeps_lock [keeps, intro]: "keeps_tx (lock i m)"
  unfolding lock_def by (intro keeps)

lemma keeps_get_account [keeps, intro]: "keeps_tx (get_account m t k c)"
  unfolding get_account_def by (intro keeps)

lemma keeps_perRefAccount [keeps, intro]: "keeps_tx (perRefAccount m t k c r)"
  unfolding perRefAccount_def by (intro keeps)

lemma keeps_advance [keeps, intro]: "keeps_tx (advance i s)"
  unfolding advance_def by (intro keeps)

lemma keeps_insert_legs [keeps, intro]: "keeps_tx (insert_legs t legs)"
  by (induction legs) (auto intro!: keeps)

lemma keeps_PostTransaction [keeps, intro]: "keeps_tx (PostTransaction m k r legs)"
  unfolding PostTransaction_def
  by (auto split: list.splits sum.splits prod.splits intro!: keeps)

lemma keeps_confirm_body: "keeps_tx (confirm_body bank i m token)"
  unfolding confirm_body_def by (intro keeps)

lemma keeps_capture_body: "keeps_tx (capture_body bank i m)"
  unfolding capture_body_def by (intro keeps)

lemma keeps_refund_body: "keeps_tx (refund_body i m amount)"
  unfolding refund_body_def refund_escrow_def refund_direct_def by (intro keeps)

lemma keeps_release_body: "keeps_tx (release_body i m)"
  unfolding release_body_def payee_legs_def fee_legs_def by (intro keeps)

lemma keeps_settle_body: "keeps_tx (settle_body i m)"
  unfolding settle_body_def by (intro keeps)

lemma keeps_expire_body: "keeps_tx (expire_body i m)"
  unfolding expire_body_def by (intro keeps)

lemmas keeps_bodies = keeps_confirm_body keeps_capture_body keeps_refund_body keeps_release_body
  keeps_settle_body keeps_expire_body

section \<open>Confirm\<close>

lemma confirm_step:
  assumes body: "confirm_body bank i m token w = (Inr (Commit p'), w')"
    and snd: "sound (tables w)"
  obtains p s where "p \<in> set (t_intents (tables w))" and "pi_id p = i" and "pi_merchant p = m"
    and "pi_status p = StatusCreated \<or> pi_status p = StatusRequiresConfirmation"
    and "p' = set_status s (clock w) p"
    and "Authorize bank \<lparr>ar_intent = i, ar_amount = pi_amount p,
            ar_currency = pi_currency p, ar_token = token\<rparr> = Inr Approved \<and> s = StatusAuthorized \<or>
         Authorize bank \<lparr>ar_intent = i, ar_amount = pi_amount p,
            ar_currency = pi_currency p, ar_token = token\<rparr> = Inr Declined \<and> s = StatusFailed"
    and "CanTransition (pi_mode p) StatusRequiresConfirmation s"
    and "money_step p s (clock w) None (tables w) (tables w')"
proof -
  from body obtain p w1 where l: "lock i m w = (Inr p, w1)"
    and rest: "(if pi_status p = StatusCreated \<and>
        \<not> CanTransition (pi_mode p) (pi_status p) StatusRequiresConfirmation
     then fail ErrInvalidState
     else let from = (if pi_status p = StatusCreated then StatusRequiresConfirmation
                      else pi_status p) in
     if from \<noteq> StatusRequiresConfirmation then fail ErrInvalidState
     else case Authorize bank \<lparr>ar_intent = pi_id p, ar_amount = pi_amount p,
                               ar_currency = pi_currency p, ar_token = token\<rparr> of
       Inl _ \<Rightarrow> fail ErrBankUnavailable
     | Inr outcome \<Rightarrow>
         let next = (if outcome = Declined then StatusFailed else StatusAuthorized) in
         if \<not> CanTransition (pi_mode p) StatusRequiresConfirmation next
         then fail ErrInvalidState
         else advance (pi_id p) next) w1 = (Inr (Commit p'), w')"
    unfolding confirm_body_def by (rule bnd_success)
  from l have t1: "tables w1 = tables w" "clock w1 = clock w"
    and p: "p \<in> set (t_intents (tables w))" "pi_id p = i" "pi_merchant p = m"
    by (auto elim!: lock_success)
  from rest have st: "pi_status p = StatusCreated \<or> pi_status p = StatusRequiresConfirmation"
    by (auto simp: Let_def split: if_splits elim!: fail_success)
  from rest obtain outcome where
      a: "Authorize bank \<lparr>ar_intent = pi_id p, ar_amount = pi_amount p,
                               ar_currency = pi_currency p, ar_token = token\<rparr> = Inr outcome"
    by (auto simp: Let_def split: if_splits sum.splits elim!: fail_success)
  define s where "s = (if outcome = Declined then StatusFailed else StatusAuthorized)"
  from rest a have tr: "CanTransition (pi_mode p) StatusRequiresConfirmation s"
    and adv: "advance (pi_id p) s w1 = (Inr (Commit p'), w')"
    by (auto simp: Let_def s_def split: if_splits elim!: fail_success)
  have "outcome = Approved \<or> outcome = Declined"
    using a banksim_call_outcome by (auto simp: Authorize_def)
  with plain_advance[OF adv] snd p t1 st a tr show thesis
    by (intro that[of p s]) (auto simp: s_def)
qed

section \<open>Capture\<close>

text \<open>Where the credit of a capture goes, and what a sweep turns the receivable into.\<close>

definition payable_key :: "payment_intent \<Rightarrow> akey" where
  "payable_key p =
     (if pi_mode p = SettlementEscrow
      then (pi_merchant p, KindEscrowLiability, pi_currency p, Some (pi_id p))
      else (pi_merchant p, KindMerchantPayable, pi_currency p, None))"

definition receivable_key :: "payment_intent \<Rightarrow> akey" where
  "receivable_key p = (pi_merchant p, KindAcquirerReceivable, pi_currency p, None)"

definition cash_key :: "payment_intent \<Rightarrow> akey" where
  "cash_key p =
     (if pi_mode p = SettlementEscrow
      then (pi_merchant p, KindSegregatedCash, pi_currency p, None)
      else (pi_merchant p, KindPlatformCash, pi_currency p, None))"

definition capture_moves :: "payment_intent \<Rightarrow> (akey \<times> int) list" where
  "capture_moves p = [(receivable_key p, sint (pi_amount p)), (payable_key p, - sint (pi_amount p))]"

lemma capture_step:
  assumes body: "capture_body bank i m w = (Inr (Commit p'), w')"
    and snd: "sound (tables w)"
  obtains p where "p \<in> set (t_intents (tables w))" and "pi_id p = i" and "pi_merchant p = m"
    and "CanTransition (pi_mode p) (pi_status p) StatusCaptured"
    and "Banksim.Capture bank i (pi_amount p) = Inr Approved"
    and "p' = set_status StatusCaptured (clock w) p"
    and "money_step p StatusCaptured (clock w) (Some (''capture'', capture_moves p))
           (tables w) (tables w')"
proof -
  from body obtain p w1 where l: "lock i m w = (Inr p, w1)"
    and tr: "CanTransition (pi_mode p) (pi_status p) StatusCaptured"
    and bank: "Banksim.Capture bank (pi_id p) (pi_amount p) = Inr Approved"
    and rest: "bnd (get_account m TypeAsset KindAcquirerReceivable (pi_currency p)) (\<lambda>recv.
       bnd (if pi_mode p = SettlementEscrow
            then perRefAccount m TypeLiability KindEscrowLiability (pi_currency p) (pi_id p)
            else get_account m TypeLiability KindMerchantPayable (pi_currency p)) (\<lambda>payable.
       bnd (PostTransaction m ''capture'' (Some (pi_id p))
              [debit_leg recv (pi_amount p) (pi_currency p),
               credit_leg payable (pi_amount p) (pi_currency p)]) (\<lambda>_.
       advance (pi_id p) StatusCaptured))) w1 = (Inr (Commit p'), w')"
    unfolding capture_body_def
    by (auto split: if_splits sum.splits elim!: bnd_success [where m = "lock i m"] fail_success)
  from l have t1: "tables w1 = tables w" "clock w1 = clock w"
    and p: "p \<in> set (t_intents (tables w))" "pi_id p = i" "pi_merchant p = m"
    by (auto elim!: lock_success)
  from rest obtain recv w2 payable w3 t w4 where
      recv: "get_account m TypeAsset KindAcquirerReceivable (pi_currency p) w1 = (Inr recv, w2)"
    and pay: "(if pi_mode p = SettlementEscrow
            then perRefAccount m TypeLiability KindEscrowLiability (pi_currency p) (pi_id p)
            else get_account m TypeLiability KindMerchantPayable (pi_currency p)) w2 =
            (Inr payable, w3)"
    and post: "PostTransaction m ''capture'' (Some (pi_id p))
              [debit_leg recv (pi_amount p) (pi_currency p),
               credit_leg payable (pi_amount p) (pi_currency p)] w3 = (Inr t, w4)"
    and adv: "advance (pi_id p) StatusCaptured w4 = (Inr (Commit p'), w')"
    by (elim bnd_success) blast
  from recv have o2: "opens (tables w1) (tables w2)" "clock w2 = clock w1"
      "has_account (tables w2) recv (receivable_key p)"
    using p by (auto simp: receivable_key_def elim!: get_account_success)
  from pay have o3: "opens (tables w2) (tables w3)" "clock w3 = clock w2"
      "has_account (tables w3) payable (payable_key p)"
    using p by (auto simp: payable_key_def split: if_splits
        elim!: get_account_success perRefAccount_success)
  have keyed: "keyed_legs (tables w3) [debit_leg recv (pi_amount p) (pi_currency p),
               credit_leg payable (pi_amount p) (pi_currency p)] (capture_moves p)"
    using o2 o3 by (auto simp: capture_moves_def intro: opens_has_account)
  have "p' = set_status StatusCaptured (clock w) p \<and>
        money_step p StatusCaptured (clock w) (Some (''capture'', capture_moves p))
          (tables w) (tables w')"
    using post_advance[OF post[folded p(3)] adv _ _ snd p(1) keyed] o2 o3 t1
    by (auto intro: opens_trans)
  with p tr bank show thesis by (intro that[of p]) auto
qed

section \<open>Settle and expire\<close>

definition settle_target :: "payment_intent \<Rightarrow> string" where
  "settle_target p =
     (if pi_mode p = SettlementEscrow then StatusHeldInEscrow else StatusSettled)"

definition settle_moves :: "payment_intent \<Rightarrow> (akey \<times> int) list" where
  "settle_moves p = [(cash_key p, sint (pi_amount p)), (receivable_key p, - sint (pi_amount p))]"

lemma settle_step:
  assumes body: "settle_body i m w = (Inr (Commit x), w')"
    and snd: "sound (tables w)"
  obtains p where "p \<in> set (t_intents (tables w))" and "pi_id p = i" and "pi_merchant p = m"
    and "pi_status p = StatusCaptured"
    and "CanTransition (pi_mode p) (pi_status p) (settle_target p)"
    and "money_step p (settle_target p) (clock w) (Some (''settle'', settle_moves p))
           (tables w) (tables w')"
proof -
  define kind where "kind p = (if pi_mode p = SettlementEscrow then KindSegregatedCash
                       else KindPlatformCash)" for p :: payment_intent
  from body obtain p w1 where l: "lock i m w = (Inr p, w1)"
    and st: "pi_status p = StatusCaptured"
    and tr: "CanTransition (pi_mode p) (pi_status p) (settle_target p)"
    and rest: "bnd (get_account m TypeAsset (kind p) (pi_currency p)) (\<lambda>cash.
         bnd (get_account m TypeAsset KindAcquirerReceivable (pi_currency p)) (\<lambda>recv.
         bnd (PostTransaction m ''settle'' (Some (pi_id p))
                [debit_leg cash (pi_amount p) (pi_currency p),
                 credit_leg recv (pi_amount p) (pi_currency p)]) (\<lambda>_.
         bnd (advance (pi_id p) (settle_target p)) (\<lambda>_. ret (Commit ()))))) w1 =
         (Inr (Commit x), w')"
    unfolding settle_body_def settle_target_def kind_def Let_def
    by (elim bnd_success [where m = "lock i m"])
       (auto simp: ret_def simp del: status_distinct split: if_splits elim!: fail_success)
  from l have t1: "tables w1 = tables w" "clock w1 = clock w"
    and p: "p \<in> set (t_intents (tables w))" "pi_id p = i" "pi_merchant p = m"
    by (auto elim!: lock_success)
  from rest obtain cash w2 recv w3 t w4 y w5 where
      cash: "get_account m TypeAsset (kind p) (pi_currency p) w1 = (Inr cash, w2)"
    and recv: "get_account m TypeAsset KindAcquirerReceivable (pi_currency p) w2 = (Inr recv, w3)"
    and post: "PostTransaction m ''settle'' (Some (pi_id p))
              [debit_leg cash (pi_amount p) (pi_currency p),
               credit_leg recv (pi_amount p) (pi_currency p)] w3 = (Inr t, w4)"
    and adv: "advance (pi_id p) (settle_target p) w4 = (Inr y, w')"
    by (auto elim!: bnd_success ret_success)
  from cash have o2: "opens (tables w1) (tables w2)" "clock w2 = clock w1"
      "has_account (tables w2) cash (cash_key p)"
    using p by (auto simp: cash_key_def kind_def split: if_splits elim!: get_account_success)
  from recv have o3: "opens (tables w2) (tables w3)" "clock w3 = clock w2"
      "has_account (tables w3) recv (receivable_key p)"
    using p by (auto simp: receivable_key_def elim!: get_account_success)
  have keyed: "keyed_legs (tables w3) [debit_leg cash (pi_amount p) (pi_currency p),
               credit_leg recv (pi_amount p) (pi_currency p)] (settle_moves p)"
    using o2 o3 by (auto simp: settle_moves_def intro: opens_has_account)
  have "money_step p (settle_target p) (clock w) (Some (''settle'', settle_moves p))
          (tables w) (tables w')"
    using post_advance[OF post[folded p(3)] adv _ _ snd p(1) keyed] o2 o3 t1
    by (auto intro: opens_trans)
  with p st tr show thesis by (intro that[of p]) auto
qed

lemma expire_step:
  assumes body: "expire_body i m w = (Inr (Commit x), w')"
    and snd: "sound (tables w)"
  obtains p where "p \<in> set (t_intents (tables w))" and "pi_id p = i" and "pi_merchant p = m"
    and "CanTransition (pi_mode p) (pi_status p) StatusFailed"
    and "money_step p StatusFailed (clock w) None (tables w) (tables w')"
proof -
  from body obtain p w1 y where l: "lock i m w = (Inr p, w1)"
    and tr: "CanTransition (pi_mode p) (pi_status p) StatusFailed"
    and adv: "advance (pi_id p) StatusFailed w1 = (Inr y, w')"
    unfolding expire_body_def
    by (auto simp: ret_def split: if_splits elim!: bnd_success)
  from l have t1: "tables w1 = tables w" "clock w1 = clock w"
    and p: "p \<in> set (t_intents (tables w))" "pi_id p = i" "pi_merchant p = m"
    by (auto elim!: lock_success)
  from plain_advance[OF adv] snd p t1 tr show thesis
    by (intro that[of p]) auto
qed

section \<open>Refund\<close>

definition refund_moves :: "payment_intent \<Rightarrow> int64 \<Rightarrow> (akey \<times> int) list" where
  "refund_moves p amount =
     [(payable_key p, sint amount),
      (if pi_mode p \<noteq> SettlementEscrow \<and> pi_status p \<noteq> StatusSettled then receivable_key p
       else cash_key p, - sint amount)]"

definition refund_target :: "payment_intent \<Rightarrow> int64 \<Rightarrow> string" where
  "refund_target p amount =
     (if amount = pi_amount p then StatusRefunded else StatusPartiallyRefunded)"

lemma refund_escrow_step:
  assumes run: "refund_escrow p (pi_merchant p) amount w1 = (Inr x, w')"
    and t1: "tables w1 = tables w" "clock w1 = clock w"
    and esc: "pi_mode p = SettlementEscrow"
    and p: "p \<in> set (t_intents (tables w))" and snd: "sound (tables w)"
  shows "amount = pi_amount p \<and> 0 < sint amount \<and>
         CanTransition (pi_mode p) (pi_status p) StatusRefunded \<and>
         x = Commit (set_status StatusRefunded (clock w) p) \<and>
         money_step p StatusRefunded (clock w) (Some (''refund'', refund_moves p amount))
           (tables w) (tables w')"
proof -
  from run have am: "amount = pi_amount p"
    and tr: "CanTransition (pi_mode p) (pi_status p) StatusRefunded"
    and rest: "bnd (perRefAccount (pi_merchant p) TypeLiability KindEscrowLiability
            (pi_currency p) (pi_id p)) (\<lambda>escrowLiab.
        bnd (get_account (pi_merchant p) TypeAsset KindSegregatedCash (pi_currency p)) (\<lambda>segCash.
        bnd (PostTransaction (pi_merchant p) ''refund'' (Some (pi_id p))
               [debit_leg escrowLiab amount (pi_currency p),
                credit_leg segCash amount (pi_currency p)]) (\<lambda>_.
        advance (pi_id p) StatusRefunded))) w1 = (Inr x, w')"
    by (auto simp: refund_escrow_def split: if_splits elim!: fail_success)
  from rest obtain liab w2 seg w3 t w4 where
      liab: "perRefAccount (pi_merchant p) TypeLiability KindEscrowLiability
            (pi_currency p) (pi_id p) w1 = (Inr liab, w2)"
    and seg: "get_account (pi_merchant p) TypeAsset KindSegregatedCash (pi_currency p) w2 =
            (Inr seg, w3)"
    and post: "PostTransaction (pi_merchant p) ''refund'' (Some (pi_id p))
               [debit_leg liab amount (pi_currency p),
                credit_leg seg amount (pi_currency p)] w3 = (Inr t, w4)"
    and adv: "advance (pi_id p) StatusRefunded w4 = (Inr x, w')"
    by (elim bnd_success) blast
  from liab have o2: "opens (tables w1) (tables w2)" "clock w2 = clock w1"
      "has_account (tables w2) liab (payable_key p)"
    using esc by (auto simp: payable_key_def elim!: perRefAccount_success)
  from seg have o3: "opens (tables w2) (tables w3)" "clock w3 = clock w2"
      "has_account (tables w3) seg (cash_key p)"
    using esc by (auto simp: cash_key_def elim!: get_account_success)
  have keyed: "keyed_legs (tables w3) [debit_leg liab amount (pi_currency p),
                credit_leg seg amount (pi_currency p)] (refund_moves p amount)"
    using o2 o3 esc by (auto simp: refund_moves_def intro: opens_has_account)
  show ?thesis
    using post_advance[OF post adv _ _ snd p keyed] PostTransaction_debit_positive[OF post]
      o2 o3 t1 am tr
    by (auto intro: opens_trans)
qed

lemma refund_direct_step:
  assumes run: "refund_direct p (pi_merchant p) amount w1 = (Inr x, w')"
    and t1: "tables w1 = tables w" "clock w1 = clock w"
    and dir: "pi_mode p \<noteq> SettlementEscrow"
    and p: "p \<in> set (t_intents (tables w))" and snd: "sound (tables w)"
  shows "sint amount \<le> sint (pi_amount p) \<and> 0 < sint amount \<and>
         (pi_status p = StatusCaptured \<longrightarrow> amount = pi_amount p) \<and>
         CanTransition (pi_mode p) (pi_status p) (refund_target p amount) \<and>
         x = Commit (set_status (refund_target p amount) (clock w) p) \<and>
         money_step p (refund_target p amount) (clock w)
           (Some (''refund'', refund_moves p amount)) (tables w) (tables w')"
proof -
  define kind where "kind = (if pi_status p = StatusSettled then KindPlatformCash
                             else KindAcquirerReceivable)"
  from run have le: "sint amount \<le> sint (pi_amount p)"
    and full: "\<not> (pi_status p = StatusCaptured \<and> sint amount < sint (pi_amount p))"
    and tr: "CanTransition (pi_mode p) (pi_status p) (refund_target p amount)"
    and rest: "bnd (get_account (pi_merchant p) TypeLiability KindMerchantPayable
            (pi_currency p)) (\<lambda>payable.
        bnd (get_account (pi_merchant p) TypeAsset kind (pi_currency p)) (\<lambda>credit.
        bnd (PostTransaction (pi_merchant p) ''refund'' (Some (pi_id p))
               [debit_leg payable amount (pi_currency p),
                credit_leg credit amount (pi_currency p)]) (\<lambda>_.
        advance (pi_id p) (refund_target p amount)))) w1 = (Inr x, w')"
    unfolding refund_direct_def refund_target_def kind_def Let_def
    by (simp_all add: fail_def del: status_distinct split: if_split_asm)
  from rest obtain pay w2 cr w3 t w4 where
      pay: "get_account (pi_merchant p) TypeLiability KindMerchantPayable (pi_currency p) w1 =
            (Inr pay, w2)"
    and cr: "get_account (pi_merchant p) TypeAsset kind (pi_currency p) w2 = (Inr cr, w3)"
    and post: "PostTransaction (pi_merchant p) ''refund'' (Some (pi_id p))
               [debit_leg pay amount (pi_currency p),
                credit_leg cr amount (pi_currency p)] w3 = (Inr t, w4)"
    and adv: "advance (pi_id p) (refund_target p amount) w4 = (Inr x, w')"
    by (elim bnd_success) blast
  from pay have o2: "opens (tables w1) (tables w2)" "clock w2 = clock w1"
      "has_account (tables w2) pay (payable_key p)"
    using dir by (auto simp: payable_key_def elim!: get_account_success)
  from cr have o3: "opens (tables w2) (tables w3)" "clock w3 = clock w2"
      "has_account (tables w3) cr (if pi_status p \<noteq> StatusSettled then receivable_key p
         else cash_key p)"
    using dir by (auto simp: cash_key_def receivable_key_def kind_def split: if_splits
        elim!: get_account_success)
  have keyed: "keyed_legs (tables w3) [debit_leg pay amount (pi_currency p),
                credit_leg cr amount (pi_currency p)] (refund_moves p amount)"
    using o2 o3 dir by (auto simp: refund_moves_def intro: opens_has_account)
  have eq: "amount = pi_amount p" if "pi_status p = StatusCaptured"
    using full le that sint_inj[of amount "pi_amount p"] by auto
  show ?thesis
    using post_advance[OF post adv _ _ snd p keyed] PostTransaction_debit_positive[OF post]
      o2 o3 t1 le tr eq
    by (auto intro: opens_trans)
qed

lemma refund_step:
  assumes body: "refund_body i m amount w = (Inr (Commit p'), w')"
    and snd: "sound (tables w)"
  obtains p where "p \<in> set (t_intents (tables w))" and "pi_id p = i" and "pi_merchant p = m"
    and "sint amount \<le> sint (pi_amount p)" and "0 < sint amount"
    and "pi_mode p = SettlementEscrow \<or> pi_status p = StatusCaptured \<Longrightarrow> amount = pi_amount p"
    and "CanTransition (pi_mode p) (pi_status p) (refund_target p amount)"
    and "p' = set_status (refund_target p amount) (clock w) p"
    and "money_step p (refund_target p amount) (clock w)
           (Some (''refund'', refund_moves p amount)) (tables w) (tables w')"
proof -
  from body obtain p w1 where l: "lock i m w = (Inr p, w1)"
    and rest: "(if pi_mode p = SettlementEscrow then refund_escrow p m amount
                else refund_direct p m amount) w1 = (Inr (Commit p'), w')"
    unfolding refund_body_def by (rule bnd_success)
  from l have t1: "tables w1 = tables w" "clock w1 = clock w"
    and p: "p \<in> set (t_intents (tables w))" "pi_id p = i" "pi_merchant p = m"
    by (auto elim!: lock_success)
  show thesis
  proof (cases "pi_mode p = SettlementEscrow")
    case True
    with refund_escrow_step[of p amount w1 "Commit p'" w' w] rest t1 p snd show thesis
      by (intro that[of p]) (auto simp: refund_target_def)
  next
    case False
    with refund_direct_step[of p amount w1 "Commit p'" w' w] rest t1 p snd show thesis
      by (intro that[of p]) auto
  qed
qed

section \<open>Release\<close>

definition fee_of :: "payment_intent \<Rightarrow> int64" where
  "fee_of p = (case pi_fee p of None \<Rightarrow> 0 | Some f \<Rightarrow> f)"

definition payee_key :: "payment_intent \<Rightarrow> akey" where
  "payee_key p = (pi_merchant p, KindPayableToPayee, pi_currency p, pi_payee p)"

definition revenue_key :: "payment_intent \<Rightarrow> akey" where
  "revenue_key p = (pi_merchant p, KindPlatformRevenue, pi_currency p, None)"

definition platform_cash_key :: "payment_intent \<Rightarrow> akey" where
  "platform_cash_key p = (pi_merchant p, KindPlatformCash, pi_currency p, None)"

text \<open>A leg of zero is left out, as the ledger would reject it.\<close>

definition positive_move :: "akey \<Rightarrow> int64 \<Rightarrow> (akey \<times> int) list" where
  "positive_move k n = (if 0 < sint n then [(k, - sint n)] else [])"

definition release_moves :: "payment_intent \<Rightarrow> (akey \<times> int) list" where
  "release_moves p =
     [(payable_key p, sint (pi_amount p)),
      (platform_cash_key p, sint (pi_amount p)),
      (cash_key p, - sint (pi_amount p))] @
     positive_move (payee_key p) (pi_amount p - fee_of p) @
     positive_move (revenue_key p) (fee_of p)"

lemma payee_legs_success:
  assumes "payee_legs p (pi_merchant p) payee n w = (Inr legs, w')" and "pi_payee p = Some payee"
  shows "opens (tables w) (tables w') \<and> clock w' = clock w \<and>
         keyed_legs (tables w') legs (positive_move (payee_key p) n)"
  using assms
  by (auto simp: payee_legs_def positive_move_def payee_key_def opens_refl split: if_splits
      elim!: bnd_success ret_success perRefAccount_success)

lemma fee_legs_success:
  assumes "fee_legs p (pi_merchant p) n w = (Inr legs, w')"
  shows "opens (tables w) (tables w') \<and> clock w' = clock w \<and>
         keyed_legs (tables w') legs (positive_move (revenue_key p) n)"
  using assms
  by (auto simp: fee_legs_def positive_move_def revenue_key_def opens_refl split: if_splits
      elim!: bnd_success ret_success get_account_success)

lemma release_step:
  assumes body: "release_body i m w = (Inr (Commit p'), w')"
    and snd: "sound (tables w)"
  obtains p payee where "p \<in> set (t_intents (tables w))" and "pi_id p = i" and "pi_merchant p = m"
    and "pi_payee p = Some payee"
    and "CanTransition (pi_mode p) (pi_status p) StatusReleased"
    and "p' = set_status StatusReleased (clock w) p"
    and "money_step p StatusReleased (clock w) (Some (''release'', release_moves p))
           (tables w) (tables w')"
proof -
  from body obtain p w1 payee where l: "lock i m w = (Inr p, w1)"
    and pay: "pi_payee p = Some payee"
    and tr: "CanTransition (pi_mode p) (pi_status p) StatusReleased"
    and rest: "bnd (perRefAccount m TypeLiability KindEscrowLiability (pi_currency p) (pi_id p))
         (\<lambda>escrowLiab.
       bnd (get_account m TypeAsset KindSegregatedCash (pi_currency p)) (\<lambda>segCash.
       bnd (get_account m TypeAsset KindPlatformCash (pi_currency p)) (\<lambda>platformCash.
       bnd (payee_legs p m payee (pi_amount p - fee_of p)) (\<lambda>payeeLegs.
       bnd (fee_legs p m (fee_of p)) (\<lambda>feeLegs.
       bnd (PostTransaction m ''release'' (Some (pi_id p))
              ([debit_leg escrowLiab (pi_amount p) (pi_currency p),
                debit_leg platformCash (pi_amount p) (pi_currency p),
                credit_leg segCash (pi_amount p) (pi_currency p)] @ payeeLegs @ feeLegs)) (\<lambda>_.
       advance (pi_id p) StatusReleased)))))) w1 = (Inr (Commit p'), w')"
    unfolding release_body_def Let_def fee_of_def
    by (elim bnd_success [where m = "lock i m"])
       (simp add: fail_def split: option.split_asm if_split_asm)
  from l have t1: "tables w1 = tables w" "clock w1 = clock w"
    and p: "p \<in> set (t_intents (tables w))" "pi_id p = i" "pi_merchant p = m"
    by (auto elim!: lock_success)
  from tr have esc: "pi_mode p = SettlementEscrow" by (simp add: can_transition_to)
  from rest obtain liab w2 seg w3 cash w4 pl w5 fl w6 t w7 where
      liab: "perRefAccount m TypeLiability KindEscrowLiability (pi_currency p) (pi_id p) w1 =
              (Inr liab, w2)"
    and seg: "get_account m TypeAsset KindSegregatedCash (pi_currency p) w2 = (Inr seg, w3)"
    and cash: "get_account m TypeAsset KindPlatformCash (pi_currency p) w3 = (Inr cash, w4)"
    and pl: "payee_legs p m payee (pi_amount p - fee_of p) w4 = (Inr pl, w5)"
    and fl: "fee_legs p m (fee_of p) w5 = (Inr fl, w6)"
    and post: "PostTransaction m ''release'' (Some (pi_id p))
              ([debit_leg liab (pi_amount p) (pi_currency p),
                debit_leg cash (pi_amount p) (pi_currency p),
                credit_leg seg (pi_amount p) (pi_currency p)] @ pl @ fl) w6 = (Inr t, w7)"
    and adv: "advance (pi_id p) StatusReleased w7 = (Inr (Commit p'), w')"
    by (elim bnd_success) blast
  from liab have o2: "opens (tables w1) (tables w2)" "clock w2 = clock w1"
      "has_account (tables w2) liab (payable_key p)"
    using esc p by (auto simp: payable_key_def elim!: perRefAccount_success)
  from seg have o3: "opens (tables w2) (tables w3)" "clock w3 = clock w2"
      "has_account (tables w3) seg (cash_key p)"
    using esc p by (auto simp: cash_key_def elim!: get_account_success)
  from cash have o4: "opens (tables w3) (tables w4)" "clock w4 = clock w3"
      "has_account (tables w4) cash (platform_cash_key p)"
    using p by (auto simp: platform_cash_key_def elim!: get_account_success)
  have o5: "opens (tables w4) (tables w5)" "clock w5 = clock w4"
      "keyed_legs (tables w5) pl (positive_move (payee_key p) (pi_amount p - fee_of p))"
    using payee_legs_success[of p payee _ w4 pl w5] pl pay p by auto
  have o6: "opens (tables w5) (tables w6)" "clock w6 = clock w5"
      "keyed_legs (tables w6) fl (positive_move (revenue_key p) (fee_of p))"
    using fee_legs_success[of p _ w5 fl w6] fl p by auto
  have o46: "opens (tables w4) (tables w6)" using o5 o6 by (blast intro: opens_trans)
  have o36: "opens (tables w3) (tables w6)" using o4 o46 by (blast intro: opens_trans)
  have o26: "opens (tables w2) (tables w6)" using o3 o36 by (blast intro: opens_trans)
  have keyed: "keyed_legs (tables w6) ([debit_leg liab (pi_amount p) (pi_currency p),
                debit_leg cash (pi_amount p) (pi_currency p),
                credit_leg seg (pi_amount p) (pi_currency p)] @ pl @ fl) (release_moves p)"
    unfolding release_moves_def
    using o2(3) o3(3) o4(3) o5(3) o6 o26 o36 o46
    by (intro keyed_legs_append) (auto intro: opens_has_account keyed_legs_opens)
  have "p' = set_status StatusReleased (clock w) p \<and>
        money_step p StatusReleased (clock w) (Some (''release'', release_moves p))
          (tables w) (tables w')"
    using post_advance[OF post[folded p(3)] adv _ _ snd p(1) keyed] o2 o3 o4 o5 o6 o26 t1
    by (auto intro: opens_trans)
  with p pay tr show thesis by (intro that[of p payee]) auto
qed

end
