(* ===== verification/Books.thy ===== *)
theory Books
  imports Operations
begin

text \<open>
  The abstract specification of the money plane and the proof that every operation implements
  it. \<open>position\<close> says what an intent alone puts on which accounts, from its status, amount, fee
  and payee. The ledger implements it when every sum of derived balances is the sum of the
  intents' positions (\<open>books\<close>). Beside it run the structural invariants: keys and references,
  balanced transactions, and for every intent the story its transactions and its events tell.
\<close>

section \<open>Intents\<close>

definition intent_wf :: "payment_intent \<Rightarrow> bool" where
  "intent_wf p \<longleftrightarrow> 0 < sint (pi_amount p) \<and>
     (pi_mode p = SettlementDirect \<or> pi_mode p = SettlementEscrow) \<and>
     mode_status (pi_mode p) (pi_status p) \<and>
     (pi_mode p = SettlementEscrow \<longrightarrow>
        (\<exists>payee fee. pi_payee p = Some payee \<and> payee \<noteq> uuid_nil \<and> pi_fee p = Some fee \<and>
           0 \<le> sint fee \<and> sint fee \<le> sint (pi_amount p)))"

definition intents_wf :: "db \<Rightarrow> bool" where
  "intents_wf d \<longleftrightarrow> distinct (map pi_id (t_intents d)) \<and> (\<forall>p \<in> set (t_intents d). intent_wf p)"

section \<open>Positions\<close>

text \<open>
  What an intent holds on the accounts. \<open>left\<close> is what a partial refund has left of the amount.
\<close>

definition position :: "int \<Rightarrow> payment_intent \<Rightarrow> (akey \<times> int) list" where
  "position left p =
     (if pi_status p = StatusCaptured then
        [(receivable_key p, sint (pi_amount p)), (payable_key p, - sint (pi_amount p))]
      else if pi_status p = StatusSettled \<or> pi_status p = StatusHeldInEscrow then
        [(cash_key p, sint (pi_amount p)), (payable_key p, - sint (pi_amount p))]
      else if pi_status p = StatusReleased then
        [(platform_cash_key p, sint (pi_amount p)),
         (payee_key p, - (sint (pi_amount p) - sint (fee_of p))),
         (revenue_key p, - sint (fee_of p))]
      else if pi_status p = StatusPartiallyRefunded then
        [(cash_key p, left), (payable_key p, - left)]
      else [])"

definition books_with :: "(uuid \<Rightarrow> int) \<Rightarrow> db \<Rightarrow> bool" where
  "books_with left d \<longleftrightarrow>
     (\<forall>p \<in> set (t_intents d). pi_status p = StatusPartiallyRefunded \<longrightarrow>
        0 < left (pi_id p) \<and> left (pi_id p) < sint (pi_amount p)) \<and>
     (\<forall>Q. key_sum Q d = (\<Sum>p\<leftarrow>t_intents d. effect (position (left (pi_id p)) p) Q))"

definition books :: "db \<Rightarrow> bool" where
  "books d \<longleftrightarrow> (\<exists>left. books_with left d)"

section \<open>Balanced transactions and references\<close>

definition tx_net :: "db \<Rightarrow> uuid \<Rightarrow> int" where
  "tx_net d t = (\<Sum>e\<leftarrow>filter (\<lambda>e. en_transaction e = t) (t_entries d). posted e)"

definition balanced :: "db \<Rightarrow> bool" where
  "balanced d \<longleftrightarrow> (\<forall>t \<in> set (t_transactions d). tx_net d (tx_id t) = 0)"

text \<open>An event names its intent and the status it announces in its payload.\<close>

definition payload_field :: "string \<Rightarrow> json \<Rightarrow> json option" where
  "payload_field k j = (case j of JObj kvs \<Rightarrow> map_of kvs k | _ \<Rightarrow> None)"

definition event_intent :: "outbox \<Rightarrow> uuid option" where
  "event_intent r =
     (case payload_field ''id'' (ob_payload r) of Some (JUuid u) \<Rightarrow> Some u | _ \<Rightarrow> None)"

definition event_status :: "outbox \<Rightarrow> string" where
  "event_status r =
     (case payload_field ''status'' (ob_payload r) of Some (JStr s) \<Rightarrow> s | _ \<Rightarrow> [])"

lemma event_row_fields:
  assumes "event_row p r"
  shows "event_intent r = Some (pi_id p)" "event_status r = pi_status p"
    "ob_merchant r = pi_merchant p" "ob_type r = eventTypeFor (pi_status p)"
  using assms
  by (simp_all add: event_row_def event_intent_def event_status_def payload_field_def
      intent_payload_def)

definition refs_ok :: "db \<Rightarrow> bool" where
  "refs_ok d \<longleftrightarrow>
     (\<forall>t \<in> set (t_transactions d). \<exists>p \<in> set (t_intents d).
        tx_reference t = Some (pi_id p) \<and> tx_merchant t = pi_merchant p) \<and>
     (\<forall>r \<in> set (t_outbox d). \<exists>p \<in> set (t_intents d).
        event_intent r = Some (pi_id p) \<and> ob_merchant r = pi_merchant p)"

section \<open>The story of an intent\<close>

text \<open>
  The kinds of an intent's transactions in posting order, and what they must be for its
  status: nothing twice, nothing missing, nothing out of order.
\<close>

definition tx_history :: "db \<Rightarrow> uuid \<Rightarrow> string list" where
  "tx_history d i = map tx_kind (filter (\<lambda>t. tx_reference t = Some i) (t_transactions d))"

definition legal_history :: "string \<Rightarrow> string \<Rightarrow> string list \<Rightarrow> bool" where
  "legal_history mode s h \<longleftrightarrow>
     (if s = StatusCaptured then h = [''capture'']
      else if s = StatusSettled \<or> s = StatusHeldInEscrow then h = [''capture'', ''settle'']
      else if s = StatusReleased then h = [''capture'', ''settle'', ''release'']
      else if s = StatusPartiallyRefunded then h = [''capture'', ''settle'', ''refund'']
      else if s = StatusRefunded then
        h = [''capture'', ''settle'', ''refund''] \<or>
        mode = SettlementDirect \<and> h = [''capture'', ''refund'']
      else h = [])"

text \<open>
  Confirm walks two edges and persists only the end, so the statuses announced by events are
  linked by \<open>hop\<close>: an edge, or those two edges at once.
\<close>

definition hop :: "string \<Rightarrow> string \<Rightarrow> string \<Rightarrow> bool" where
  "hop mode s t \<longleftrightarrow> CanTransition mode s t \<or>
     (CanTransition mode s StatusRequiresConfirmation \<and>
      CanTransition mode StatusRequiresConfirmation t)"

lemma hop_walk: "hop m s t \<Longrightarrow> walk m s t"
  unfolding hop_def by (blast intro: walk_edge walk_trans)

fun hops :: "string \<Rightarrow> string \<Rightarrow> string list \<Rightarrow> bool" where
  "hops mode s [] = True"
| "hops mode s (t # ts) = (hop mode s t \<and> hops mode t ts)"

lemma hops_snoc: "hops m s (ts @ [t]) \<longleftrightarrow> hops m s ts \<and> hop m (last (s # ts)) t"
  by (induction ts arbitrary: s) auto

definition events_of :: "db \<Rightarrow> uuid \<Rightarrow> outbox list" where
  "events_of d i = filter (\<lambda>r. event_intent r = Some i) (t_outbox d)"

definition story :: "db \<Rightarrow> payment_intent \<Rightarrow> bool" where
  "story d p \<longleftrightarrow>
     legal_history (pi_mode p) (pi_status p) (tx_history d (pi_id p)) \<and>
     hops (pi_mode p) StatusCreated (map event_status (events_of d (pi_id p))) \<and>
     last (StatusCreated # map event_status (events_of d (pi_id p))) = pi_status p \<and>
     (\<forall>r \<in> set (events_of d (pi_id p)). ob_type r = eventTypeFor (event_status r))"

definition consistent :: "db \<Rightarrow> bool" where
  "consistent d \<longleftrightarrow> good_ledger d \<and> intents_wf d \<and> balanced d \<and> refs_ok d \<and> books d \<and>
     (\<forall>p \<in> set (t_intents d). story d p)"

lemma consistentD:
  assumes "consistent d"
  shows "good_ledger d" "intents_wf d" "balanced d" "refs_ok d" "books d" "sound d"
    "distinct (map pi_id (t_intents d))"
    "\<And>p. p \<in> set (t_intents d) \<Longrightarrow> intent_wf p" "\<And>p. p \<in> set (t_intents d) \<Longrightarrow> story d p"
  using assms by (auto simp: consistent_def sound_def intents_wf_def)

lemma consistent_empty: "consistent empty_db"
  by (simp add: consistent_def good_ledger_def ledger_wf_def accounts_unique_def intents_wf_def
      balanced_def refs_ok_def books_def books_with_def empty_db_def key_sum_def account_sum_def
      entries_of_accounts_def)

section \<open>One step keeps everything\<close>

text \<open>
  What a step must show of itself: it follows an edge, its transaction fits the history, its
  amounts balance, and they are the difference between the new and the old position.
\<close>

definition explains ::
    "payment_intent \<Rightarrow> string \<Rightarrow> (string \<times> (akey \<times> int) list) option \<Rightarrow> bool" where
  "explains p s posting \<longleftrightarrow>
     hop (pi_mode p) (pi_status p) s \<and>
     effect (posting_moves posting) (\<lambda>_. True) = 0 \<and>
     (\<forall>h. legal_history (pi_mode p) (pi_status p) h \<longrightarrow>
        legal_history (pi_mode p) s (h @ (case posting of None \<Rightarrow> [] | Some (k, _) \<Rightarrow> [k]))) \<and>
     (\<exists>r. (s = StatusPartiallyRefunded \<longrightarrow> 0 < r \<and> r < sint (pi_amount p)) \<and>
        (\<forall>r0 Q. effect (position r (p\<lparr>pi_status := s\<rparr>)) Q =
                effect (position r0 p) Q + effect (posting_moves posting) Q))"

lemma set_status_sel [simp]:
  "pi_id (set_status s t p) = pi_id p" "pi_merchant (set_status s t p) = pi_merchant p"
  "pi_amount (set_status s t p) = pi_amount p" "pi_currency (set_status s t p) = pi_currency p"
  "pi_status (set_status s t p) = s" "pi_mode (set_status s t p) = pi_mode p"
  "pi_payee (set_status s t p) = pi_payee p" "pi_fee (set_status s t p) = pi_fee p"
  "pi_updated (set_status s t p) = t"
  by (simp_all add: set_status_def)

lemma keys_updated [simp]:
  "receivable_key (p\<lparr>pi_status := s\<rparr>) = receivable_key p"
  "payable_key (p\<lparr>pi_status := s\<rparr>) = payable_key p"
  "cash_key (p\<lparr>pi_status := s\<rparr>) = cash_key p"
  "platform_cash_key (p\<lparr>pi_status := s\<rparr>) = platform_cash_key p"
  "payee_key (p\<lparr>pi_status := s\<rparr>) = payee_key p"
  "revenue_key (p\<lparr>pi_status := s\<rparr>) = revenue_key p"
  "fee_of (p\<lparr>pi_status := s\<rparr>) = fee_of p"
  by (simp_all add: receivable_key_def payable_key_def cash_key_def platform_cash_key_def
      payee_key_def revenue_key_def fee_of_def)

lemma position_set_status: "position r (set_status s t p) = position r (p\<lparr>pi_status := s\<rparr>)"
  by (simp add: position_def set_status_def receivable_key_def payable_key_def cash_key_def
      platform_cash_key_def payee_key_def revenue_key_def fee_of_def)

lemma hop_mode_status: "hop m s t \<Longrightarrow> mode_status m t"
  unfolding hop_def by (auto dest: mode_status_step)

lemma intent_wf_step:
  "intent_wf p \<Longrightarrow> hop (pi_mode p) (pi_status p) s \<Longrightarrow> intent_wf (set_status s t p)"
  by (auto simp: intent_wf_def dest: hop_mode_status)

lemma mem_updated:
  assumes "p' \<in> set (update_where (\<lambda>x. pi_id x = pi_id p) (set_status s now) rows)"
    and "distinct (map pi_id rows)" and "p \<in> set rows"
  shows "p' = set_status s now p \<or> p' \<in> set rows \<and> pi_id p' \<noteq> pi_id p"
  using assms(1)
proof (cases rule: intent_status.mem_updateE)
  case (same r)
  then have "r = p" using assms(2,3) distinct_key_eq by metis
  with same show ?thesis by simp
qed auto

lemma books_step:
  assumes books: "books d" and dist: "distinct (map pi_id (t_intents d))"
    and p: "p \<in> set (t_intents d)"
    and sums: "\<And>Q. key_sum Q d' = key_sum Q d + effect (posting_moves posting) Q"
    and ints: "t_intents d' =
      update_where (\<lambda>x. pi_id x = pi_id p) (set_status s now) (t_intents d)"
    and ex: "explains p s posting"
  shows "books d'"
proof -
  obtain left where left: "books_with left d" using books by (auto simp: books_def)
  obtain r where r: "s = StatusPartiallyRefunded \<longrightarrow> 0 < r \<and> r < sint (pi_amount p)"
    and pos: "\<forall>r0 Q. effect (position r (p\<lparr>pi_status := s\<rparr>)) Q =
                effect (position r0 p) Q + effect (posting_moves posting) Q"
    using ex unfolding explains_def by blast
  define left' where "left' = left(pi_id p := r)"
  have "(\<Sum>x\<leftarrow>t_intents d'. effect (position (left' (pi_id x)) x) Q) =
        (\<Sum>x\<leftarrow>t_intents d. effect (position (left (pi_id x)) x) Q) +
        effect (posting_moves posting) Q" for Q
  proof -
    have "(\<Sum>x\<leftarrow>t_intents d'. effect (position (left' (pi_id x)) x) Q) =
        (\<Sum>x\<leftarrow>t_intents d. effect (position (left (pi_id x)) x) Q) -
        effect (position (left (pi_id p)) p) Q + effect (position r (set_status s now p)) Q"
      unfolding ints
      using intent_status.sum_update_weights[OF dist p refl,
          of "\<lambda>x. effect (position (left' (pi_id x)) x) Q"
             "\<lambda>x. effect (position (left (pi_id x)) x) Q" s now]
      by (simp add: left'_def)
    moreover have "effect (position r (set_status s now p)) Q =
        effect (position (left (pi_id p)) p) Q + effect (posting_moves posting) Q"
      using pos by (simp only: position_set_status)
    ultimately show ?thesis by simp
  qed
  moreover have "\<forall>x \<in> set (t_intents d'). pi_status x = StatusPartiallyRefunded \<longrightarrow>
        0 < left' (pi_id x) \<and> left' (pi_id x) < sint (pi_amount x)"
  proof (intro ballI impI)
    fix x assume x: "x \<in> set (t_intents d')" and st: "pi_status x = StatusPartiallyRefunded"
    show "0 < left' (pi_id x) \<and> left' (pi_id x) < sint (pi_amount x)"
      using mem_updated[OF x[unfolded ints] dist p] left r st
      by (auto simp: books_with_def left'_def)
  qed
  ultimately have "books_with left' d'"
    using left sums by (simp add: books_with_def)
  then show ?thesis by (auto simp: books_def)
qed

lemma posting_kinds:
  assumes "posts p now posting txs es"
  shows "map tx_kind txs = (case posting of None \<Rightarrow> [] | Some (k, _) \<Rightarrow> [k])"
    and "\<forall>t \<in> set txs. tx_reference t = Some (pi_id p) \<and> tx_merchant t = pi_merchant p"
  using assms by (auto simp: posts_def split: option.splits)

lemma balanced_step:
  assumes bal: "balanced d" and wf: "ledger_wf d" and wf': "ledger_wf d'"
    and posts: "posts p now posting txs es"
    and net: "effect (posting_moves posting) (\<lambda>_. True) = 0"
    and t: "t_transactions d' = t_transactions d @ txs" and e: "t_entries d' = t_entries d @ es"
  shows "balanced d'"
proof (cases posting)
  case None
  then show ?thesis using bal posts t e by (simp add: posts_def balanced_def tx_net_def)
next
  case (Some km)
  obtain k moves where km: "km = (k, moves)" by (cases km)
  from posts obtain t0 where
      txs: "map tx_id txs = [t0]" and es: "\<forall>e \<in> set es. en_transaction e = t0"
    and sum: "(\<Sum>e\<leftarrow>es. posted e) = 0"
    using net by (auto simp: posts_def Some km posting_moves_def)
  have new: "t0 \<notin> tx_id ` set (t_transactions d)"
    using wf' txs by (auto simp: ledger_wf_def t)
  have old: "filter (\<lambda>e. en_transaction e = t0) (t_entries d) = []"
    using wf new by (auto simp: ledger_wf_def filter_empty_conv)
  have "tx_net d' t0 = 0"
    using es sum old by (simp add: tx_net_def e)
  moreover have "tx_net d' (tx_id x) = tx_net d (tx_id x)" if "x \<in> set (t_transactions d)" for x
  proof -
    have "filter (\<lambda>e. en_transaction e = tx_id x) es = []"
      using es new that by (auto simp: filter_empty_conv)
    then show ?thesis by (simp add: tx_net_def e)
  qed
  moreover have "tx_id x = t0" if "x \<in> set txs" for x
    using txs that by auto
  ultimately show ?thesis using bal by (auto simp: balanced_def t)
qed

lemma story_step:
  assumes st: "story d p" and posts: "posts p now posting txs es"
    and ev: "event_row (set_status s now p) r" and ex: "explains p s posting"
    and t: "t_transactions d' = t_transactions d @ txs" and o: "t_outbox d' = t_outbox d @ [r]"
  shows "story d' (set_status s now p)"
    and "pi_id p' \<noteq> pi_id p \<Longrightarrow> story d p' \<Longrightarrow> story d' p'"
proof -
  note kinds = posting_kinds[OF posts]
  note fields = event_row_fields[OF ev]
  have own: "filter (\<lambda>t. tx_reference t = Some (pi_id p)) txs = txs"
    using kinds(2) by (simp add: filter_id_conv)
  have "tx_history d' (pi_id p) = tx_history d (pi_id p) @
      (case posting of None \<Rightarrow> [] | Some (k, _) \<Rightarrow> [k])"
    by (simp add: tx_history_def t own kinds(1))
  moreover have "events_of d' (pi_id p) = events_of d (pi_id p) @ [r]"
    using fields by (simp add: events_of_def o)
  ultimately show "story d' (set_status s now p)"
    using st ex fields by (simp add: story_def explains_def hops_snoc)
  assume other: "pi_id p' \<noteq> pi_id p" and "story d p'"
  have "filter (\<lambda>t. tx_reference t = Some (pi_id p')) txs = []"
    using kinds(2) other by (auto simp: filter_empty_conv)
  then have "tx_history d' (pi_id p') = tx_history d (pi_id p')"
    by (simp add: tx_history_def t)
  moreover have "events_of d' (pi_id p') = events_of d (pi_id p')"
    using fields other by (simp add: events_of_def o)
  ultimately show "story d' p'" using \<open>story d p'\<close> by (simp add: story_def)
qed

lemma refs_step:
  assumes refs: "refs_ok d" and p: "p \<in> set (t_intents d)"
    and posts: "posts p now posting txs es" and ev: "event_row (set_status s now p) r"
    and t: "t_transactions d' = t_transactions d @ txs" and o: "t_outbox d' = t_outbox d @ [r]"
    and ints: "t_intents d' =
      update_where (\<lambda>x. pi_id x = pi_id p) (set_status s now) (t_intents d)"
  shows "refs_ok d'"
proof -
  have keep: "\<exists>y \<in> set (t_intents d'). pi_id y = pi_id x \<and> pi_merchant y = pi_merchant x"
    if "x \<in> set (t_intents d)" for x
    by (rule bexI[of _ "if pi_id x = pi_id p then set_status s now x else x"])
       (use that in \<open>auto simp: ints update_where_def\<close>)
  note kinds = posting_kinds(2)[OF posts]
  note fields = event_row_fields[OF ev]
  have "\<exists>q \<in> set (t_intents d'). tx_reference x = Some (pi_id q) \<and> tx_merchant x = pi_merchant q"
    if "x \<in> set (t_transactions d')" for x
  proof -
    from that have "x \<in> set (t_transactions d) \<or> x \<in> set txs" by (simp add: t)
    then obtain q where "q \<in> set (t_intents d)" "tx_reference x = Some (pi_id q)"
        "tx_merchant x = pi_merchant q"
      using refs kinds p unfolding refs_ok_def by blast
    with keep[of q] show ?thesis by metis
  qed
  moreover have "\<exists>q \<in> set (t_intents d'). event_intent x = Some (pi_id q) \<and>
      ob_merchant x = pi_merchant q"
    if "x \<in> set (t_outbox d')" for x
  proof -
    from that have "x \<in> set (t_outbox d) \<or> x = r" by (auto simp: o)
    then obtain q where "q \<in> set (t_intents d)" "event_intent x = Some (pi_id q)"
        "ob_merchant x = pi_merchant q"
      using refs fields p unfolding refs_ok_def by auto
    with keep[of q] show ?thesis by metis
  qed
  ultimately show ?thesis by (simp add: refs_ok_def)
qed

theorem consistent_step:
  assumes con: "consistent d" and step: "money_step p s now posting d d'"
    and ex: "explains p s posting"
  shows "consistent d'"
proof -
  note c = consistentD[OF con]
  from step obtain accts txs es r where
      p: "p \<in> set (t_intents d)" and gl: "good_ledger d'"
    and sums: "\<And>Q. key_sum Q d' = key_sum Q d + effect (posting_moves posting) Q"
    and posts: "posts p now posting txs es" and ev: "event_row (set_status s now p) r"
    and d': "d' = d\<lparr>t_accounts := t_accounts d @ accts,
               t_transactions := t_transactions d @ txs,
               t_entries := t_entries d @ es,
               t_intents := update_where (\<lambda>x. pi_id x = pi_id p) (set_status s now) (t_intents d),
               t_outbox := t_outbox d @ [r]\<rparr>"
    unfolding money_step_def by blast
  have t: "t_transactions d' = t_transactions d @ txs" "t_entries d' = t_entries d @ es"
      "t_outbox d' = t_outbox d @ [r]"
    and ints: "t_intents d' =
      update_where (\<lambda>x. pi_id x = pi_id p) (set_status s now) (t_intents d)"
    by (simp_all add: d')
  have mem: "x = set_status s now p \<or> x \<in> set (t_intents d) \<and> pi_id x \<noteq> pi_id p"
    if "x \<in> set (t_intents d')" for x
    by (rule mem_updated[OF that[unfolded ints] c(7) p])
  have wf: "intent_wf x" if "x \<in> set (t_intents d')" for x
    using mem[OF that] c(8) intent_wf_step[OF c(8)[OF p]] ex by (auto simp: explains_def)
  have st: "story d' x" if "x \<in> set (t_intents d')" for x
    using mem[OF that] story_step[OF c(9)[OF p] posts ev ex t(1,3)] c(9) by auto
  have bal: "balanced d'"
    using balanced_step[OF c(3) _ _ posts _ t(1,2)] c(1) gl ex
    by (simp add: good_ledger_def explains_def)
  have bk: "books d'" by (rule books_step[OF c(5,7) p sums ints ex])
  have rf: "refs_ok d'" by (rule refs_step[OF c(4) p posts ev t(1,3) ints])
  have "distinct (map pi_id (t_intents d'))"
    using c(7) by (simp add: ints intent_status.keys_update)
  then show ?thesis
    using gl wf st bal bk rf by (simp add: consistent_def intents_wf_def)
qed

text \<open>
  What lies outside the money plane: an operation that leaves the ledger and the intents as they
  are, and of the outbox rows the merchant, type and payload, keeps \<open>consistent\<close>.
\<close>

definition same_event :: "outbox \<Rightarrow> outbox \<Rightarrow> bool" where
  "same_event r r' \<longleftrightarrow> ob_id r' = ob_id r \<and> ob_event_id r' = ob_event_id r \<and>
     ob_merchant r' = ob_merchant r \<and> ob_type r' = ob_type r \<and> ob_payload r' = ob_payload r"

definition same_money :: "db \<Rightarrow> db \<Rightarrow> bool" where
  "same_money d d' \<longleftrightarrow> t_accounts d' = t_accounts d \<and> t_entries d' = t_entries d \<and>
     t_transactions d' = t_transactions d \<and> t_intents d' = t_intents d \<and>
     list_all2 same_event (t_outbox d) (t_outbox d')"

lemma same_event_refl [simp]: "same_event r r"
  by (simp add: same_event_def)

lemma same_events_refl [simp]: "list_all2 same_event rs rs"
  by (rule list.rel_refl) simp

lemma same_money_refl [simp]: "same_money d d"
  by (simp add: same_money_def)

lemma same_events_trans:
  "list_all2 same_event xs ys \<Longrightarrow> list_all2 same_event ys zs \<Longrightarrow> list_all2 same_event xs zs"
  by (rule list_all2_trans [where ?P1.0 = same_event and ?P2.0 = same_event])
     (simp_all add: same_event_def)

lemma same_money_trans: "same_money d1 d2 \<Longrightarrow> same_money d2 d3 \<Longrightarrow> same_money d1 d3"
  by (auto simp: same_money_def intro: same_events_trans)

lemma same_events_update:
  "(\<And>r. same_event r (f r)) \<Longrightarrow> list_all2 same_event rs (update_where P f rs)"
  by (induction rs) (auto simp: update_where_def)

lemma events_of_same:
  assumes "list_all2 same_event (t_outbox d) (t_outbox d')"
  shows "map event_status (events_of d' i) = map event_status (events_of d i)"
    and "map ob_type (events_of d' i) = map ob_type (events_of d i)"
  using assms unfolding events_of_def
  by (induction rule: list_all2_induct)
     (auto simp: same_event_def event_intent_def event_status_def)

lemma all_events_typed:
  "(\<forall>r \<in> set (events_of d i). ob_type r = eventTypeFor (event_status r)) \<longleftrightarrow>
   map ob_type (events_of d i) = map eventTypeFor (map event_status (events_of d i))"
  by (simp add: map_eq_conv)

lemma refs_same:
  assumes "same_money d d'" and "refs_ok d"
  shows "refs_ok d'"
proof -
  have "\<exists>r \<in> set (t_outbox d). same_event r r'" if "r' \<in> set (t_outbox d')" for r'
    using assms(1) that
    by (auto simp: same_money_def list_all2_conv_all_nth in_set_conv_nth) (metis nth_mem)
  then show ?thesis
    using assms by (fastforce simp: same_money_def refs_ok_def same_event_def event_intent_def)
qed

theorem consistent_same_money:
  assumes "consistent d" and same: "same_money d d'"
  shows "consistent d'"
proof -
  note c = consistentD[OF assms(1)]
  have eq: "t_accounts d' = t_accounts d" "t_entries d' = t_entries d"
      "t_transactions d' = t_transactions d" "t_intents d' = t_intents d"
    using same by (simp_all add: same_money_def)
  have "key_sum Q d' = key_sum Q d" for Q by (rule key_sum_cong) (simp_all add: eq)
  then have "books d'" using c(5) by (simp add: books_def books_with_def eq)
  moreover have "story d' p" if "p \<in> set (t_intents d)" for p
    using c(9)[OF that] events_of_same[of d d' "pi_id p"] same
    unfolding story_def all_events_typed by (simp add: same_money_def tx_history_def)
  ultimately show ?thesis
    using c(1-4) refs_same[OF same] good_ledger_cong[of d' d]
    by (simp add: consistent_def intents_wf_def balanced_def tx_net_def eq)
qed

end
