(* ===== verification/Invariant.thy ===== *)
theory Invariant
  imports Books
begin

text \<open>
  Every operation of the service keeps \<open>consistent\<close>: each body makes a \<open>lawful\<close> step, which
  \<open>explains\<close> itself. What is proved of all operations is proved once, in the contract
  \<open>money_invariant\<close> of a property of the tables that new intents and lawful steps keep; the bodies
  and the sweeps over them are interpretations of \<open>tx_operation\<close> and \<open>swept\<close> under that contract.
\<close>

section \<open>Every body explains itself\<close>

lemma position_plain [simp]:
  "pi_status p = StatusCreated \<or> pi_status p = StatusRequiresConfirmation \<or>
   pi_status p = StatusAuthorized \<or> pi_status p = StatusFailed \<or> pi_status p = StatusRefunded \<Longrightarrow>
   position r p = []"
  by (auto simp: position_def)

lemma explains_confirm:
  assumes "intent_wf p"
    and "pi_status p = StatusCreated \<or> pi_status p = StatusRequiresConfirmation"
    and "s = StatusAuthorized \<or> s = StatusFailed"
  shows "explains p s None"
proof -
  have "pi_mode p = SettlementDirect \<or> pi_mode p = SettlementEscrow"
    using assms(1) by (simp add: intent_wf_def)
  with assms(2,3) have "hop (pi_mode p) (pi_status p) s"
    by (auto simp: hop_def can_transition_to)
  with assms(2,3) show ?thesis
    by (auto simp: explains_def posting_moves_def legal_history_def)
qed

lemma explains_expire:
  assumes "CanTransition (pi_mode p) (pi_status p) StatusFailed"
  shows "explains p StatusFailed None"
  using assms
  by (auto simp: explains_def posting_moves_def legal_history_def hop_def can_transition_to)

lemma explains_capture:
  assumes "CanTransition (pi_mode p) (pi_status p) StatusCaptured"
  shows "explains p StatusCaptured (Some (''capture'', capture_moves p))"
  using assms
  by (auto simp: explains_def posting_moves_def legal_history_def hop_def can_transition_to
      capture_moves_def position_def)

lemma explains_settle:
  assumes "CanTransition (pi_mode p) (pi_status p) (settle_target p)"
    and "pi_status p = StatusCaptured"
  shows "explains p (settle_target p) (Some (''settle'', settle_moves p))"
  using assms
  by (auto simp: explains_def posting_moves_def legal_history_def hop_def can_transition_to
      settle_moves_def settle_target_def position_def)

lemma explains_refund:
  assumes tr: "CanTransition (pi_mode p) (pi_status p) (refund_target p amount)"
    and pos: "0 < sint amount" and le: "sint amount \<le> sint (pi_amount p)"
    and full: "pi_mode p = SettlementEscrow \<or> pi_status p = StatusCaptured \<Longrightarrow>
               amount = pi_amount p"
  shows "explains p (refund_target p amount) (Some (''refund'', refund_moves p amount))"
proof (cases "amount = pi_amount p")
  case True
  with tr show ?thesis
    by (auto simp: explains_def posting_moves_def legal_history_def hop_def can_transition_to
        refund_moves_def refund_target_def position_def)
next
  case False
  then have lt: "sint amount < sint (pi_amount p)"
    using le sint_inj[of amount "pi_amount p"] by fastforce
  from False tr full have st: "pi_mode p = SettlementDirect" "pi_status p = StatusSettled"
    by (auto simp: refund_target_def can_transition_to)
  show ?thesis
    using False lt pos st
    by (auto simp: explains_def posting_moves_def legal_history_def hop_def can_transition_to
        refund_moves_def refund_target_def position_def
        intro!: exI[of _ "sint (pi_amount p) - sint amount"])
qed

lemma effect_positive_move:
  "0 \<le> sint n \<Longrightarrow> effect (positive_move k n) Q = (if Q k then - sint n else 0)"
  by (auto simp: positive_move_def)

lemma explains_release:
  assumes tr: "CanTransition (pi_mode p) (pi_status p) StatusReleased" and wf: "intent_wf p"
  shows "explains p StatusReleased (Some (''release'', release_moves p))"
proof -
  from tr have st: "pi_mode p = SettlementEscrow" "pi_status p = StatusHeldInEscrow"
    by (auto simp: can_transition_to)
  with wf have fee: "0 \<le> sint (fee_of p)" "sint (fee_of p) \<le> sint (pi_amount p)"
    by (auto simp: intent_wf_def fee_of_def)
  then have diff: "sint (pi_amount p - fee_of p) = sint (pi_amount p) - sint (fee_of p)"
    by (rule sint_diff_le)
  show ?thesis
    using st fee tr
    by (auto simp: explains_def posting_moves_def legal_history_def hop_def
        release_moves_def position_def effect_positive_move diff)
qed

text \<open>
  The steps of the six operations, one clause for each summary of \<^verbatim>\<open>Operations\<close>: what a body
  has checked of its intent when it commits, the status it sets and the amounts it posts.
\<close>

inductive lawful ::
    "payment_intent \<Rightarrow> string \<Rightarrow> (string \<times> (akey \<times> int) list) option \<Rightarrow> bool" where
  confirm: "pi_status p = StatusCreated \<or> pi_status p = StatusRequiresConfirmation \<Longrightarrow>
     s = StatusAuthorized \<or> s = StatusFailed \<Longrightarrow> lawful p s None"
| capture: "CanTransition (pi_mode p) (pi_status p) StatusCaptured \<Longrightarrow>
     lawful p StatusCaptured (Some (''capture'', capture_moves p))"
| refund: "CanTransition (pi_mode p) (pi_status p) (refund_target p amount) \<Longrightarrow>
     0 < sint amount \<Longrightarrow> sint amount \<le> sint (pi_amount p) \<Longrightarrow>
     (pi_mode p = SettlementEscrow \<or> pi_status p = StatusCaptured \<Longrightarrow> amount = pi_amount p) \<Longrightarrow>
     lawful p (refund_target p amount) (Some (''refund'', refund_moves p amount))"
| release: "CanTransition (pi_mode p) (pi_status p) StatusReleased \<Longrightarrow>
     lawful p StatusReleased (Some (''release'', release_moves p))"
| settle: "CanTransition (pi_mode p) (pi_status p) (settle_target p) \<Longrightarrow>
     pi_status p = StatusCaptured \<Longrightarrow>
     lawful p (settle_target p) (Some (''settle'', settle_moves p))"
| expire: "CanTransition (pi_mode p) (pi_status p) StatusFailed \<Longrightarrow> lawful p StatusFailed None"

lemma lawful_explains: "lawful p s posting \<Longrightarrow> intent_wf p \<Longrightarrow> explains p s posting"
  by (induction rule: lawful.induct)
     (blast intro: explains_confirm explains_capture explains_refund explains_release
       explains_settle explains_expire)+

section \<open>Nothing is rewritten\<close>

text \<open>
  How the tables may develop: ledger rows are only added, an intent keeps everything but its
  status, which moves along legal edges, and an event keeps its content.
\<close>

definition grown :: "('a \<Rightarrow> 'a \<Rightarrow> bool) \<Rightarrow> 'a list \<Rightarrow> 'a list \<Rightarrow> bool" where
  "grown R xs ys \<longleftrightarrow> list_all2 R xs (take (length xs) ys)"

lemma grown_append: "list_all2 R xs as \<Longrightarrow> grown R xs (as @ bs)"
  by (simp add: grown_def list_all2_lengthD)

lemma grown_refl: "(\<And>x. R x x) \<Longrightarrow> grown R xs xs"
  by (simp add: grown_def list.rel_refl)

lemma grownE:
  assumes "grown R xs ys"
  obtains as bs where "ys = as @ bs" and "list_all2 R xs as"
  using assms append_take_drop_id[of "length xs" ys] unfolding grown_def by metis

lemma grown_trans:
  assumes R: "\<And>x y z. R x y \<Longrightarrow> R y z \<Longrightarrow> R x z" and "grown R xs ys" and "grown R ys zs"
  shows "grown R xs zs"
proof -
  from assms(2) obtain as bs where y: "ys = as @ bs" "list_all2 R xs as" by (rule grownE)
  from assms(3) obtain cs ds where z: "zs = cs @ ds" "list_all2 R ys cs" by (rule grownE)
  from z(2) y(1) obtain c1 c2 where c: "cs = c1 @ c2" "list_all2 R as c1"
    by (auto simp: list_all2_append1)
  have "list_all2 R xs c1" by (rule list_all2_trans[OF R y(2) c(2)])
  then show ?thesis using z(1) c(1) by (simp add: grown_append)
qed

lemma grown_memE:
  assumes "grown R xs ys" and "x \<in> set xs"
  obtains y where "y \<in> set ys" and "R x y"
proof -
  from assms(1) obtain as bs where ys: "ys = as @ bs" and l: "list_all2 R xs as" by (rule grownE)
  from assms(2) obtain i where "i < length xs" "xs ! i = x" by (auto simp: in_set_conv_nth)
  with l have "R x (as ! i)" "as ! i \<in> set as" by (auto simp: list_all2_conv_all_nth)
  then show thesis using that ys by auto
qed

definition later :: "payment_intent \<Rightarrow> payment_intent \<Rightarrow> bool" where
  "later p p' \<longleftrightarrow>
     (\<exists>s t. p' = p\<lparr>pi_status := s, pi_updated := t\<rparr> \<and> walk (pi_mode p) (pi_status p) s)"

lemma later_refl [simp]: "later p p"
  unfolding later_def by (rule exI[of _ "pi_status p"], rule exI[of _ "pi_updated p"])
    (simp add: walk_refl)

lemma later_trans: "later p q \<Longrightarrow> later q r \<Longrightarrow> later p r"
proof -
  assume "later p q" and "later q r"
  then obtain s t s' t' where q: "q = p\<lparr>pi_status := s, pi_updated := t\<rparr>"
      "walk (pi_mode p) (pi_status p) s"
    and r: "r = q\<lparr>pi_status := s', pi_updated := t'\<rparr>" "walk (pi_mode q) (pi_status q) s'"
    unfolding later_def by blast
  then have "r = p\<lparr>pi_status := s', pi_updated := t'\<rparr>" "walk (pi_mode p) (pi_status p) s'"
    by (auto intro: walk_trans)
  then show "later p r" unfolding later_def by blast
qed

definition evolves :: "db \<Rightarrow> db \<Rightarrow> bool" where
  "evolves d d' \<longleftrightarrow> grown (=) (t_accounts d) (t_accounts d') \<and>
     grown (=) (t_transactions d) (t_transactions d') \<and>
     grown (=) (t_entries d) (t_entries d') \<and>
     grown later (t_intents d) (t_intents d') \<and>
     grown same_event (t_outbox d) (t_outbox d')"

lemma evolves_refl [simp]: "evolves d d"
  by (simp add: evolves_def grown_refl)

lemma same_event_trans: "same_event x y \<Longrightarrow> same_event y z \<Longrightarrow> same_event x z"
  by (simp add: same_event_def)

lemma evolves_trans: "evolves d1 d2 \<Longrightarrow> evolves d2 d3 \<Longrightarrow> evolves d1 d3"
  unfolding evolves_def
  by (auto intro: grown_trans[of "(=)"] grown_trans[of later, OF later_trans]
      grown_trans[of same_event, OF same_event_trans])

lemma evolves_same_money: "same_money d d' \<Longrightarrow> evolves d d'"
  using grown_append[of same_event "t_outbox d" "t_outbox d'" "[]"]
  by (simp add: same_money_def evolves_def grown_refl)

lemma evolves_step:
  assumes step: "money_step p s now posting d d'" and hop: "hop (pi_mode p) (pi_status p) s"
    and dist: "distinct (map pi_id (t_intents d))"
  shows "evolves d d'"
proof -
  from step obtain accts txs es r where p: "p \<in> set (t_intents d)"
    and d': "d' = d\<lparr>t_accounts := t_accounts d @ accts,
               t_transactions := t_transactions d @ txs,
               t_entries := t_entries d @ es,
               t_intents := update_where (\<lambda>x. pi_id x = pi_id p) (set_status s now) (t_intents d),
               t_outbox := t_outbox d @ [r]\<rparr>"
    unfolding money_step_def by blast
  have "later x (set_status s now x)" if "x \<in> set (t_intents d)" "pi_id x = pi_id p" for x
    using distinct_key_eq[OF dist that(1) p that(2)] hop_walk[OF hop]
    by (auto simp: later_def set_status_def)
  then have "list_all2 later (t_intents d)
      (update_where (\<lambda>x. pi_id x = pi_id p) (set_status s now) (t_intents d))"
    by (auto simp: update_where_def list_all2_map2 list.rel_refl_strong intro!: list_all2_same)
  then have "grown later (t_intents d) (t_intents d')"
    using grown_append[of later _ _ "[]"] by (simp add: d')
  then show ?thesis
    by (auto simp: evolves_def d' intro!: grown_append list.rel_refl)
qed

text \<open>The invariant of an operation that started from the tables \<open>d0\<close>.\<close>

definition grows :: "db \<Rightarrow> db \<Rightarrow> bool" where
  "grows d0 d \<longleftrightarrow> consistent d \<and> evolves d0 d"

lemma grows_step:
  assumes "grows d0 d" and "money_step p s now posting d d'" and "explains p s posting"
  shows "grows d0 d'"
proof -
  have "consistent d'" by (rule consistent_step[OF _ assms(2,3)]) (use assms(1) in \<open>simp add: grows_def\<close>)
  moreover have "evolves d d'"
    by (rule evolves_step[OF assms(2)])
       (use assms(1,3) in \<open>simp_all add: grows_def explains_def consistentD(7)\<close>)
  ultimately show ?thesis using assms(1) by (auto simp: grows_def intro: evolves_trans)
qed

lemma grows_same_money: "grows d0 d \<Longrightarrow> same_money d d' \<Longrightarrow> grows d0 d'"
  by (auto simp: grows_def intro: consistent_same_money evolves_trans evolves_same_money)

section \<open>Creating an intent\<close>

lemma consistent_new_intent:
  assumes con: "consistent d" and new: "pi_id p \<notin> pi_id ` set (t_intents d)"
    and wf: "intent_wf p" and st: "pi_status p = StatusCreated"
  shows "consistent (d\<lparr>t_intents := t_intents d @ [p]\<rparr>)"
proof -
  let ?d = "d\<lparr>t_intents := t_intents d @ [p]\<rparr>"
  note c = consistentD[OF con]
  have gl: "good_ledger ?d" using c(1) by (simp add: good_ledger_def ledger_wf_def accounts_unique_def)
  have iw: "intents_wf ?d" using c(2) new wf by (auto simp: intents_wf_def)
  have bal: "balanced ?d" using c(3) by (simp add: balanced_def tx_net_def)
  have rf: "refs_ok ?d" using c(4) by (auto simp: refs_ok_def)
  obtain left where l: "books_with left d" using c(5) by (auto simp: books_def)
  have ks: "key_sum Q ?d = key_sum Q d" for Q by (rule key_sum_cong) simp_all
  have "books_with left ?d" using l ks st by (auto simp: books_with_def)
  then have bk: "books ?d" by (auto simp: books_def)
  have "tx_reference t \<noteq> Some (pi_id p)" if "t \<in> set (t_transactions d)" for t
    using bspec[OF conjunct1[OF c(4)[unfolded refs_ok_def]] that] new by auto
  then have "tx_history d (pi_id p) = []" by (auto simp: tx_history_def filter_empty_conv)
  moreover have "event_intent r \<noteq> Some (pi_id p)" if "r \<in> set (t_outbox d)" for r
    using bspec[OF conjunct2[OF c(4)[unfolded refs_ok_def]] that] new by auto
  then have "events_of d (pi_id p) = []" by (auto simp: events_of_def filter_empty_conv)
  ultimately have "story ?d p"
    using st by (simp add: story_def tx_history_def events_of_def legal_history_def)
  moreover have "story ?d q" if "q \<in> set (t_intents d)" for q
    using c(9)[OF that] by (simp add: story_def tx_history_def events_of_def)
  ultimately show ?thesis using gl iw bal rf bk by (auto simp: consistent_def)
qed

definition new_intent ::
    "uuid \<Rightarrow> uuid \<Rightarrow> int64 \<Rightarrow> string \<Rightarrow> string \<Rightarrow> uuid option \<Rightarrow> int64 option \<Rightarrow> bytes \<Rightarrow> time \<Rightarrow>
     payment_intent" where
  "new_intent u m amount cur mode payee fee meta now =
     \<lparr>pi_id = u, pi_merchant = m, pi_amount = amount, pi_currency = cur,
      pi_status = StatusCreated, pi_mode = mode, pi_payee = payee, pi_fee = fee,
      pi_metadata = meta, pi_created = now, pi_updated = now\<rparr>"

lemma new_intent_sel [simp]:
  "pi_id (new_intent u m amount cur mode payee fee meta now) = u"
  "pi_status (new_intent u m amount cur mode payee fee meta now) = StatusCreated"
  by (simp_all add: new_intent_def)

lemma run_CreateIntent:
  assumes "run (CreateIntent m amount cur mode payee fee meta) w = (r, w')"
  obtains (none) "tables w' = tables w" and "tx_open w' = tx_open w" and "clock w' = clock w"
      and "\<nexists>p. r = Inr p"
    | (row) u where "u \<notin> pi_id ` set (t_intents (tables w))"
      and "0 < sint amount" and "mode \<in> {SettlementDirect, SettlementEscrow}"
      and "tables w' = (tables w)\<lparr>t_intents := t_intents (tables w) @
             [new_intent u m amount cur mode payee fee meta (clock w)]\<rparr>"
      and "tx_open w' = tx_open w" and "clock w' = clock w"
      and "r = Inr (new_intent u m amount cur mode payee fee meta (clock w)) \<or>
           r = Inl PgConnection"
proof (cases "CreateIntent m amount cur mode payee fee meta (rng w (rpos w)) (clock w) (tables w)")
  case (Inl e)
  with assms show thesis
    by (intro none) (auto simp: run_def Let_def split: fault.splits)
next
  case (Inr pd)
  then have d: "pd = (new_intent (rng w (rpos w)) m amount cur mode payee fee meta (clock w),
      (tables w)\<lparr>t_intents := t_intents (tables w) @
        [new_intent (rng w (rpos w)) m amount cur mode payee fee meta (clock w)]\<rparr>)"
    and ok: "rng w (rpos w) \<notin> pi_id ` set (t_intents (tables w))" "0 < sint amount"
      "mode \<in> {SettlementDirect, SettlementEscrow}"
    by (auto simp: CreateIntent_def Let_def new_intent_def split: if_splits)
  show thesis
  proof (cases "faults w (fpos w) = Fault")
    case True
    with assms show thesis by (intro none) (auto simp: run_def Let_def)
  next
    case False
    with assms Inr d ok show thesis
      by (intro row[of "rng w (rpos w)"])
         (auto simp: run_def Let_def split: fault.splits if_splits)
  qed
qed

text \<open>\<^verbatim>\<open>Create\<close> either rejects its input or inserts a row it has validated.\<close>

lemma Create_run:
  assumes "Create m inp w = (r, w')"
  obtains (rejected) e where "r = Inl e" and "w' = w"
    | (inserted) cur mode payee fee meta where
      "run (CreateIntent m (ci_amount inp) cur mode payee fee meta) w = (r, w')"
      and "normalizeCurrency (ci_currency inp) = Some cur"
      and "mode = (if ci_escrow inp then SettlementEscrow else SettlementDirect)"
      and "ci_escrow inp \<Longrightarrow> \<exists>x f. payee = Some x \<and> x \<noteq> uuid_nil \<and> fee = Some f \<and>
             0 \<le> sint f \<and> sint f \<le> sint (ci_amount inp)"
proof -
  have "(\<exists>e. r = Inl e \<and> w' = w) \<or>
    (\<exists>cur payee fee meta. normalizeCurrency (ci_currency inp) = Some cur \<and>
       (ci_escrow inp \<longrightarrow> (\<exists>x f. payee = Some x \<and> x \<noteq> uuid_nil \<and> fee = Some f \<and>
             0 \<le> sint f \<and> sint f \<le> sint (ci_amount inp))) \<and>
       run (CreateIntent m (ci_amount inp) cur
         (if ci_escrow inp then SettlementEscrow else SettlementDirect) payee fee meta) w = (r, w'))"
    using assms unfolding Create_def Let_def
    by (auto simp: fail_def not_less split: option.split_asm if_split_asm) blast+
  then show thesis using rejected inserted by blast
qed

section \<open>The operations keep an invariant of the books\<close>

text \<open>
  The contract of such an invariant: it is at least \<open>consistent\<close>, it survives what leaves the money
  plane alone, a new intent and every lawful step. Then all the operations keep it.
\<close>

locale money_invariant =
  fixes good :: "db \<Rightarrow> bool"
  assumes good_consistent: "good d \<Longrightarrow> consistent d"
    and good_quiet: "good d \<Longrightarrow> same_money d d' \<Longrightarrow> good d'"
    and good_new: "good d \<Longrightarrow> pi_id p \<notin> pi_id ` set (t_intents d) \<Longrightarrow> intent_wf p \<Longrightarrow>
      pi_status p = StatusCreated \<Longrightarrow> good (d\<lparr>t_intents := t_intents d @ [p]\<rparr>)"
    and good_step: "good d \<Longrightarrow> money_step p s now posting d d' \<Longrightarrow> lawful p s posting \<Longrightarrow> good d'"
begin

lemma good_sound: "good d \<Longrightarrow> sound d"
  using good_consistent by (blast intro: consistentD(6))

lemma confirm_good:
  assumes "good (tables w)" and "confirm_body bank i m token w = (Inr (Commit x), w')"
  shows "good (tables w')"
  by (rule confirm_step[OF assms(2) good_sound[OF assms(1)]])
     (blast intro: good_step[OF assms(1)] lawful.confirm)

lemma capture_good:
  assumes "good (tables w)" and "capture_body bank i m w = (Inr (Commit x), w')"
  shows "good (tables w')"
  by (rule capture_step[OF assms(2) good_sound[OF assms(1)]])
     (rule good_step[OF assms(1) _ lawful.capture])

lemma refund_good:
  assumes "good (tables w)" and "refund_body i m amount w = (Inr (Commit x), w')"
  shows "good (tables w')"
  by (rule refund_step[OF assms(2) good_sound[OF assms(1)]])
     (rule good_step[OF assms(1) _ lawful.refund])

lemma release_good:
  assumes "good (tables w)" and "release_body i m w = (Inr (Commit x), w')"
  shows "good (tables w')"
  by (rule release_step[OF assms(2) good_sound[OF assms(1)]])
     (rule good_step[OF assms(1) _ lawful.release])

lemma settle_good:
  assumes "good (tables w)" and "settle_body i m w = (Inr (Commit x), w')"
  shows "good (tables w')"
  by (rule settle_step[OF assms(2) good_sound[OF assms(1)]])
     (rule good_step[OF assms(1) _ lawful.settle])

lemma expire_good:
  assumes "good (tables w)" and "expire_body i m w = (Inr (Commit x), w')"
  shows "good (tables w')"
  by (rule expire_step[OF assms(2) good_sound[OF assms(1)]])
     (rule good_step[OF assms(1) _ lawful.expire])

lemma create_good:
  assumes gr: "good (tables w)" and run: "Create m inp w = (r, w')"
  shows "good (tables w') \<and> tx_open w' = tx_open w \<and> clock w' = clock w"
  using run
proof (cases rule: Create_run)
  case (rejected e)
  with gr show ?thesis by simp
next
  case (inserted cur mode payee fee meta)
  from inserted(1) show ?thesis
  proof (cases rule: run_CreateIntent)
    case none
    with gr show ?thesis by simp
  next
    case (row u)
    let ?p = "new_intent u m (ci_amount inp) cur mode payee fee meta (clock w)"
    have "intent_wf ?p"
      using row(2) inserted(3,4) by (auto simp: intent_wf_def new_intent_def)
    with good_new[of "tables w" ?p] row gr show ?thesis by simp
  qed
qed

end

sublocale money_invariant \<subseteq> confirm_op: tx_operation "confirm_body bank i m token" good for bank i m token
  by unfold_locales (simp add: keeps_confirm_body, rule confirm_good)

sublocale money_invariant \<subseteq> capture_op: tx_operation "capture_body bank i m" good for bank i m
  by unfold_locales (simp add: keeps_capture_body, rule capture_good)

sublocale money_invariant \<subseteq> refund_op: tx_operation "refund_body i m amount" good for i m amount
  by unfold_locales (simp add: keeps_refund_body, rule refund_good)

sublocale money_invariant \<subseteq> release_op: tx_operation "release_body i m" good for i m
  by unfold_locales (simp add: keeps_release_body, rule release_good)

sublocale money_invariant \<subseteq> settle_op: tx_operation "settle_body i m" good for i m
  by unfold_locales (simp add: keeps_settle_body, rule settle_good)

sublocale money_invariant \<subseteq> expire_op: tx_operation "expire_body i m" good for i m
  by unfold_locales (simp add: keeps_expire_body, rule expire_good)

section \<open>The sweeps\<close>

text \<open>
  The contract of what a sweep runs on each row: it keeps an invariant of the tables and
  leaves no transaction open. The loop then keeps them too, however many rows it gets, and its
  count says how many it got through.
\<close>

locale swept =
  fixes one :: "uuid \<Rightarrow> uuid \<Rightarrow> unit io"
    and good :: "db \<Rightarrow> bool"
  assumes one_good: "tx_open w = None \<Longrightarrow> good (tables w) \<Longrightarrow> good (tables (snd (one i m w)))"
    and one_closed: "tx_open w = None \<Longrightarrow> tx_open (snd (one i m w)) = None"
    and one_clock: "tx_open w = None \<Longrightarrow> clock (snd (one i m w)) = clock w"
begin

lemma rows_good:
  "tx_open w = None \<Longrightarrow> good (tables w) \<Longrightarrow>
   good (tables (snd (sweep_rows one ps n w))) \<and> tx_open (snd (sweep_rows one ps n w)) = None \<and>
   clock (snd (sweep_rows one ps n w)) = clock w"
proof (induction ps arbitrary: n w)
  case Nil
  then show ?case by simp
next
  case (Cons p ps)
  obtain r w1 where r: "one (pi_id p) (pi_merchant p) w = (r, w1)"
    by (cases "one (pi_id p) (pi_merchant p) w")
  then have "tx_open w1 = None" "good (tables w1)" "clock w1 = clock w"
    using Cons.prems one_good one_closed one_clock by (metis snd_conv)+
  with Cons.IH r show ?case by (cases r) auto
qed

lemma rows_count:
  "sweep_rows one ps n w = ((k, e), w') \<Longrightarrow>
   n \<le> k \<and> k \<le> n + length ps \<and> (e = None \<longleftrightarrow> k = n + length ps)"
proof (induction ps arbitrary: n w)
  case Nil
  then show ?case by simp
next
  case (Cons p ps)
  obtain r w1 where r: "one (pi_id p) (pi_merchant p) w = (r, w1)"
    by (cases "one (pi_id p) (pi_merchant p) w")
  show ?case
  proof (cases r)
    case (Inl x)
    with Cons.prems r show ?thesis by auto
  next
    case (Inr u)
    with Cons.prems r Cons.IH[of "Suc n" w1] show ?thesis by simp
  qed
qed

end

sublocale money_invariant \<subseteq> settle_sweep: swept settleOne good
  by unfold_locales
     (simp_all add: settleOne_def settle_op.op_good settle_op.op_closed settle_op.op_clock)

sublocale money_invariant \<subseteq> expire_sweep: swept expireOne good
  by unfold_locales
     (simp_all add: expireOne_def expire_op.op_good expire_op.op_closed expire_op.op_clock)

text \<open>\<open>grows d0\<close> is one.\<close>

interpretation growth: money_invariant "grows d0" for d0
proof unfold_locales
  fix p d s now posting d'
  assume "grows d0 d" and "money_step p s now posting d d'" and "lawful p s posting"
  moreover from this have "intent_wf p"
    using consistentD(8) by (auto simp: grows_def money_step_def)
  ultimately show "grows d0 d'" by (blast intro: grows_step lawful_explains)
next
  fix d p
  assume gr: "grows d0 d" and "pi_id p \<notin> pi_id ` set (t_intents d)" and "intent_wf p"
    and "pi_status p = StatusCreated"
  then have "consistent (d\<lparr>t_intents := t_intents d @ [p]\<rparr>)"
    by (simp add: grows_def consistent_new_intent)
  moreover have "evolves d (d\<lparr>t_intents := t_intents d @ [p]\<rparr>)"
    by (simp add: evolves_def grown_refl grown_append list.rel_refl)
  ultimately show "grows d0 (d\<lparr>t_intents := t_intents d @ [p]\<rparr>)"
    using gr by (auto simp: grows_def intro: evolves_trans)
qed (simp add: grows_def, rule grows_same_money)

end
