(* ===== verification/Http.thy ===== *)
theory Http
  imports Intents
begin

text \<open>
  The ground under \<^verbatim>\<open>internal/httpapi\<close>: the string functions of Go's library that the handlers
  use, requests, responses and handlers, the request-scoped values of \<^verbatim>\<open>context.go\<close> and the
  error envelope of \<^verbatim>\<open>errors.go\<close>. What comes from other libraries (the JSON codec, UUID text,
  SHA-256, HMAC, bcrypt, JWT, URL parsing, the environment) is a record of functions, \<open>lib\<close>,
  of which nothing is assumed here.
\<close>

section \<open>Strings\<close>

text \<open>
  \<^verbatim>\<open>strings.TrimSpace\<close> on UTF-8 bytes: the encodings of the code points with the property
  White Space, cut from both ends.
\<close>

definition white_space :: "bytes list" where
  "white_space =
     [[CHR 0x09], [CHR 0x0A], [CHR 0x0B], [CHR 0x0C], [CHR 0x0D], [CHR 0x20],
      [CHR 0xC2, CHR 0x85], [CHR 0xC2, CHR 0xA0], [CHR 0xE1, CHR 0x9A, CHR 0x80],
      [CHR 0xE2, CHR 0x80, CHR 0x80], [CHR 0xE2, CHR 0x80, CHR 0x81],
      [CHR 0xE2, CHR 0x80, CHR 0x82], [CHR 0xE2, CHR 0x80, CHR 0x83],
      [CHR 0xE2, CHR 0x80, CHR 0x84], [CHR 0xE2, CHR 0x80, CHR 0x85],
      [CHR 0xE2, CHR 0x80, CHR 0x86], [CHR 0xE2, CHR 0x80, CHR 0x87],
      [CHR 0xE2, CHR 0x80, CHR 0x88], [CHR 0xE2, CHR 0x80, CHR 0x89],
      [CHR 0xE2, CHR 0x80, CHR 0x8A], [CHR 0xE2, CHR 0x80, CHR 0xA8],
      [CHR 0xE2, CHR 0x80, CHR 0xA9], [CHR 0xE2, CHR 0x80, CHR 0xAF],
      [CHR 0xE2, CHR 0x81, CHR 0x9F], [CHR 0xE3, CHR 0x80, CHR 0x80]]"

definition strip_one :: "bytes list \<Rightarrow> bytes \<Rightarrow> bytes option" where
  "strip_one cs s =
     map_option (\<lambda>c. drop (length c) s) (find (\<lambda>c. c \<noteq> [] \<and> take (length c) s = c) cs)"

lemma strip_one_shorter: "strip_one cs s = Some s' \<Longrightarrow> length s' < length s"
  by (auto simp: strip_one_def dest!: find_SomeD)
     (metis append_take_drop_id diff_less length_drop length_greater_0_conv take_eq_Nil)

function trim_left :: "bytes list \<Rightarrow> bytes \<Rightarrow> bytes" where
  "trim_left cs s = (case strip_one cs s of None \<Rightarrow> s | Some s' \<Rightarrow> trim_left cs s')"
  by pat_completeness auto
termination
  by (relation "measure (length \<circ> snd)") (auto dest: strip_one_shorter)

declare trim_left.simps [simp del]

definition TrimSpace :: "bytes \<Rightarrow> bytes" where
  "TrimSpace s = rev (trim_left (map rev white_space) (rev (trim_left white_space s)))"

lemma trim_left_suffix: "\<exists>pre. s = pre @ trim_left cs s"
proof (induction cs s rule: trim_left.induct)
  case (1 cs s)
  show ?case
  proof (cases "strip_one cs s")
    case None
    then show ?thesis by (simp add: trim_left.simps)
  next
    case (Some s')
    then have "\<exists>c. s = c @ s'"
      by (auto simp: strip_one_def dest!: find_SomeD) (metis append_take_drop_id)
    with 1[OF Some] Some show ?thesis
      by (metis append.assoc trim_left.simps option.simps(5))
  qed
qed

lemma TrimSpace_within: "\<exists>pre post. s = pre @ TrimSpace s @ post"
proof -
  obtain pre where pre: "s = pre @ trim_left white_space s" using trim_left_suffix by blast
  obtain q where "rev (trim_left white_space s) =
      q @ trim_left (map rev white_space) (rev (trim_left white_space s))"
    using trim_left_suffix by blast
  then have "trim_left white_space s = TrimSpace s @ rev q"
    by (metis TrimSpace_def rev_append rev_rev_ident)
  with pre show ?thesis by metis
qed

text \<open>
  \<^verbatim>\<open>strings.EqualFold\<close> against a text of ASCII characters without \<^verbatim>\<open>k\<close> and \<^verbatim>\<open>s\<close> (the two that
  other code points fold to) compares the lower-case forms.
\<close>

definition lower_byte :: "char \<Rightarrow> char" where
  "lower_byte b = (if CHR ''A'' \<le> b \<and> b \<le> CHR ''Z'' then char_of (of_char b + 32 :: nat) else b)"

definition EqualFold :: "bytes \<Rightarrow> bytes \<Rightarrow> bool" where
  "EqualFold s t \<longleftrightarrow> map lower_byte s = map lower_byte t"

definition HasPrefix :: "bytes \<Rightarrow> bytes \<Rightarrow> bool" where
  "HasPrefix s p \<longleftrightarrow> take (length p) s = p"

text \<open>\<^verbatim>\<open>strings.Split(s, ",")\<close>.\<close>

fun split_at :: "char \<Rightarrow> bytes \<Rightarrow> bytes list" where
  "split_at c [] = [[]]"
| "split_at c (b # bs) =
     (if b = c then [] # split_at c bs
      else case split_at c bs of [] \<Rightarrow> [[b]] | x # xs \<Rightarrow> (b # x) # xs)"

text \<open>
  \<^verbatim>\<open>strconv.ParseInt(s, 10, bits)\<close>, and \<^verbatim>\<open>Atoi\<close>, which is the same at 64 bits: an optional sign,
  then decimal digits; a value out of range is an error.
\<close>

definition is_digit :: "char \<Rightarrow> bool" where
  "is_digit c \<longleftrightarrow> CHR ''0'' \<le> c \<and> c \<le> CHR ''9''"

definition digit_val :: "char \<Rightarrow> int" where
  "digit_val c = of_char c - 48"

definition digits_val :: "bytes \<Rightarrow> int" where
  "digits_val s = foldl (\<lambda>n c. 10 * n + digit_val c) 0 s"

definition ParseInt :: "nat \<Rightarrow> bytes \<Rightarrow> int option" where
  "ParseInt bits s =
     (let neg = (take 1 s = ''-'');
          body = (if take 1 s = ''-'' \<or> take 1 s = ''+'' then drop 1 s else s);
          n = (if neg then - digits_val body else digits_val body)
      in if body = [] \<or> \<not> list_all is_digit body then None
         else if - (2 ^ (bits - 1)) \<le> n \<and> n < 2 ^ (bits - 1) then Some n
         else None)"

definition Atoi :: "bytes \<Rightarrow> int option" where
  "Atoi = ParseInt 64"

text \<open>\<^verbatim>\<open>%d\<close>.\<close>

fun show_nat :: "nat \<Rightarrow> bytes" where
  "show_nat n = (if n < 10 then [char_of (n + 48)] else show_nat (n div 10) @ [char_of (n mod 10 + 48)])"

declare show_nat.simps [simp del]

definition show_int :: "int \<Rightarrow> bytes" where
  "show_int n = (if n < 0 then ''-'' @ show_nat (nat (- n)) else show_nat (nat n))"

lemma of_char_int: "(of_char c :: int) = int (of_char c)"
  by (simp add: of_char_def)

lemma digit_val_of: "n < 10 \<Longrightarrow> digit_val (char_of (n + 48 :: nat)) = int n"
  by (simp add: digit_val_def of_char_int)

lemma digits_val_show: "digits_val (show_nat n) = int n"
proof (induction n rule: less_induct)
  case (less n)
  show ?case
  proof (cases "n < 10")
    case True
    then show ?thesis by (simp add: show_nat.simps[of n] digits_val_def digit_val_of)
  next
    case False
    then have "digits_val (show_nat (n div 10)) = int (n div 10)" by (intro less) simp
    moreover have "digit_val (char_of (n mod 10 + 48)) = int (n mod 10)" by (intro digit_val_of) simp
    moreover have "int n = 10 * int (n div 10) + int (n mod 10)" by presburger
    ultimately show ?thesis
      using False by (simp add: show_nat.simps[of n] digits_val_def)
  qed
qed

text \<open>\<^verbatim>\<open>hex.EncodeToString\<close>.\<close>

definition hex_digit :: "nat \<Rightarrow> char" where
  "hex_digit n = (if n < 10 then char_of (n + 48) else char_of (n + 87))"

definition hex_encode :: "bytes \<Rightarrow> bytes" where
  "hex_encode s =
     concat (map (\<lambda>c. [hex_digit (of_char c div 16), hex_digit (of_char c mod 16)]) s)"

lemma char_eq_iff_code: "c = d \<longleftrightarrow> (of_char c :: nat) = of_char d"
  by simp

lemma hex_digit_inject: "m < 16 \<Longrightarrow> n < 16 \<Longrightarrow> hex_digit m = hex_digit n \<longleftrightarrow> m = n"
  unfolding char_eq_iff_code by (auto simp: hex_digit_def of_char_of)

lemma hex_pair_inject:
  "hex_digit (of_char c div 16) = hex_digit (of_char d div 16) \<and>
   hex_digit (of_char c mod 16) = hex_digit (of_char d mod 16) \<longleftrightarrow> c = d"
proof -
  have "(of_char x :: nat) < 256" for x :: char
    by (metis of_char_mod_256 mod_less_divisor zero_less_numeral)
  then have "(of_char c :: nat) div 16 < 16" "(of_char d :: nat) div 16 < 16"
    by (auto simp: less_mult_imp_div_less)
  then have "?thesis \<longleftrightarrow> ((of_char c :: nat) div 16 = of_char d div 16 \<and>
      (of_char c :: nat) mod 16 = of_char d mod 16 \<longleftrightarrow> c = d)"
    by (simp add: hex_digit_inject)
  then show ?thesis by (metis char_eq_iff_code div_mult_mod_eq)
qed

lemma hex_encode_Nil [simp]: "hex_encode [] = []"
  by (simp add: hex_encode_def)

lemma hex_encode_Cons:
  "hex_encode (c # s) = hex_digit (of_char c div 16) # hex_digit (of_char c mod 16) # hex_encode s"
  by (simp add: hex_encode_def)

lemma hex_encode_inject [simp]: "hex_encode s = hex_encode t \<longleftrightarrow> s = t"
proof (induction s arbitrary: t)
  case Nil
  then show ?case by (cases t) (simp_all add: hex_encode_Cons)
next
  case (Cons c s)
  show ?case
  proof (cases t)
    case Nil
    then show ?thesis by (simp add: hex_encode_Cons)
  next
    case (Cons d t')
    have "hex_encode (c # s) = hex_encode t \<longleftrightarrow> c = d \<and> hex_encode s = hex_encode t'"
      unfolding Cons hex_encode_Cons list.inject hex_pair_inject [symmetric, of c d] by blast
    with Cons Cons.IH show ?thesis by simp
  qed
qed

lemma length_hex_encode [simp]: "length (hex_encode s) = 2 * length s"
  by (induction s) (simp_all add: hex_encode_Cons)

section \<open>What other libraries provide\<close>

text \<open>
  The decoded request bodies, as \<^verbatim>\<open>ShouldBindJSON\<close> fills them: absent fields are zero values.
\<close>

record create_request =
  cq_amount :: int64
  cq_currency :: string
  cq_metadata :: bytes
  cq_escrow :: bool
  cq_payee :: string
  cq_fee :: "int64 option"

record card_request =
  cd_number :: string
  cd_exp_month :: int
  cd_exp_year :: int
  cd_cvc :: string

text \<open>
  \<open>lb_parse keys now token\<close> is \<^verbatim>\<open>jwt.Parse\<close>: the claims of a token that is valid now, where
  \<open>keys\<close> maps the algorithm its header names to the key to check it with. \<open>lb_url\<close> is
  \<^verbatim>\<open>url.Parse\<close>, as scheme and host. \<open>lb_getenv\<close> gives the empty text for an unset variable;
  \<open>lb_docs\<close> and \<open>lb_openapi\<close> are the two embedded documents.
\<close>

record lib =
  lb_sha256 :: "bytes \<Rightarrow> bytes"
  lb_hmac :: "bytes \<Rightarrow> bytes \<Rightarrow> bytes"
  lb_render :: "json \<Rightarrow> bytes"
  lb_uuid :: "string \<Rightarrow> uuid option"
  lb_uuid_text :: "uuid \<Rightarrow> string"
  lb_create :: "bytes \<Rightarrow> create_request option"
  lb_confirm :: "bytes \<Rightarrow> string option"
  lb_refund :: "bytes \<Rightarrow> int64 option"
  lb_card :: "bytes \<Rightarrow> card_request option"
  lb_login :: "bytes \<Rightarrow> (string \<times> string) option"
  lb_refresh :: "bytes \<Rightarrow> string option"
  lb_endpoint :: "bytes \<Rightarrow> (string \<times> string) option"
  lb_bcrypt :: "string \<Rightarrow> string \<Rightarrow> bool"
  lb_bcrypt_hash :: "string \<Rightarrow> string option"
  lb_sign :: "bytes \<Rightarrow> (string \<times> json) list \<Rightarrow> string option"
  lb_parse :: "(string \<Rightarrow> bytes option) \<Rightarrow> time \<Rightarrow> string \<Rightarrow> (string \<times> json) list option"
  lb_url :: "string \<Rightarrow> (string \<times> string) option"
  lb_getenv :: "string \<Rightarrow> string"
  lb_duration :: "string \<Rightarrow> time option"
  lb_docs :: bytes
  lb_openapi :: bytes

section \<open>Requests, responses, handlers\<close>

text \<open>
  A body is absent, or the bytes that arrive and whether reading then fails instead of ending.
\<close>

datatype body = NoBody | Body bytes bool

record request =
  rq_method :: string
  rq_path :: "string list"
  rq_uri :: string
  rq_header :: "string \<Rightarrow> string"
  rq_query :: "string \<Rightarrow> string"
  rq_body :: body

text \<open>A response body: none, a document to be rendered, or stored bytes.\<close>

datatype payload = Empty | Doc json | Stored bytes

record response =
  rs_status :: int
  rs_headers :: "(string \<times> string) list"
  rs_body :: payload

definition payload_bytes :: "lib \<Rightarrow> payload \<Rightarrow> bytes" where
  "payload_bytes L p = (case p of Empty \<Rightarrow> [] | Doc j \<Rightarrow> lb_render L j | Stored b \<Rightarrow> b)"

datatype outcome = Answer response | Panic

text \<open>The request-scoped values: who is authenticated, with what, and the \<^verbatim>\<open>:id\<close> of the path.\<close>

record ctx =
  cx_merchant :: "uuid option"
  cx_kind :: "string option"
  cx_param :: string

type_synonym handler = "ctx \<Rightarrow> request \<Rightarrow> world \<Rightarrow> outcome \<times> world"

definition no_ctx :: ctx where
  "no_ctx = \<lparr>cx_merchant = None, cx_kind = None, cx_param = []\<rparr>"

definition setAuth :: "ctx \<Rightarrow> uuid \<Rightarrow> string \<Rightarrow> ctx" where
  "setAuth c merchantID kind = c\<lparr>cx_merchant := Some merchantID, cx_kind := Some kind\<rparr>"

definition MerchantID :: "ctx \<Rightarrow> uuid option" where
  "MerchantID c = cx_merchant c"

definition KeyKind :: "ctx \<Rightarrow> string option" where
  "KeyKind c = cx_kind c"

definition respond :: "int \<Rightarrow> payload \<Rightarrow> outcome" where
  "respond status b = Answer \<lparr>rs_status = status, rs_headers = [], rs_body = b\<rparr>"

definition errTypeInvalidRequest :: string where "errTypeInvalidRequest = ''invalid_request_error''"
definition errTypeAuth :: string where "errTypeAuth = ''authentication_error''"
definition errTypeIdempotency :: string where "errTypeIdempotency = ''idempotency_error''"
definition errTypeNotFound :: string where "errTypeNotFound = ''not_found_error''"
definition errTypeAPI :: string where "errTypeAPI = ''api_error''"

definition apiError :: "string \<Rightarrow> string \<Rightarrow> string \<Rightarrow> string \<Rightarrow> json" where
  "apiError typ code msg param =
     JObj ([(''type'', JStr typ), (''code'', JStr code), (''message'', JStr msg)] @
       (if param = [] then [] else [(''param'', JStr param)]))"

definition respondError :: "int \<Rightarrow> string \<Rightarrow> string \<Rightarrow> string \<Rightarrow> string \<Rightarrow> outcome" where
  "respondError status typ code msg param =
     respond status (Doc (JObj [(''error'', apiError typ code msg param)]))"

text \<open>The guard every handler opens with.\<close>

definition with_merchant :: "string \<Rightarrow> ctx \<Rightarrow> (uuid \<Rightarrow> world \<Rightarrow> outcome \<times> world) \<Rightarrow> world \<Rightarrow> outcome \<times> world"
  where
  "with_merchant msg c k w =
     (case MerchantID c of
        None \<Rightarrow> (respondError 401 errTypeAuth ''authentication_required'' msg [], w)
      | Some m \<Rightarrow> k m w)"

definition status_of :: "outcome \<Rightarrow> int" where
  "status_of out = (case out of Answer r \<Rightarrow> rs_status r | Panic \<Rightarrow> 500)"

text \<open>Running one statement or operation and going on with its result.\<close>

definition and_then :: "'a io \<Rightarrow> (error + 'a \<Rightarrow> world \<Rightarrow> 'b \<times> world) \<Rightarrow> world \<Rightarrow> 'b \<times> world" where
  "and_then m k w = (case m w of (r, w') \<Rightarrow> k r w')"

definition say :: "'b \<Rightarrow> world \<Rightarrow> 'b \<times> world" where
  "say x w = (x, w)"

text \<open>The texts of the service's errors.\<close>

definition error_text :: "error \<Rightarrow> string" where
  "error_text e = (case e of
     ErrInvalidAmount \<Rightarrow> ''amount must be a positive integer in minor units''
   | ErrInvalidCurrency \<Rightarrow> ''currency must be a 3-letter ISO-4217 code''
   | ErrIntentNotFound \<Rightarrow> ''payment intent not found''
   | ErrPayeeRequired \<Rightarrow> ''an escrow intent requires a payee''
   | ErrInvalidFee \<Rightarrow> ''application_fee must be between 0 and the amount''
   | ErrInvalidState \<Rightarrow> ''payment intent is not in a state that allows this operation''
   | ErrBankUnavailable \<Rightarrow> ''the bank could not be reached in time; the outcome is unknown''
   | ErrBankDeclined \<Rightarrow> ''the bank declined the operation''
   | ErrRefundExceedsCapture \<Rightarrow> ''refund amount exceeds the captured amount''
   | ErrPartialRefundBeforeSettle \<Rightarrow> ''a partial refund is only allowed after the intent has settled; refund in full or wait for settlement''
   | ErrPartialEscrowRefund \<Rightarrow> ''a partial refund from escrow is not supported; refund the full amount''
   | _ \<Rightarrow> [])"

text \<open>\<^verbatim>\<open>c.ShouldBindJSON\<close>: the decoder stops at the end of the first JSON value.\<close>

definition bind_body :: "(bytes \<Rightarrow> 'r option) \<Rightarrow> request \<Rightarrow> 'r option" where
  "bind_body dec rq = (case rq_body rq of NoBody \<Rightarrow> None | Body b broken \<Rightarrow> dec b)"

section \<open>A concrete library\<close>

text \<open>
  One instance of \<open>lib\<close>, to run examples with: texts of numbers are decimal, digests are the
  text itself, no body decodes and nothing is set. Examples override what they need.
\<close>

definition plain_lib :: lib where
  "plain_lib =
     \<lparr>lb_sha256 = (\<lambda>b. b), lb_hmac = (\<lambda>k b. k @ b), lb_render = (\<lambda>j. ''{}''),
      lb_uuid = (\<lambda>s. Some (word_of_int (digits_val s))), lb_uuid_text = (\<lambda>u. show_nat (unat u)),
      lb_create = (\<lambda>b. None), lb_confirm = (\<lambda>b. None), lb_refund = (\<lambda>b. None),
      lb_card = (\<lambda>b. None), lb_login = (\<lambda>b. None), lb_refresh = (\<lambda>b. None),
      lb_endpoint = (\<lambda>b. None), lb_bcrypt = (\<lambda>h p. h = p), lb_bcrypt_hash = Some,
      lb_sign = (\<lambda>k cs. None), lb_parse = (\<lambda>keys t s. None), lb_url = (\<lambda>s. None),
      lb_getenv = (\<lambda>s. []), lb_duration = (\<lambda>s. None),
      lb_docs = [], lb_openapi = []\<rparr>"

definition plain_request :: request where
  "plain_request = \<lparr>rq_method = ''POST'', rq_path = [], rq_uri = ''/'', rq_header = (\<lambda>h. []),
     rq_query = (\<lambda>k. []), rq_body = Body [] False\<rparr>"

text \<open>A world in which nothing fails and identifiers are drawn in order.\<close>

definition blank_world :: "db \<Rightarrow> world" where
  "blank_world d = \<lparr>tables = d, tx_open = None, clock = 0, rng = (\<lambda>n. word_of_nat (Suc n)), rpos = 0,
     faults = (\<lambda>_. NoFault), fpos = 0\<rparr>"

text \<open>A database that works, between transactions, and one statement on it.\<close>

definition works :: "world \<Rightarrow> bool" where
  "works w \<longleftrightarrow> tx_open w = None \<and> (\<forall>n. faults w n = NoFault)"

lemma run_works:
  "works w \<Longrightarrow> run f w =
     (case f (rng w (rpos w)) (clock w) (tables w) of
        Inl e \<Rightarrow> (Inl e, w\<lparr>fpos := Suc (fpos w), rpos := Suc (rpos w)\<rparr>)
      | Inr (x, d) \<Rightarrow> (Inr x, w\<lparr>fpos := Suc (fpos w), rpos := Suc (rpos w), tables := d\<rparr>))"
  by (auto simp: run_def Let_def works_def split: sum.splits)

end
