(* ===== verification/Access.thy ===== *)
theory Access
  imports Http "HOL-Library.Countable"
begin

text \<open>
  Who is calling: API keys (\<^verbatim>\<open>internal/apikey/apikey.go\<close>), the middleware that resolves a
  credential to a merchant (\<^verbatim>\<open>middleware_auth.go\<close>, \<^verbatim>\<open>publishableOnly\<close> of \<^verbatim>\<open>tokens.go\<close>) and portal
  sessions (\<^verbatim>\<open>session.go\<close>). A middleware aborts with an answer or goes on with a context.
\<close>

section \<open>API keys\<close>

definition PrefixLen :: nat where "PrefixLen = 16"

definition Prefix :: "string \<Rightarrow> string" where
  "Prefix token = (if length token < PrefixLen then token else take PrefixLen token)"

definition Hash :: "lib \<Rightarrow> string \<Rightarrow> string" where
  "Hash L token = hex_encode (lb_sha256 L token)"

definition Equal :: "string \<Rightarrow> string \<Rightarrow> bool" where
  "Equal hashA hashB \<longleftrightarrow> hashA = hashB"

fun first_match :: "string \<Rightarrow> api_key list \<Rightarrow> (uuid \<times> string) option" where
  "first_match hash [] = None"
| "first_match hash (k # ks) =
     (if Equal (ak_hash k) hash then Some (ak_merchant k, ak_kind k) else first_match hash ks)"

text \<open>\<open>Inr None\<close> is \<^verbatim>\<open>errNoKeyMatch\<close>.\<close>

definition lookupAPIKey :: "lib \<Rightarrow> string \<Rightarrow> (uuid \<times> string) option io" where
  "lookupAPIKey L token =
     bnd (run (GetKeysByPrefix (Prefix token))) (\<lambda>candidates.
     ret (first_match (Hash L token) candidates))"

section \<open>Middleware\<close>

type_synonym middleware = "ctx \<Rightarrow> request \<Rightarrow> world \<Rightarrow> (outcome + ctx) \<times> world"

definition guarded :: "middleware \<Rightarrow> handler \<Rightarrow> handler" where
  "guarded m h c rq w =
     (case m c rq w of (Inl out, w') \<Rightarrow> (out, w') | (Inr c', w') \<Rightarrow> h c' rq w')"

definition bearerToken :: "request \<Rightarrow> string option" where
  "bearerToken rq =
     (let h = rq_header rq ''Authorization'' in
      if h = [] then None
      else if length h \<le> length ''bearer '' \<or> \<not> EqualFold (take (length ''bearer '') h) ''bearer ''
      then None
      else let token = TrimSpace (drop (length ''bearer '') h)
           in if token = [] then None else Some token)"

text \<open>The part that \<^verbatim>\<open>apiKeyAuth\<close> and \<^verbatim>\<open>authAny\<close> share.\<close>

definition key_auth :: "lib \<Rightarrow> string \<Rightarrow> ctx \<Rightarrow> world \<Rightarrow> (outcome + ctx) \<times> world" where
  "key_auth L token c = and_then (lookupAPIKey L token) (\<lambda>r. say
     (case r of
        Inr None \<Rightarrow> Inl (respondError 401 errTypeAuth ''invalid_api_key''
          ''the provided API key is invalid or has been revoked'' [])
      | Inl e \<Rightarrow> Inl (respondError 500 errTypeAPI ''auth_lookup_failed''
          ''could not verify the API key'' [])
      | Inr (Some (m, kind)) \<Rightarrow> Inr (setAuth c m kind)))"

definition apiKeyAuth :: "lib \<Rightarrow> middleware" where
  "apiKeyAuth L c rq w =
     (case bearerToken rq of
        None \<Rightarrow> (Inl (respondError 401 errTypeAuth ''missing_api_key''
          (''provide your API key as '' @ [CHR 0x27] @ ''Authorization: Bearer <key>'' @ [CHR 0x27]) []), w)
      | Some token \<Rightarrow> key_auth L token c w)"

definition require_kind :: "string \<Rightarrow> string \<Rightarrow> string \<Rightarrow> middleware" where
  "require_kind wanted code msg c rq w =
     (case KeyKind c of
        None \<Rightarrow> (Inl (respondError 401 errTypeAuth ''authentication_required''
          ''authentication is required for this request'' []), w)
      | Some kind \<Rightarrow>
          if kind \<noteq> wanted then (Inl (respondError 403 errTypeAuth code msg []), w)
          else (Inr c, w))"

definition secretOnly :: middleware where
  "secretOnly = require_kind ''secret'' ''secret_key_required''
     ''this endpoint requires a secret API key; a publishable key cannot be used''"

definition publishableOnly :: middleware where
  "publishableOnly = require_kind ''publishable'' ''publishable_key_required''
     ''this endpoint must be called with a publishable key; a secret key must never be exposed to a browser''"

section \<open>Sessions\<close>

record session =
  sn_secret :: bytes
  sn_ttl :: time
  sn_refresh_ttl :: time

definition jwtSecret :: "lib \<Rightarrow> string" where
  "jwtSecret L =
     (let v = lb_getenv L ''NEMPAY_JWT_SECRET''
      in if v \<noteq> [] then v else ''dev-only-insecure-jwt-secret-change-me'')"

definition duration_or :: "lib \<Rightarrow> string \<Rightarrow> time \<Rightarrow> time" where
  "duration_or L name dflt =
     (let v = lb_getenv L name
      in if v \<noteq> [] then (case lb_duration L v of Some d \<Rightarrow> d | None \<Rightarrow> dflt) else dflt)"

definition jwtTTL :: "lib \<Rightarrow> time" where
  "jwtTTL L = duration_or L ''NEMPAY_JWT_TTL'' (seconds (15 * 60))"

definition jwtRefreshTTL :: "lib \<Rightarrow> time" where
  "jwtRefreshTTL L = duration_or L ''NEMPAY_JWT_REFRESH_TTL'' (seconds (12 * 3600))"

definition newSessionHandler :: "lib \<Rightarrow> session" where
  "newSessionHandler L =
     \<lparr>sn_secret = jwtSecret L, sn_ttl = jwtTTL L, sn_refresh_ttl = jwtRefreshTTL L\<rparr>"

definition unix :: "time \<Rightarrow> int" where
  "unix t = t div 1000000"

definition session_claims :: "string \<Rightarrow> string \<Rightarrow> int \<Rightarrow> int \<Rightarrow> (string \<times> json) list" where
  "session_claims mid typ iat expires =
     [(''merchant_id'', JStr mid), (''typ'', JStr typ), (''iat'', JInt iat), (''exp'', JInt expires)]"

text \<open>The token and its expiry; \<open>None\<close> when signing fails.\<close>

definition issue :: "lib \<Rightarrow> session \<Rightarrow> uuid \<Rightarrow> string \<Rightarrow> time \<Rightarrow> time \<Rightarrow> (string \<times> time) option" where
  "issue L sn merchantID typ ttl now =
     (let expiry = now + ttl;
          claims = session_claims (lb_uuid_text L merchantID) typ (unix now) (unix expiry)
      in map_option (\<lambda>signed. (signed, expiry)) (lb_sign L (sn_secret sn) claims))"

definition issueToken :: "lib \<Rightarrow> session \<Rightarrow> uuid \<Rightarrow> time \<Rightarrow> (string \<times> time) option" where
  "issueToken L sn merchantID now = issue L sn merchantID ''access'' (sn_ttl sn) now"

definition issueRefreshToken :: "lib \<Rightarrow> session \<Rightarrow> uuid \<Rightarrow> time \<Rightarrow> string option" where
  "issueRefreshToken L sn merchantID now =
     map_option fst (issue L sn merchantID ''refresh'' (sn_refresh_ttl sn) now)"

text \<open>The key function accepts the HMAC family only.\<close>

definition hmac_key :: "session \<Rightarrow> string \<Rightarrow> bytes option" where
  "hmac_key sn alg = (if alg \<in> {''HS256'', ''HS384'', ''HS512''} then Some (sn_secret sn) else None)"

definition claim_text :: "(string \<times> json) list \<Rightarrow> string \<Rightarrow> string option" where
  "claim_text claims k = (case map_of claims k of Some (JStr s) \<Rightarrow> Some s | _ \<Rightarrow> None)"

definition parseToken :: "lib \<Rightarrow> session \<Rightarrow> time \<Rightarrow> string \<Rightarrow> (uuid \<times> string) option" where
  "parseToken L sn now token =
     (case lb_parse L (hmac_key sn) now token of
        None \<Rightarrow> None
      | Some claims \<Rightarrow>
          (case claim_text claims ''merchant_id'' of
             None \<Rightarrow> None
           | Some mid \<Rightarrow>
               let typ = (case claim_text claims ''typ'' of None \<Rightarrow> [] | Some t \<Rightarrow> t)
               in map_option (\<lambda>m. (m, typ)) (lb_uuid L mid)))"

definition verify_typ :: "string \<Rightarrow> lib \<Rightarrow> session \<Rightarrow> time \<Rightarrow> string \<Rightarrow> uuid option" where
  "verify_typ wanted L sn now token =
     (case parseToken L sn now token of
        None \<Rightarrow> None
      | Some (m, typ) \<Rightarrow> if typ \<noteq> wanted then None else Some m)"

definition verifyToken :: "lib \<Rightarrow> session \<Rightarrow> time \<Rightarrow> string \<Rightarrow> uuid option" where
  "verifyToken = verify_typ ''access''"

definition verifyRefresh :: "lib \<Rightarrow> session \<Rightarrow> time \<Rightarrow> string \<Rightarrow> uuid option" where
  "verifyRefresh = verify_typ ''refresh''"

definition authAny :: "lib \<Rightarrow> session \<Rightarrow> middleware" where
  "authAny L sn c rq w =
     (case bearerToken rq of
        None \<Rightarrow> (Inl (respondError 401 errTypeAuth ''missing_credentials''
          (''provide an API key or a session token as '' @ [CHR 0x27] @
            ''Authorization: Bearer <token>'' @ [CHR 0x27]) []), w)
      | Some token \<Rightarrow>
          if HasPrefix token ''pk_'' \<or> HasPrefix token ''sk_'' then key_auth L token c w
          else case verifyToken L sn (clock w) token of
            None \<Rightarrow> (Inl (respondError 401 errTypeAuth ''invalid_session''
              ''your session is invalid or has expired'' []), w)
          | Some m \<Rightarrow> (Inr (setAuth c m ''session''), w))"

definition invalidCredentials :: outcome where
  "invalidCredentials = respondError 401 errTypeAuth ''invalid_credentials''
     ''the email or password is incorrect'' []"

definition token_error :: outcome where
  "token_error = respondError 500 errTypeAPI ''token_error'' ''could not issue a session'' []"

definition login :: "lib \<Rightarrow> session \<Rightarrow> handler" where
  "login L sn c rq w =
     (case bind_body (lb_login L) rq of
        None \<Rightarrow> (respondError 400 errTypeInvalidRequest ''invalid_body''
                 ''email and password are required'' [], w)
      | Some (email, password) \<Rightarrow>
          if email = [] \<or> password = []
          then (respondError 400 errTypeInvalidRequest ''invalid_body''
                  ''email and password are required'' [], w)
          else and_then (run (GetUserByEmail email)) (\<lambda>r w.
            case r of
              Inl e \<Rightarrow>
                if e = PgNoRows then (invalidCredentials, w)
                else (respondError 500 errTypeAPI ''auth_lookup_failed''
                        ''could not verify credentials'' [], w)
            | Inr u \<Rightarrow>
                if \<not> lb_bcrypt L (us_hash u) password then (invalidCredentials, w)
                else case issueToken L sn (us_merchant u) (clock w) of
                  None \<Rightarrow> (token_error, w)
                | Some (token, expiry) \<Rightarrow>
                    (case issueRefreshToken L sn (us_merchant u) (clock w) of
                       None \<Rightarrow> (token_error, w)
                     | Some refresh \<Rightarrow>
                         and_then (run (GetMerchant (us_merchant u))) (\<lambda>r.
                           say (case r of
                             Inl e \<Rightarrow> respondError 500 errTypeAPI ''merchant_lookup_failed''
                               ''could not load the merchant'' []
                           | Inr m \<Rightarrow> respond 200 (Doc (JObj
                               [(''expires_at'', JTime expiry),
                                (''merchant'', JObj [(''id'', JUuid (me_id m)),
                                                     (''name'', JStr (me_name m))]),
                                (''refresh_token'', JStr refresh),
                                (''token'', JStr token)])))) w)) w)"

definition refresh :: "lib \<Rightarrow> session \<Rightarrow> handler" where
  "refresh L sn c rq w =
     (let bad = respondError 400 errTypeInvalidRequest ''invalid_body''
                  ''a refresh_token is required'' [] in
      case bind_body (lb_refresh L) rq of
        None \<Rightarrow> (bad, w)
      | Some token \<Rightarrow>
          if token = [] then (bad, w)
          else case verifyRefresh L sn (clock w) token of
            None \<Rightarrow> (respondError 401 errTypeAuth ''invalid_refresh''
                     ''the refresh token is invalid or has expired'' [], w)
          | Some m \<Rightarrow>
              (case issueToken L sn m (clock w) of
                 None \<Rightarrow> (token_error, w)
               | Some (token', expiry) \<Rightarrow>
                   (respond 200 (Doc (JObj [(''expires_at'', JTime expiry),
                                            (''token'', JStr token')])), w)))"

section \<open>What a key opens\<close>

lemma run_get:
  assumes "\<And>u now. f u now (tables w) = Inr (x, tables w)"
  shows "tables (snd (run f w)) = tables w" and "clock (snd (run f w)) = clock w"
    and "fst (run f w) = (if faults w (fpos w) = NoFault then Inr x else Inl PgConnection)"
  using assms by (auto simp: run_def Let_def split: fault.splits)

lemma first_match_find:
  "first_match h ks = map_option (\<lambda>k. (ak_merchant k, ak_kind k)) (find (\<lambda>k. ak_hash k = h) ks)"
  by (induction ks) (auto simp: Equal_def)

lemma find_filter: "find P (filter Q xs) = find (\<lambda>x. Q x \<and> P x) xs"
  by (induction xs) auto

definition opens_with :: "lib \<Rightarrow> string \<Rightarrow> api_key \<Rightarrow> bool" where
  "opens_with L token k \<longleftrightarrow>
     ak_prefix k = Prefix token \<and> ak_revoked k = None \<and> ak_hash k = Hash L token"

lemma lookup_exact:
  "tables (snd (lookupAPIKey L token w)) = tables w"
  "clock (snd (lookupAPIKey L token w)) = clock w"
  "fst (lookupAPIKey L token w) =
     (if faults w (fpos w) = NoFault
      then Inr (map_option (\<lambda>k. (ak_merchant k, ak_kind k))
             (find (opens_with L token) (t_api_keys (tables w))))
      else Inl PgConnection)"
proof -
  let ?f = "GetKeysByPrefix (Prefix token)"
  let ?ks = "filter (\<lambda>k. ak_prefix k = Prefix token \<and> ak_revoked k = None) (t_api_keys (tables w))"
  have "?f u now (tables w) = Inr (?ks, tables w)" for u now by (simp add: GetKeysByPrefix_def)
  note g = run_get[where f = ?f, OF this]
  have "find (opens_with L token) ks = find (\<lambda>k. ak_hash k = Hash L token)
      (filter (\<lambda>k. ak_prefix k = Prefix token \<and> ak_revoked k = None) ks)" for ks
    by (simp add: find_filter opens_with_def[abs_def] conj_assoc)
  with g show "tables (snd (lookupAPIKey L token w)) = tables w"
    "clock (snd (lookupAPIKey L token w)) = clock w"
    "fst (lookupAPIKey L token w) =
       (if faults w (fpos w) = NoFault
        then Inr (map_option (\<lambda>k. (ak_merchant k, ak_kind k))
               (find (opens_with L token) (t_api_keys (tables w))))
        else Inl PgConnection)"
    by (auto simp: lookupAPIKey_def bnd_def ret_def first_match_find
        split: prod.splits sum.splits if_splits)
qed

text \<open>
  \<^verbatim>\<open>GetKeysByPrefix\<close> promises no order of its rows (\<open>GetKeysByPrefix\<close> gives them in the order of
  insertion); none matters as long as no token has two live key rows that differ in merchant or kind.
\<close>

lemma lookup_any_order:
  assumes "set ks' = set ks"
    and "\<forall>k \<in> set ks. \<forall>k' \<in> set ks. opens_with L token k \<longrightarrow> opens_with L token k' \<longrightarrow>
      ak_merchant k = ak_merchant k' \<and> ak_kind k = ak_kind k'"
  shows "map_option (\<lambda>k. (ak_merchant k, ak_kind k)) (find (opens_with L token) ks') =
    map_option (\<lambda>k. (ak_merchant k, ak_kind k)) (find (opens_with L token) ks)"
proof (cases "find (opens_with L token) ks")
  case None
  then have "find (opens_with L token) ks' = None" using assms(1) by (simp add: find_None_iff)
  with None show ?thesis by simp
next
  case (Some k)
  then have k: "k \<in> set ks" "opens_with L token k" by (auto dest!: find_SomeD)
  then obtain k' where k': "find (opens_with L token) ks' = Some k'"
    using assms(1) by (cases "find (opens_with L token) ks'") (auto simp: find_None_iff)
  then have "k' \<in> set ks" "opens_with L token k'" using assms(1) by (auto dest!: find_SomeD)
  with k assms(2) have "ak_merchant k' = ak_merchant k" "ak_kind k' = ak_kind k" by blast+
  with Some k' show ?thesis by simp
qed

text \<open>C28: An API key opens the gateway for exactly the merchant and the kind on the first key row
  that is not revoked and carries the token's prefix and digest (which row is first matters only where
  two of them differ: \<open>lookup_any_order\<close>); every other token is refused, a failing lookup refuses too, and
  authentication writes nothing.\<close>

theorem api_key_exact:
  "tables (snd (apiKeyAuth L c rq w)) = tables w \<and>
   fst (apiKeyAuth L c rq w) =
     (case bearerToken rq of
        None \<Rightarrow> Inl (respondError 401 errTypeAuth ''missing_api_key''
          (''provide your API key as '' @ [CHR 0x27] @ ''Authorization: Bearer <key>'' @ [CHR 0x27]) [])
      | Some token \<Rightarrow>
          if faults w (fpos w) = NoFault
          then case find (opens_with L token) (t_api_keys (tables w)) of
              None \<Rightarrow> Inl (respondError 401 errTypeAuth ''invalid_api_key''
                ''the provided API key is invalid or has been revoked'' [])
            | Some k \<Rightarrow> Inr (c\<lparr>cx_merchant := Some (ak_merchant k), cx_kind := Some (ak_kind k)\<rparr>)
          else Inl (respondError 500 errTypeAPI ''auth_lookup_failed''
                 ''could not verify the API key'' []))"
proof (cases "bearerToken rq")
  case None
  then show ?thesis by (simp add: apiKeyAuth_def)
next
  case (Some token)
  then show ?thesis
    using lookup_exact[of L token w]
    by (auto simp: apiKeyAuth_def key_auth_def and_then_def say_def setAuth_def
        split: prod.splits option.splits if_splits)
qed

section \<open>What a session opens\<close>

text \<open>
  What the code relies on of the JWT library, for the claims \<open>issue\<close> signs and no others: they have no
  \<^verbatim>\<open>nbf\<close>, their \<^verbatim>\<open>iat\<close> is not checked, and their expiry is positive (0 would mean none) and exact as
  the double JSON reads it as. A token signed with the key one checks it with then yields the two
  texts of its claims before the second \<^verbatim>\<open>exp\<close> begins, and is refused from there on. Of the
  UUID library: the text of an identifier parses to it.
\<close>

definition jwt_law :: "lib \<Rightarrow> bool" where
  "jwt_law L \<longleftrightarrow> (\<forall>key u typ iat expires tok now keys.
     typ \<in> {''access'', ''refresh''} \<longrightarrow> 0 < expires \<longrightarrow> expires < 2 ^ 53 \<longrightarrow>
     lb_sign L key (session_claims (lb_uuid_text L u) typ iat expires) = Some tok \<longrightarrow>
     keys ''HS256'' = Some key \<longrightarrow>
     (if now < seconds expires
      then \<exists>claims. lb_parse L keys now tok = Some claims \<and>
        claim_text claims ''merchant_id'' = Some (lb_uuid_text L u) \<and> claim_text claims ''typ'' = Some typ
      else lb_parse L keys now tok = None))"

definition uuid_law :: "lib \<Rightarrow> bool" where
  "uuid_law L \<longleftrightarrow> (\<forall>u. lb_uuid L (lb_uuid_text L u) = Some u)"

lemma issue_verify:
  assumes law: "jwt_law L" and names: "uuid_law L"
    and tok: "issue L sn m typ ttl t0 = Some (tok, expiry)" and purpose: "typ \<in> {''access'', ''refresh''}"
    and range: "0 < unix (t0 + ttl)" "unix (t0 + ttl) < 2 ^ 53"
  shows "verify_typ wanted L sn now tok =
      (if now < seconds (unix (t0 + ttl)) \<and> wanted = typ then Some m else None)"
proof -
  from tok have sign: "lb_sign L (sn_secret sn)
      (session_claims (lb_uuid_text L m) typ (unix t0) (unix (t0 + ttl))) = Some tok"
    by (auto simp: issue_def Let_def)
  have "hmac_key sn ''HS256'' = Some (sn_secret sn)" by (simp add: hmac_key_def)
  with law sign purpose range have parse: "if now < seconds (unix (t0 + ttl))
      then \<exists>claims. lb_parse L (hmac_key sn) now tok = Some claims \<and>
        claim_text claims ''merchant_id'' = Some (lb_uuid_text L m) \<and> claim_text claims ''typ'' = Some typ
      else lb_parse L (hmac_key sn) now tok = None"
    unfolding jwt_law_def by blast
  have "lb_uuid L (lb_uuid_text L m) = Some m" using names by (simp add: uuid_law_def)
  with parse show ?thesis
    by (auto simp: verify_typ_def parseToken_def split: if_splits)
qed

lemma login_answers:
  assumes ok: "fst (login L sn c rq w) = respond 200 (Doc (JObj doc))"
  obtains email password u token expiry refr and m :: merchant where
    "bind_body (lb_login L) rq = Some (email, password)"
    and "u \<in> set (t_users (tables w))" and "us_email u = email" and "lb_bcrypt L (us_hash u) password"
    and "issueToken L sn (us_merchant u) (clock w) = Some (token, expiry)"
    and "issueRefreshToken L sn (us_merchant u) (clock w) = Some refr"
    and "doc = [(''expires_at'', JTime expiry),
           (''merchant'', JObj [(''id'', JUuid (us_merchant u)), (''name'', JStr (me_name m))]),
           (''refresh_token'', JStr refr), (''token'', JStr token)]"
proof -
  have row: "run (GetUserByEmail email) w = (Inr u, w1) \<Longrightarrow>
      clock w1 = clock w \<and> u \<in> set (t_users (tables w)) \<and> us_email u = email" for email u w1
    by (auto simp: run_def Let_def GetUserByEmail_def one_row_def
        split: fault.splits sum.splits list.splits dest!: filter_eq_ConsD)
  have mer: "run (GetMerchant i) w1 = (Inr m, w2) \<Longrightarrow> me_id m = i" for i m w1 w2
    by (auto simp: run_def Let_def GetMerchant_def one_row_def
        split: fault.splits sum.splits list.splits dest!: filter_eq_ConsD)
  obtain email password u w1 token expiry refr m w2 where
    b: "bind_body (lb_login L) rq = Some (email, password)"
    and u: "run (GetUserByEmail email) w = (Inr u, w1)" and h: "lb_bcrypt L (us_hash u) password"
    and t: "issueToken L sn (us_merchant u) (clock w1) = Some (token, expiry)"
    and r: "issueRefreshToken L sn (us_merchant u) (clock w1) = Some refr"
    and m: "run (GetMerchant (us_merchant u)) w1 = (Inr m, w2)"
    and d: "doc = [(''expires_at'', JTime expiry),
       (''merchant'', JObj [(''id'', JUuid (me_id m)), (''name'', JStr (me_name m))]),
       (''refresh_token'', JStr refr), (''token'', JStr token)]"
    using ok
    by (auto simp: login_def and_then_def say_def respondError_def respond_def invalidCredentials_def
        token_error_def split: option.splits prod.splits sum.splits if_splits)
  show thesis
    by (rule that[of email password u token expiry refr m])
       (use b h row[OF u] mer[OF m] t r d in simp_all)
qed

text \<open>C29: A successful login names a user with that password, and its two tokens do what they are
  for and nothing else: until it expires the access token stands for the user's merchant wherever
  a session is accepted and is never accepted as a refresh token; the refresh token is accepted
  for a refresh only, until its own expiry; afterwards both are dead. The lifetimes are such that
  both expire after 1970 and before the second 2^53.\<close>

theorem session_roundtrip:
  assumes "jwt_law L" and "uuid_law L"
    and "fst (login L sn c rq w) = respond 200 (Doc (JObj doc))"
    and "0 < unix (clock w + sn_ttl sn)" and "unix (clock w + sn_ttl sn) < 2 ^ 53"
    and "0 < unix (clock w + sn_refresh_ttl sn)" and "unix (clock w + sn_refresh_ttl sn) < 2 ^ 53"
  shows "\<exists>email password u token refr.
    bind_body (lb_login L) rq = Some (email, password) \<and>
    u \<in> set (t_users (tables w)) \<and> us_email u = email \<and> lb_bcrypt L (us_hash u) password \<and>
    map_of doc ''token'' = Some (JStr token) \<and> map_of doc ''refresh_token'' = Some (JStr refr) \<and>
    (\<forall>now. verifyToken L sn now token =
        (if now < seconds (unix (clock w + sn_ttl sn)) then Some (us_merchant u) else None) \<and>
      verifyRefresh L sn now token = None \<and> verifyToken L sn now refr = None \<and>
      verifyRefresh L sn now refr =
        (if now < seconds (unix (clock w + sn_refresh_ttl sn)) then Some (us_merchant u) else None))"
proof (rule login_answers[OF assms(3)])
  fix email password u token expiry refr and m :: merchant
  assume u: "bind_body (lb_login L) rq = Some (email, password)" "u \<in> set (t_users (tables w))"
      "us_email u = email" "lb_bcrypt L (us_hash u) password"
    and t: "issueToken L sn (us_merchant u) (clock w) = Some (token, expiry)"
    and r: "issueRefreshToken L sn (us_merchant u) (clock w) = Some refr"
    and d: "doc = [(''expires_at'', JTime expiry),
      (''merchant'', JObj [(''id'', JUuid (us_merchant u)), (''name'', JStr (me_name m))]),
      (''refresh_token'', JStr refr), (''token'', JStr token)]"
  obtain e where r': "issue L sn (us_merchant u) ''refresh'' (sn_refresh_ttl sn) (clock w) = Some (refr, e)"
    using r by (auto simp: issueRefreshToken_def)
  note token = issue_verify[OF assms(1,2) t[unfolded issueToken_def] _ assms(4,5), simplified]
  note refr = issue_verify[OF assms(1,2) r' _ assms(6,7), simplified]
  show ?thesis
    by (rule exI[of _ email], rule exI[of _ password], rule exI[of _ u], rule exI[of _ token],
        rule exI[of _ refr])
       (use u d in \<open>simp add: verifyToken_def verifyRefresh_def token refr\<close>)
qed

text \<open>
  A signature scheme with the laws assumed above: a token spells the key and the claims, and is
  live until the second it names begins.
\<close>

definition live :: "time \<Rightarrow> (string \<times> json) list \<Rightarrow> bool" where
  "live now claims \<longleftrightarrow>
     (case map_of claims ''exp'' of Some (JInt e) \<Rightarrow> now < seconds e | _ \<Rightarrow> True)"

instance json :: countable
  by countable_datatype

definition demo_sign :: "bytes \<Rightarrow> (string \<times> json) list \<Rightarrow> string option" where
  "demo_sign key claims = Some (replicate (to_nat (key, claims)) CHR ''x'')"

definition demo_parse ::
    "(string \<Rightarrow> bytes option) \<Rightarrow> time \<Rightarrow> string \<Rightarrow> (string \<times> json) list option" where
  "demo_parse keys now token =
     (case from_nat (length token) of (key, claims) \<Rightarrow>
        if keys ''HS256'' = Some key \<and> live now claims then Some claims else None)"

definition demo_portal :: world where
  "demo_portal =
     \<lparr>tables = empty_db\<lparr>
        t_merchants := [\<lparr>me_id = 5, me_name = ''shop'', me_created = 0\<rparr>],
        t_users := [\<lparr>us_id = 1, us_merchant = 5, us_email = ''a@b'', us_hash = ''pw'',
                     us_created = 0\<rparr>]\<rparr>,
      tx_open = None, clock = 0, rng = (\<lambda>n. word_of_nat (Suc n)), rpos = 0,
      faults = (\<lambda>_. NoFault), fpos = 0\<rparr>"

definition demo_session_lib :: lib where
  "demo_session_lib = plain_lib\<lparr>lb_sign := demo_sign, lb_parse := demo_parse,
     lb_login := \<lambda>b. Some (''a@b'', ''pw'')\<rparr>"

lemma demo_login:
  "\<exists>doc. fst (login demo_session_lib (newSessionHandler demo_session_lib) no_ctx plain_request
       demo_portal) =
     respond 200 (Doc (JObj doc))"
  by (simp add: login_def bind_body_def plain_request_def demo_session_lib_def plain_lib_def
      and_then_def say_def run_def Let_def GetUserByEmail_def GetMerchant_def one_row_def demo_portal_def empty_db_def
      issueToken_def issueRefreshToken_def issue_def demo_sign_def
      respond_def)

theorem session_roundtrip_witness:
  "\<exists>token. verifyToken demo_session_lib (newSessionHandler demo_session_lib) 0 token = Some 5"
proof -
  let ?L = demo_session_lib
  have 1: "jwt_law ?L"
    by (auto simp: jwt_law_def demo_session_lib_def demo_sign_def demo_parse_def live_def
        session_claims_def claim_text_def)
  have 2: "uuid_law ?L"
    by (simp add: uuid_law_def demo_session_lib_def plain_lib_def digits_val_show)
  obtain doc where 3: "fst (login ?L (newSessionHandler ?L) no_ctx plain_request demo_portal) =
      respond 200 (Doc (JObj doc))"
    using demo_login by blast
  have ttl: "unix (clock demo_portal + sn_ttl (newSessionHandler ?L)) = 900"
      "unix (clock demo_portal + sn_refresh_ttl (newSessionHandler ?L)) = 43200"
    by (simp_all add: demo_portal_def newSessionHandler_def jwtTTL_def jwtRefreshTTL_def duration_or_def
        demo_session_lib_def plain_lib_def seconds_def unix_def)
  moreover have "us_merchant u = 5" if "u \<in> set (t_users (tables demo_portal))" for u
    using that by (simp add: demo_portal_def)
  moreover obtain u token where "u \<in> set (t_users (tables demo_portal))"
      "verifyToken ?L (newSessionHandler ?L) 0 token =
        (if 0 < seconds (unix (clock demo_portal + sn_ttl (newSessionHandler ?L)))
         then Some (us_merchant u) else None)"
    using session_roundtrip[OF 1 2 3] ttl by auto
  ultimately show ?thesis using ttl by (auto simp: seconds_def)
qed

end
