(* ===== verification/Idempotency.thy ===== *)
theory Idempotency
  imports Http
begin

text \<open>
  Insert-first idempotency: the wrapper of \<^verbatim>\<open>internal/httpapi/idempotency.go\<close> around a handler,
  and the fingerprint and the two sweeps of \<^verbatim>\<open>internal/service/idempotency.go\<close>. The wrapper is
  cut where other requests can come between: it claims the key, the handler runs, and it stores
  the answer or gives the key back.
\<close>

section \<open>Fingerprint and sweeps\<close>

definition framed_request :: "string \<Rightarrow> string \<Rightarrow> bytes \<Rightarrow> bytes" where
  "framed_request meth uri body = meth @ [CHR 0x00] @ uri @ [CHR 0x00] @ body"

definition Fingerprint :: "lib \<Rightarrow> string \<Rightarrow> string \<Rightarrow> bytes \<Rightarrow> string" where
  "Fingerprint L meth uri body = hex_encode (lb_sha256 L (framed_request meth uri body))"

definition SweepOrphanedKeys :: "time \<Rightarrow> unit io" where
  "SweepOrphanedKeys olderThan w = run (ResetOrphans (clock w - olderThan)) w"

definition ExpireCompletedKeys :: "time \<Rightarrow> unit io" where
  "ExpireCompletedKeys olderThan w = run (ExpireCompleted (clock w - olderThan)) w"

section \<open>The wrapper\<close>

definition maxBody :: nat where "maxBody = 1048576"

text \<open>The body is read up to one byte past the limit, so an error behind that is never met.\<close>

definition read_body :: "request \<Rightarrow> outcome + bytes" where
  "read_body rq =
     (case rq_body rq of
        NoBody \<Rightarrow> Inr []
      | Body b broken \<Rightarrow>
          if maxBody < length b
          then Inl (respondError 413 errTypeInvalidRequest ''body_too_large''
                 ''request body exceeds the maximum size'' [])
          else if broken
          then Inl (respondError 400 errTypeInvalidRequest ''invalid_body''
                 ''could not read the request body'' [])
          else Inr b)"

definition restored :: "request \<Rightarrow> bytes \<Rightarrow> request" where
  "restored rq b = (case rq_body rq of NoBody \<Rightarrow> rq | Body _ _ \<Rightarrow> rq\<lparr>rq_body := Body b False\<rparr>)"

definition replay :: "idempotency_key \<Rightarrow> outcome" where
  "replay r = Answer
     \<lparr>rs_status = (case ik_code r of None \<Rightarrow> 200 | Some code \<Rightarrow> sint code),
      rs_headers = [(''Idempotent-Replayed'', ''true'')],
      rs_body = (case ik_body r of None \<Rightarrow> Empty
                 | Some b \<Rightarrow> if 0 < length b then Stored b else Empty)\<rparr>"

definition replayOrConflict :: "uuid \<Rightarrow> string \<Rightarrow> string \<Rightarrow> world \<Rightarrow> outcome \<times> world" where
  "replayOrConflict merchantID key hash = and_then (run (GetByKey merchantID key)) (\<lambda>r. say
     (case r of
        Inl e \<Rightarrow> respondError 500 errTypeAPI ''idempotency_lookup_failed''
          ''could not read the idempotency key'' []
      | Inr rec \<Rightarrow>
          if ik_hash rec \<noteq> hash
          then respondError 422 errTypeIdempotency ''idempotency_key_reused''
            ''this Idempotency-Key was already used for a request with a different body'' ''Idempotency-Key''
          else if ik_status rec = ''in_flight''
          then respondError 409 errTypeIdempotency ''request_in_flight''
            ''a request with this Idempotency-Key is still being processed'' ''Idempotency-Key''
          else replay rec))"

text \<open>The claim: an answer, or the row that was inserted and the body that was read.\<close>

definition claim_phase ::
    "lib \<Rightarrow> ctx \<Rightarrow> request \<Rightarrow> world \<Rightarrow> (outcome + idempotency_key \<times> bytes) \<times> world" where
  "claim_phase L c rq w =
     (case MerchantID c of
        None \<Rightarrow> (Inl (respondError 401 errTypeAuth ''authentication_required''
                  ''authentication is required for this request'' []), w)
      | Some m \<Rightarrow>
          let key = rq_header rq ''Idempotency-Key'' in
          if key = []
          then (Inl (respondError 400 errTypeInvalidRequest ''missing_idempotency_key''
                  ''an Idempotency-Key header is required for this request'' ''Idempotency-Key''), w)
          else case read_body rq of
            Inl out \<Rightarrow> (Inl out, w)
          | Inr b \<Rightarrow>
              let hash = Fingerprint L (rq_method rq) (rq_uri rq) b in
              and_then (run (InsertInFlight m key hash)) (\<lambda>r w.
                case r of
                  Inl e \<Rightarrow>
                    if e = PgUniqueViolation
                    then (case replayOrConflict m key hash w of (out, w') \<Rightarrow> (Inl out, w'))
                    else (Inl (respondError 500 errTypeAPI ''idempotency_claim_failed''
                            ''could not record the idempotency key'' []), w)
                | Inr claim \<Rightarrow> (Inr (claim, b), w)) w)"

text \<open>
  What follows the handler. An empty answer is stored as SQL null, and the errors of the
  bookkeeping are ignored.
\<close>

definition finish_phase :: "lib \<Rightarrow> idempotency_key \<Rightarrow> outcome \<Rightarrow> world \<Rightarrow> world" where
  "finish_phase L claim out w =
     (case out of
        Panic \<Rightarrow> snd (run (DeleteKey (ik_id claim)) w)
      | Answer resp \<Rightarrow>
          if 500 \<le> rs_status resp then snd (run (DeleteKey (ik_id claim)) w)
          else let b = payload_bytes L (rs_body resp) in
            snd (run (MarkCompleted (ik_id claim) (Some (word_of_int (rs_status resp)))
                        (if b = [] then None else Some b)) w))"

definition WithIdempotency :: "lib \<Rightarrow> handler \<Rightarrow> handler" where
  "WithIdempotency L h c rq w =
     (case claim_phase L c rq w of
        (Inl out, w1) \<Rightarrow> (out, w1)
      | (Inr (claim, b), w1) \<Rightarrow>
          (case h c (restored rq b) w1 of (out, w2) \<Rightarrow> (out, finish_phase L claim out w2)))"

section \<open>The table of keys\<close>

definition slot :: "idempotency_key \<Rightarrow> uuid \<times> string" where
  "slot r = (ik_merchant r, ik_key r)"

definition keys_ok :: "db \<Rightarrow> bool" where
  "keys_ok d \<longleftrightarrow> distinct (map ik_id (t_idempotency d)) \<and> distinct (map slot (t_idempotency d)) \<and>
     (\<forall>r \<in> set (t_idempotency d). ik_status r = ''in_flight'' \<or> ik_status r = ''completed'')"

lemma slot_complete [simp]: "slot (complete_key code b r) = slot r"
  by (simp add: slot_def complete_key_def)

lemma map_slot_update:
  "map slot (update_where P (complete_key code b) rs) = map slot rs"
  by (induction rs) (auto simp: update_where_def)

lemma keys_ok_slot:
  "keys_ok d \<Longrightarrow> r \<in> set (t_idempotency d) \<Longrightarrow> r' \<in> set (t_idempotency d) \<Longrightarrow> slot r = slot r' \<Longrightarrow> r = r'"
  by (rule distinct_key_eq[of slot]) (auto simp: keys_ok_def)

lemma keys_ok_id:
  "keys_ok d \<Longrightarrow> r \<in> set (t_idempotency d) \<Longrightarrow> r' \<in> set (t_idempotency d) \<Longrightarrow> ik_id r = ik_id r' \<Longrightarrow> r = r'"
  by (rule distinct_key_eq[of ik_id]) (auto simp: keys_ok_def)

lemma distinct_map_filter': "distinct (map f xs) \<Longrightarrow> distinct (map f (filter P xs))"
  by (induction xs) auto

text \<open>One statement, whatever happens to the exchange: it took effect or it did not.\<close>

lemma run_cases:
  assumes "run f w = (r, w')"
  obtains (idle) e where "tables w' = tables w" and "r = Inl e"
    | (ran) x where "f (rng w (rpos w)) (clock w) (tables w) = Inr (x, tables w')"
        and "r = Inr x \<or> r = Inl PgConnection"
  using assms by (auto simp: run_def Let_def split: fault.splits sum.splits)

lemma keys_ok_insert:
  assumes "InsertInFlight m key hash u now d = Inr (r, d')" and "keys_ok d"
  shows "keys_ok d'" and "t_idempotency d' = t_idempotency d @ [r]" and "slot r = (m, key)"
    and "ik_status r = ''in_flight''" and "ik_hash r = hash" and "ik_locked r = now" and "ik_id r = u"
  using assms
  by (auto simp: InsertInFlight_def keys_ok_def slot_def Let_def image_iff split: if_splits)

lemma keys_ok_complete:
  assumes "MarkCompleted i code b u now d = Inr (x, d')" and "keys_ok d"
  shows "keys_ok d'"
  using assms
  by (auto simp: MarkCompleted_def keys_ok_def idem_complete.keys_update map_slot_update
      complete_key_def elim!: idem_complete.mem_updateE)

lemma keys_ok_filter: "keys_ok d \<Longrightarrow> keys_ok (d\<lparr>t_idempotency := filter P (t_idempotency d)\<rparr>)"
  by (auto simp: keys_ok_def distinct_map_filter')

lemma keys_ok_delete: "DeleteKey i u now d = Inr (x, d') \<Longrightarrow> keys_ok d \<Longrightarrow> keys_ok d'"
  by (auto simp: DeleteKey_def keys_ok_filter)

lemma keys_ok_reset: "ResetOrphans t u now d = Inr (x, d') \<Longrightarrow> keys_ok d \<Longrightarrow> keys_ok d'"
  by (auto simp: ResetOrphans_def keys_ok_filter)

lemma keys_ok_expire: "ExpireCompleted t u now d = Inr (x, d') \<Longrightarrow> keys_ok d \<Longrightarrow> keys_ok d'"
  by (auto simp: ExpireCompleted_def keys_ok_filter)

lemma run_keys_ok:
  assumes "\<And>u now d x d'. f u now d = Inr (x, d') \<Longrightarrow> keys_ok d \<Longrightarrow> keys_ok d'"
    and "keys_ok (tables w)"
  shows "keys_ok (tables (snd (run f w)))"
proof -
  obtain r w' where r: "run f w = (r, w')" by (cases "run f w")
  from r assms show ?thesis by (cases rule: run_cases[OF r]) auto
qed

lemma replay_reads: "tables (snd (replayOrConflict m key hash w)) = tables w"
proof -
  have "tables (snd (run (GetByKey m key) w)) = tables w"
    by (auto simp: run_def Let_def GetByKey_def one_row_def
        split: fault.splits sum.splits list.splits)
  then show ?thesis
    by (cases "run (GetByKey m key) w") (simp add: replayOrConflict_def and_then_def say_def)
qed

text \<open>What a claim leaves behind, whatever happens to the exchange.\<close>

lemma claim_cases:
  assumes "claim_phase L c rq w = (res, w')"
  obtains (same) out where "res = Inl out" and "tables w' = tables w"
    | (inserted) m key hash row where "MerchantID c = Some m"
        and "InsertInFlight m key hash (rng w (rpos w)) (clock w) (tables w) = Inr (row, tables w')"
        and "(\<exists>out. res = Inl out) \<or> (\<exists>b. res = Inr (row, b))"
proof (cases "\<exists>m b. MerchantID c = Some m \<and> rq_header rq ''Idempotency-Key'' \<noteq> [] \<and> read_body rq = Inr b")
  case False
  with assms have "\<exists>out. res = Inl out \<and> tables w' = tables w"
    by (auto simp: claim_phase_def Let_def split: option.splits sum.splits if_splits)
  with same show thesis by blast
next
  case True
  then obtain m b where m: "MerchantID c = Some m" "rq_header rq ''Idempotency-Key'' \<noteq> []"
      "read_body rq = Inr b" by blast
  let ?key = "rq_header rq ''Idempotency-Key''"
  let ?hash = "Fingerprint L (rq_method rq) (rq_uri rq) b"
  obtain r w1 where r: "run (InsertInFlight m ?key ?hash) w = (r, w1)"
    by (cases "run (InsertInFlight m ?key ?hash) w")
  show thesis
  proof (cases rule: run_cases[OF r])
    case (1 e)
    with assms m r have "\<exists>out. res = Inl out \<and> tables w' = tables w"
      using replay_reads[of m ?key ?hash w1]
      by (auto simp: claim_phase_def Let_def and_then_def split: prod.splits if_splits)
    with same show thesis by blast
  next
    case (2 x)
    have "tables w' = tables w1" "(\<exists>out. res = Inl out) \<or> (\<exists>b. res = Inr (x, b))"
      using assms m r 2(2) by (auto simp: claim_phase_def Let_def and_then_def)
    with 2(1) m(1) show thesis by (intro inserted) auto
  qed
qed

section \<open>Requests that race\<close>

text \<open>
  A server with many requests under way: the world, and the claims of the handlers that are
  running. Between the steps of one request any other may come; the handlers' work is any change
  of the world that leaves the table of keys alone; a process may die with its handlers; the
  sweeps run, the one over orphans under the condition its comment states: no handler has been
  running for longer than the cutoff.
\<close>

type_synonym server = "world \<times> idempotency_key list"

inductive race :: "lib \<Rightarrow> server \<Rightarrow> server \<Rightarrow> bool" for L where
  arrive: "claim_phase L c rq w = (Inl out, w') \<Longrightarrow> race L (w, running) (w', running)"
| begin_handler: "claim_phase L c rq w = (Inr (row, b), w') \<Longrightarrow>
    race L (w, running) (w', row # running)"
| work: "t_idempotency (tables w') = t_idempotency (tables w) \<Longrightarrow> race L (w, running) (w', running)"
| finish: "row \<in> set running \<Longrightarrow>
    race L (w, running) (finish_phase L row out w, remove1 row running)"
| crash: "race L (w, running) (w, [])"
| sweep: "\<forall>row \<in> set running. clock w - olderThan \<le> ik_locked row \<Longrightarrow>
    race L (w, running) (snd (SweepOrphanedKeys olderThan w), running)"
| expire: "race L (w, running) (snd (ExpireCompletedKeys olderThan w), running)"

definition race_ok :: "server \<Rightarrow> bool" where
  "race_ok s \<longleftrightarrow> keys_ok (tables (fst s)) \<and> distinct (map ik_id (snd s)) \<and>
     (\<forall>row \<in> set (snd s). row \<in> set (t_idempotency (tables (fst s))) \<and> ik_status row = ''in_flight'')"

inductive races :: "lib \<Rightarrow> server \<Rightarrow> bool" for L where
  fresh: "t_idempotency (tables w) = [] \<Longrightarrow> races L (w, [])"
| more: "races L s \<Longrightarrow> race L s s' \<Longrightarrow> races L s'"

lemma finish_keys:
  assumes "keys_ok (tables w)"
  shows "keys_ok (tables (finish_phase L row out w))"
    and "\<And>r. r \<in> set (t_idempotency (tables w)) \<Longrightarrow> ik_id r \<noteq> ik_id row \<Longrightarrow>
      r \<in> set (t_idempotency (tables (finish_phase L row out w)))"
proof -
  have "keys_ok (tables (snd (run (DeleteKey i) w)))" for i
    using keys_ok_delete assms by (rule run_keys_ok)
  moreover have "keys_ok (tables (snd (run (MarkCompleted i code b) w)))" for i code b
    using keys_ok_complete assms by (rule run_keys_ok)
  ultimately show "keys_ok (tables (finish_phase L row out w))"
    by (auto simp: finish_phase_def Let_def split: outcome.split)
  fix r assume r: "r \<in> set (t_idempotency (tables w))" "ik_id r \<noteq> ik_id row"
  have del: "r \<in> set (t_idempotency (tables (snd (run (DeleteKey (ik_id row)) w))))"
    using r by (auto simp: run_def Let_def DeleteKey_def split: fault.splits)
  have mark: "r \<in> set (t_idempotency (tables (snd (run (MarkCompleted (ik_id row) code b) w))))" for code b
    using r idem_complete.mem_update_other[of r "ik_id row"]
    by (auto simp: run_def Let_def MarkCompleted_def split: fault.splits)
  show "r \<in> set (t_idempotency (tables (finish_phase L row out w)))"
    using del mark by (auto simp: finish_phase_def Let_def split: outcome.split)
qed

lemma race_keeps:
  assumes "race_ok s" and "race L s s'"
  shows "race_ok s'"
  using assms(2,1)
proof (cases rule: race.cases)
  case (arrive c rq w out w' running)
  then show ?thesis
  proof (cases rule: claim_cases[OF arrive(3)])
    case 1
    with arrive assms(1) show ?thesis by (simp add: race_ok_def)
  next
    case (2 m key hash row)
    with arrive assms(1) keys_ok_insert(1,2)[OF 2(2)] show ?thesis by (auto simp: race_ok_def)
  qed
next
  case (begin_handler c rq w row b w' running)
  then show ?thesis
  proof (cases rule: claim_cases[OF begin_handler(3)])
    case 1
    then show ?thesis by simp
  next
    case (2 m key hash row')
    then have row: "row' = row" by auto
    have ok: "keys_ok (tables w)" using begin_handler assms(1) by (simp add: race_ok_def)
    note ins = keys_ok_insert[OF 2(2)[unfolded row] ok]
    have "ik_id row \<notin> ik_id ` set (t_idempotency (tables w))"
      using 2(2) ins(7) by (auto simp: InsertInFlight_def Let_def row split: if_splits)
    then have "ik_id row \<notin> ik_id ` set running"
      using begin_handler assms(1) by (auto simp: race_ok_def)
    with begin_handler assms(1) ins show ?thesis by (auto simp: race_ok_def)
  qed
next
  case (work w' w running)
  with assms(1) show ?thesis by (auto simp: race_ok_def keys_ok_def)
next
  case (finish row running w out)
  have ok: "keys_ok (tables w)" "distinct (map ik_id running)"
    using finish assms(1) by (auto simp: race_ok_def)
  have rest: "set (remove1 row running) = set running - {row}"
    using ok(2) by (intro set_remove1_eq) (simp add: distinct_map)
  have "ik_id r \<noteq> ik_id row" if "r \<in> set (remove1 row running)" for r
    using that finish(3) ok(2) distinct_key_eq[of ik_id running r row] by (auto simp: rest)
  moreover have "distinct (map ik_id (remove1 row running))"
    using ok(2) rest by (auto simp: distinct_map distinct_remove1 inj_on_def)
  ultimately show ?thesis
    using finish assms(1) finish_keys[OF ok(1)] by (auto simp: race_ok_def rest)
next
  case (crash w running)
  with assms(1) show ?thesis by (simp add: race_ok_def)
next
  case (sweep running w olderThan)
  have "keys_ok (tables (snd (SweepOrphanedKeys olderThan w)))"
    unfolding SweepOrphanedKeys_def
    by (rule run_keys_ok[OF keys_ok_reset]) (use sweep assms(1) in \<open>simp_all add: race_ok_def\<close>)
  with sweep assms(1) show ?thesis
    by (auto simp: race_ok_def SweepOrphanedKeys_def run_def Let_def ResetOrphans_def
        split: fault.splits)
next
  case (expire w running olderThan)
  have "keys_ok (tables (snd (ExpireCompletedKeys olderThan w)))"
    unfolding ExpireCompletedKeys_def
    by (rule run_keys_ok[OF keys_ok_expire]) (use expire assms(1) in \<open>simp_all add: race_ok_def\<close>)
  with expire assms(1) show ?thesis
    by (auto simp: race_ok_def ExpireCompletedKeys_def run_def Let_def ExpireCompleted_def
        split: fault.splits)
qed

lemma races_ok: "races L s \<Longrightarrow> race_ok s"
proof (induction rule: races.induct)
  case (fresh w)
  then show ?case by (simp add: race_ok_def keys_ok_def)
next
  case (more s s')
  then show ?case by (auto intro: race_keeps)
qed

lemma claim_keeps_rows:
  assumes "claim_phase L c rq w = (res, w')" and "keys_ok (tables w)"
  shows "set (t_idempotency (tables w)) \<subseteq> set (t_idempotency (tables w'))"
  using assms(1)
proof (cases rule: claim_cases)
  case (inserted m key hash row)
  from keys_ok_insert(2)[OF inserted(2) assms(2)] show ?thesis by auto
qed simp

lemma completed_stays:
  assumes ok: "race_ok (w, running)" and step: "race L (w, running) s'"
    and r: "r \<in> set (t_idempotency (tables w))" "ik_status r = ''completed''"
    and gone: "r \<notin> set (t_idempotency (tables (fst s')))"
  shows "\<exists>t. ik_created r < clock w - t \<and> s' = (snd (ExpireCompletedKeys t w), running)"
  using step
proof (cases rule: race.cases)
  case (arrive c rq out w')
  with r gone ok claim_keeps_rows[OF arrive(2)] show ?thesis by (auto simp: race_ok_def)
next
  case (begin_handler c rq row b w')
  with r gone ok claim_keeps_rows[OF begin_handler(2)] show ?thesis by (auto simp: race_ok_def)
next
  case (work w')
  with r gone show ?thesis by simp
next
  case (finish row out)
  then have "ik_id r \<noteq> ik_id row"
    using ok r keys_ok_id[of "tables w" r row] by (auto simp: race_ok_def)
  with ok r gone finish finish_keys(2)[of w r row] show ?thesis by (auto simp: race_ok_def)
next
  case crash
  with r gone show ?thesis by simp
next
  case (sweep olderThan)
  with r gone show ?thesis
    by (auto simp: SweepOrphanedKeys_def run_def Let_def ResetOrphans_def split: fault.splits)
next
  case (expire olderThan)
  moreover from this r gone have "ik_created r < clock w - olderThan"
    by (auto simp: ExpireCompletedKeys_def run_def Let_def ExpireCompleted_def split: fault.splits)
  ultimately show ?thesis by blast
qed


definition demo_ctx :: ctx where
  "demo_ctx = \<lparr>cx_merchant = Some 5, cx_kind = Some ''secret'', cx_param = []\<rparr>"

definition keyed_request :: request where
  "keyed_request = plain_request\<lparr>rq_header := \<lambda>h. ''key-1''\<rparr>"

definition demo_claim :: "(outcome + idempotency_key \<times> bytes) \<times> world" where
  "demo_claim = claim_phase plain_lib demo_ctx keyed_request (blank_world empty_db)"

lemmas demo_run = run_def Let_def and_then_def say_def blank_world_def empty_db_def MerchantID_def
  demo_ctx_def keyed_request_def plain_request_def read_body_def maxBody_def

lemma demo_claim_runs: "\<exists>row w'. demo_claim = (Inr (row, []), w') \<and> t_idempotency (tables w') = [row]"
  by (simp add: demo_claim_def claim_phase_def demo_run InsertInFlight_def)


section \<open>Running once, replaying afterwards\<close>

lemma first_run:
  assumes "works w" and "keys_ok (tables w)" and "MerchantID c = Some m"
    and "rq_header rq ''Idempotency-Key'' = key" and "key \<noteq> []" and "read_body rq = Inr b"
    and "(m, key) \<notin> slot ` set (t_idempotency (tables w))"
    and "rng w (rpos w) \<notin> ik_id ` set (t_idempotency (tables w))"
  obtains row w1 where "claim_phase L c rq w = (Inr (row, b), w1)" and "works w1"
    and "t_idempotency (tables w1) = t_idempotency (tables w) @ [row]" and "slot row = (m, key)"
    and "ik_hash row = Fingerprint L (rq_method rq) (rq_uri rq) b" and "keys_ok (tables w1)"
    and "ik_id row \<notin> ik_id ` set (t_idempotency (tables w))"
    and "tables w1 = (tables w)\<lparr>t_idempotency := t_idempotency (tables w) @ [row]\<rparr>"
proof -
  let ?hash = "Fingerprint L (rq_method rq) (rq_uri rq) b"
  obtain row d where ins: "InsertInFlight m key ?hash (rng w (rpos w)) (clock w) (tables w) = Inr (row, d)"
    using assms(7,8) by (fastforce simp: InsertInFlight_def Let_def slot_def)
  note row = keys_ok_insert[OF ins assms(2)]
  let ?w1 = "w\<lparr>fpos := Suc (fpos w), rpos := Suc (rpos w), tables := d\<rparr>"
  have "claim_phase L c rq w = (Inr (row, b), ?w1)"
    using assms ins by (simp add: claim_phase_def and_then_def run_works)
  moreover have "d = (tables w)\<lparr>t_idempotency := t_idempotency (tables w) @ [row]\<rparr>"
    using ins by (auto simp: InsertInFlight_def Let_def split: if_splits)
  ultimately show thesis
    by (intro that[of row ?w1]) (use assms(1,8) row in \<open>simp_all add: works_def\<close>)
qed

lemma duplicate_answer:
  assumes "works w" and "keys_ok (tables w)" and "MerchantID c = Some m"
    and "rq_header rq ''Idempotency-Key'' = key" and "key \<noteq> []" and "read_body rq = Inr b"
    and r: "r \<in> set (t_idempotency (tables w))" "slot r = (m, key)"
  shows "fst (WithIdempotency L h c rq w) =
      (if ik_hash r \<noteq> Fingerprint L (rq_method rq) (rq_uri rq) b
       then respondError 422 errTypeIdempotency ''idempotency_key_reused''
         ''this Idempotency-Key was already used for a request with a different body'' ''Idempotency-Key''
       else if ik_status r = ''in_flight''
       then respondError 409 errTypeIdempotency ''request_in_flight''
         ''a request with this Idempotency-Key is still being processed'' ''Idempotency-Key''
       else replay r)"
    and "tables (snd (WithIdempotency L h c rq w)) = tables w"
proof -
  let ?hash = "Fingerprint L (rq_method rq) (rq_uri rq) b"
  let ?w1 = "w\<lparr>fpos := Suc (fpos w), rpos := Suc (rpos w)\<rparr>"
  have dup: "InsertInFlight m key ?hash (rng w (rpos w)) (clock w) (tables w) = Inl PgUniqueViolation"
    using r by (auto simp: InsertInFlight_def slot_def)
  have "filter (\<lambda>x. slot x = slot r \<and> True) (t_idempotency (tables w)) = [r]"
    using filter_key_single[of slot "t_idempotency (tables w)" r "\<lambda>_. True"] assms(2) r(1)
    by (simp add: keys_ok_def)
  then have "filter (\<lambda>x. ik_merchant x = m \<and> ik_key x = key) (t_idempotency (tables w)) = [r]"
    using r(2) by (simp add: slot_def)
  then have get: "GetByKey m key u now (tables w) = Inr (r, tables w)" for u now
    by (simp add: GetByKey_def one_row_def)
  have "works ?w1" using assms(1) by (simp add: works_def)
  with dup get assms(1,3-6) show "fst (WithIdempotency L h c rq w) =
      (if ik_hash r \<noteq> ?hash
       then respondError 422 errTypeIdempotency ''idempotency_key_reused''
         ''this Idempotency-Key was already used for a request with a different body'' ''Idempotency-Key''
       else if ik_status r = ''in_flight''
       then respondError 409 errTypeIdempotency ''request_in_flight''
         ''a request with this Idempotency-Key is still being processed'' ''Idempotency-Key''
       else replay r)" "tables (snd (WithIdempotency L h c rq w)) = tables w"
    by (auto simp: WithIdempotency_def claim_phase_def and_then_def run_works replayOrConflict_def say_def)
qed

section \<open>Fingerprints\<close>

text \<open>The fingerprint tells requests apart: unless the digest collides, two requests have the same
  fingerprint exactly if method, address and body agree. (Neither a method nor an address can
  hold a NUL byte.)\<close>

theorem fingerprint_exact:
  assumes "CHR 0x00 \<notin> set meth" and "CHR 0x00 \<notin> set uri"
    and "CHR 0x00 \<notin> set meth'" and "CHR 0x00 \<notin> set uri'"
    and "lb_sha256 L (framed_request meth uri b) = lb_sha256 L (framed_request meth' uri' b') \<Longrightarrow>
      framed_request meth uri b = framed_request meth' uri' b'"
  shows "Fingerprint L meth uri b = Fingerprint L meth' uri' b' \<longleftrightarrow>
    meth = meth' \<and> uri = uri' \<and> b = b'"
proof -
  have cut: "xs = ys \<and> r = s" if "xs @ CHR 0x00 # r = ys @ CHR 0x00 # s" "CHR 0x00 \<notin> set xs" "CHR 0x00 \<notin> set ys"
    for xs ys r s
    using that by (auto simp: append_eq_append_conv2 append_eq_Cons_conv Cons_eq_append_conv)
  have "framed_request meth uri b = framed_request meth' uri' b' \<Longrightarrow> meth = meth' \<and> uri = uri' \<and> b = b'"
    using cut[of meth "uri @ CHR 0x00 # b" meth' "uri' @ CHR 0x00 # b'"] cut[of uri b uri' b'] assms(1-4)
    by (auto simp: framed_request_def)
  then show ?thesis using assms(5) by (auto simp: Fingerprint_def)
qed

theorem fingerprint_exact_witness:
  "Fingerprint plain_lib ''GET'' ''/a'' [] \<noteq> Fingerprint plain_lib ''GE'' ''T/a'' []"
proof -
  have "lb_sha256 plain_lib x = lb_sha256 plain_lib y \<Longrightarrow> x = y" for x y
    by (simp add: plain_lib_def)
  from fingerprint_exact[where L = plain_lib and meth = "''GET''" and uri = "''/a''" and b = "[]" and
      meth' = "''GE''" and uri' = "''T/a''" and b' = "[]", OF _ _ _ _ this]
  show ?thesis by simp
qed

end
