(* ===== verification/Handlers.thy ===== *)
theory Handlers
  imports Http
begin

text \<open>
  The payment-intent handlers (\<^verbatim>\<open>internal/httpapi/payment_intents.go\<close>): decode the request, run
  the service's operation, render the intent or the error.
\<close>

section \<open>Rendering\<close>

definition toIntentResponse :: "payment_intent \<Rightarrow> json" where
  "toIntentResponse p = JObj
     ([(''id'', JUuid (pi_id p)),
       (''object'', JStr ''payment_intent''),
       (''amount'', JInt (sint (pi_amount p))),
       (''currency'', JStr (pi_currency p)),
       (''status'', JStr (pi_status p)),
       (''settlement_mode'', JStr (pi_mode p))] @
      (case pi_payee p of None \<Rightarrow> [] | Some u \<Rightarrow> [(''payee'', JUuid u)]) @
      (case pi_fee p of None \<Rightarrow> [] | Some n \<Rightarrow> [(''application_fee'', JInt (sint n))]) @
      [(''metadata'', JRaw (if pi_metadata p = [] then ''{}'' else pi_metadata p)),
       (''created_at'', JTime (pi_created p)),
       (''updated_at'', JTime (pi_updated p))])"

definition create_error :: "error \<Rightarrow> outcome" where
  "create_error e = (case e of
     ErrInvalidAmount \<Rightarrow> respondError 400 errTypeInvalidRequest ''invalid_amount'' (error_text e) ''amount''
   | ErrInvalidCurrency \<Rightarrow> respondError 400 errTypeInvalidRequest ''invalid_currency'' (error_text e) ''currency''
   | ErrPayeeRequired \<Rightarrow> respondError 400 errTypeInvalidRequest ''payee_required'' (error_text e) ''payee''
   | ErrInvalidFee \<Rightarrow> respondError 400 errTypeInvalidRequest ''invalid_application_fee'' (error_text e) ''application_fee''
   | _ \<Rightarrow> respondError 500 errTypeAPI ''create_failed'' ''could not create the payment intent'' [])"

definition mapMoneyError :: "error \<Rightarrow> outcome" where
  "mapMoneyError e = (case e of
     ErrIntentNotFound \<Rightarrow> respondError 404 errTypeNotFound ''intent_not_found''
       ''no payment intent with that id'' ''id''
   | ErrInvalidState \<Rightarrow> respondError 409 errTypeInvalidRequest ''invalid_state'' (error_text e) []
   | ErrRefundExceedsCapture \<Rightarrow> respondError 400 errTypeInvalidRequest ''refund_too_large'' (error_text e) ''amount''
   | ErrPartialRefundBeforeSettle \<Rightarrow>
       respondError 422 errTypeInvalidRequest ''partial_refund_before_settle'' (error_text e) ''amount''
   | ErrPartialEscrowRefund \<Rightarrow>
       respondError 422 errTypeInvalidRequest ''partial_escrow_refund'' (error_text e) ''amount''
   | ErrInvalidAmount \<Rightarrow> respondError 400 errTypeInvalidRequest ''invalid_amount'' (error_text e) ''amount''
   | ErrBankDeclined \<Rightarrow> respondError 402 errTypeInvalidRequest ''bank_declined'' (error_text e) []
   | ErrBankUnavailable \<Rightarrow> respondError 504 errTypeAPI ''bank_unavailable'' (error_text e) []
   | _ \<Rightarrow> respondError 500 errTypeAPI ''internal_error'' ''an unexpected error occurred'' [])"

definition atoi32 :: "string \<Rightarrow> int32" where
  "atoi32 s = (if s = [] then 0 else case ParseInt 32 s of None \<Rightarrow> 0 | Some n \<Rightarrow> word_of_int n)"

section \<open>Handlers\<close>

definition auth_required :: string where
  "auth_required = ''authentication is required for this request''"

text \<open>The input of the service; \<open>None\<close> is a payee that is not a UUID.\<close>

definition create_input_of :: "lib \<Rightarrow> create_request \<Rightarrow> create_input option" where
  "create_input_of L req =
     (let inp = \<lparr>ci_amount = cq_amount req, ci_currency = cq_currency req,
                 ci_metadata = cq_metadata req, ci_escrow = cq_escrow req, ci_payee = None,
                 ci_fee = cq_fee req\<rparr>
      in if cq_escrow req
         then map_option (\<lambda>u. inp\<lparr>ci_payee := Some u\<rparr>) (lb_uuid L (cq_payee req))
         else Some inp)"

definition intents_create :: "lib \<Rightarrow> handler" where
  "intents_create L c rq = with_merchant auth_required c (\<lambda>m.
     case bind_body (lb_create L) rq of
       None \<Rightarrow> say (respondError 400 errTypeInvalidRequest ''invalid_body''
                 ''request body is not valid JSON'' [])
     | Some req \<Rightarrow>
         (case create_input_of L req of
            None \<Rightarrow> say (respondError 400 errTypeInvalidRequest ''invalid_payee''
                      ''payee must be a valid UUID for an escrow intent'' ''payee'')
          | Some inp \<Rightarrow> and_then (Create m inp) (\<lambda>r. say
              (case r of Inl e \<Rightarrow> create_error e
               | Inr p \<Rightarrow> respond 200 (Doc (toIntentResponse p))))))"

definition bad_id :: outcome where
  "bad_id = respondError 400 errTypeInvalidRequest ''invalid_id''
     ''the payment intent id is not a valid UUID'' ''id''"

definition authAndID :: "lib \<Rightarrow> ctx \<Rightarrow> (uuid \<Rightarrow> uuid \<Rightarrow> world \<Rightarrow> outcome \<times> world) \<Rightarrow>
    world \<Rightarrow> outcome \<times> world" where
  "authAndID L c k = with_merchant auth_required c (\<lambda>m.
     case lb_uuid L (cx_param c) of None \<Rightarrow> say bad_id | Some i \<Rightarrow> k m i)"

definition intents_get :: "lib \<Rightarrow> handler" where
  "intents_get L c rq = authAndID L c (\<lambda>m i. and_then (Get i m) (\<lambda>r. say
     (case r of
        Inl e \<Rightarrow>
          if e = ErrIntentNotFound
          then respondError 404 errTypeNotFound ''intent_not_found''
            ''no payment intent with that id'' ''id''
          else respondError 500 errTypeAPI ''read_failed'' ''could not read the payment intent'' []
      | Inr p \<Rightarrow> respond 200 (Doc (toIntentResponse p)))))"

definition intents_list :: "lib \<Rightarrow> handler" where
  "intents_list L c rq = with_merchant auth_required c (\<lambda>m.
     and_then (Intents.List m (rq_query rq ''status'') (atoi32 (rq_query rq ''limit''))
                 (atoi32 (rq_query rq ''offset''))) (\<lambda>r. say
       (case r of
          Inl e \<Rightarrow> respondError 500 errTypeAPI ''list_failed'' ''could not list payment intents'' []
        | Inr rows \<Rightarrow> respond 200 (Doc (JObj [(''data'', JArr (map toIntentResponse rows)),
                                                (''object'', JStr ''list'')])))))"

text \<open>The end of every money handler.\<close>

definition money_answer :: "error + payment_intent \<Rightarrow> outcome" where
  "money_answer r =
     (case r of Inl e \<Rightarrow> mapMoneyError e | Inr p \<Rightarrow> respond 200 (Doc (toIntentResponse p)))"

definition intents_confirm :: "lib \<Rightarrow> bank_http \<Rightarrow> handler" where
  "intents_confirm L bank c rq = authAndID L c (\<lambda>m i.
     let missing = say (respondError 400 errTypeInvalidRequest ''missing_token''
                     ''a payment-method token is required to confirm'' ''token'')
     in case bind_body (lb_confirm L) rq of
          None \<Rightarrow> missing
        | Some token \<Rightarrow>
            if token = [] then missing
            else and_then (Confirm bank i m token) (\<lambda>r. say (money_answer r)))"

definition intents_capture :: "lib \<Rightarrow> bank_http \<Rightarrow> handler" where
  "intents_capture L bank c rq = authAndID L c (\<lambda>m i.
     and_then (CaptureIntent bank i m) (\<lambda>r. say (money_answer r)))"

definition intents_release :: "lib \<Rightarrow> handler" where
  "intents_release L c rq = authAndID L c (\<lambda>m i.
     and_then (Release i m) (\<lambda>r. say (money_answer r)))"

definition intents_refund :: "lib \<Rightarrow> handler" where
  "intents_refund L c rq = authAndID L c (\<lambda>m i.
     case bind_body (lb_refund L) rq of
       None \<Rightarrow> say (respondError 400 errTypeInvalidRequest ''invalid_body''
                 ''request body is not valid JSON'' [])
     | Some amount \<Rightarrow> and_then (Refund i m amount) (\<lambda>r. say (money_answer r)))"

section \<open>Status codes\<close>

lemma status_respondError [simp]: "status_of (respondError s t c m p) = s"
  by (simp add: respondError_def respond_def status_of_def)

lemma status_respond [simp]: "status_of (respond s b) = s"
  by (simp add: respond_def status_of_def)

lemma money_status:
  "status_of (money_answer r) =
     (case r of Inr p \<Rightarrow> 200
      | Inl e \<Rightarrow> (case e of
            ErrIntentNotFound \<Rightarrow> 404 | ErrInvalidState \<Rightarrow> 409 | ErrBankDeclined \<Rightarrow> 402
          | ErrRefundExceedsCapture \<Rightarrow> 400 | ErrInvalidAmount \<Rightarrow> 400
          | ErrPartialRefundBeforeSettle \<Rightarrow> 422 | ErrPartialEscrowRefund \<Rightarrow> 422
          | ErrBankUnavailable \<Rightarrow> 504 | _ \<Rightarrow> 500))"
  by (simp add: money_answer_def mapMoneyError_def split: sum.split error.split)

text \<open>What a refusal means: neither success nor an internal error, and not the bank's silence.\<close>

lemma money_refused:
  "status_of (money_answer r) \<notin> {200, 500} \<Longrightarrow> \<exists>e. r = Inl e \<and> e \<noteq> PgConnection"
  by (auto simp: money_status split: sum.splits error.splits)

end
