(* ===== verification/Portal.thy ===== *)
theory Portal
  imports Handlers
begin

text \<open>
  The portal's views (\<^verbatim>\<open>internal/httpapi/portal_reads.go\<close>) and its webhook-endpoint settings
  (\<^verbatim>\<open>webhook_endpoints.go\<close>).
\<close>

section \<open>Reads\<close>

definition portal_auth :: string where
  "portal_auth = ''authentication is required''"

definition failed :: "string \<Rightarrow> string \<Rightarrow> outcome" where
  "failed code msg = respondError 500 errTypeAPI code msg []"

definition portal_balances :: "handler" where
  "portal_balances c rq = with_merchant portal_auth c (\<lambda>m.
     and_then (run (BalancesForMerchant m)) (\<lambda>r. say
       (case r of
          Inl e \<Rightarrow> failed ''balances_failed'' ''could not load balances''
        | Inr rows \<Rightarrow> respond 200 (Doc (JObj [(''balances'', JArr (map (\<lambda>r. JObj
            [(''balance'', JInt (sint (bl_balance r))), (''currency'', JStr (bl_currency r)),
             (''kind'', JStr (bl_kind r)), (''type'', JStr (bl_type r))]) rows))])))))"

text \<open>
  \<^verbatim>\<open>paginate\<close>: an \<^verbatim>\<open>int\<close> of 64 bits is converted to \<^verbatim>\<open>int32\<close>, which keeps the low 32 bits.
\<close>

definition paginate :: "request \<Rightarrow> int32 \<times> int32" where
  "paginate rq =
     ((case Atoi (rq_query rq ''limit'') of
         Some v \<Rightarrow> if 0 < v then word_of_int (if 100 < v then 100 else v) else 20
       | None \<Rightarrow> 20),
      (case Atoi (rq_query rq ''offset'') of
         Some v \<Rightarrow> if 0 < v then word_of_int v else 0
       | None \<Rightarrow> 0))"

definition opt_text :: "string option \<Rightarrow> json" where
  "opt_text s = (case s of None \<Rightarrow> JNull | Some s \<Rightarrow> JStr s)"

definition portal_webhookEvents :: "handler" where
  "portal_webhookEvents c rq = with_merchant portal_auth c (\<lambda>m.
     case paginate rq of (limit, offset) \<Rightarrow>
     and_then (run (ListWebhookEventsForMerchant m limit offset)) (\<lambda>r. say
       (case r of
          Inl e \<Rightarrow> failed ''webhooks_failed'' ''could not load webhook events''
        | Inr rows \<Rightarrow> respond 200 (Doc (JObj [(''webhook_events'', JArr (map (\<lambda>r. JObj
            [(''attempts'', JInt (sint (ev_attempts r))), (''created_at'', JTime (ev_created r)),
             (''event_id'', JUuid (ev_event_id r)), (''event_type'', JStr (ev_type r)),
             (''last_error'', opt_text (ev_error r)), (''status'', JStr (ev_status r))]) rows))])))))"

definition tsOrNil :: "time option \<Rightarrow> json" where
  "tsOrNil t = (case t of None \<Rightarrow> JNull | Some t \<Rightarrow> JTime t)"

text \<open>Four bullets (U+2022) stand for the rest of the key.\<close>

definition bullets :: bytes where
  "bullets = concat (replicate 4 [CHR 0xE2, CHR 0x80, CHR 0xA2])"

definition portal_apiKeys :: "handler" where
  "portal_apiKeys c rq = with_merchant portal_auth c (\<lambda>m.
     and_then (run (ListAPIKeysForMerchant m)) (\<lambda>r. say
       (case r of
          Inl e \<Rightarrow> failed ''api_keys_failed'' ''could not load API keys''
        | Inr rows \<Rightarrow> respond 200 (Doc (JObj [(''api_keys'', JArr (map (\<lambda>r. JObj
            [(''created_at'', JTime (kr_created r)), (''id'', JUuid (kr_id r)),
             (''kind'', JStr (kr_kind r)), (''masked'', JStr (kr_prefix r @ bullets)),
             (''prefix'', JStr (kr_prefix r)), (''revoked_at'', tsOrNil (kr_revoked r))]) rows))])))))"

text \<open>
  The grouping loop of \<^verbatim>\<open>ledger\<close>: the transactions so far, and for each id its index.
\<close>

record txn_view =
  tv_id :: uuid
  tv_kind :: string
  tv_created :: time
  tv_entries :: "ledger_row list"

definition add_entry :: "ledger_row \<Rightarrow> txn_view \<Rightarrow> txn_view" where
  "add_entry r t = t\<lparr>tv_entries := tv_entries t @ [r]\<rparr>"

fun group_rows :: "ledger_row list \<Rightarrow> txn_view list \<Rightarrow> (uuid \<rightharpoonup> nat) \<Rightarrow> txn_view list" where
  "group_rows [] txns byID = txns"
| "group_rows (r # rs) txns byID =
     (case byID (lr_transaction r) of
        Some i \<Rightarrow> group_rows rs (txns[i := add_entry r (txns ! i)]) byID
      | None \<Rightarrow>
          let i = length txns;
              t = \<lparr>tv_id = lr_transaction r, tv_kind = lr_tx_kind r, tv_created = lr_tx_created r,
                   tv_entries = []\<rparr>
          in group_rows rs (txns @ [add_entry r t]) (byID(lr_transaction r \<mapsto> i)))"

definition entry_json :: "ledger_row \<Rightarrow> json" where
  "entry_json r = JObj
     [(''account_type'', JStr (lr_account_type r)), (''account_kind'', JStr (lr_account_kind r)),
      (''debit'', JInt (sint (lr_debit r))), (''credit'', JInt (sint (lr_credit r))),
      (''currency'', JStr (lr_currency r))]"

definition txn_json :: "txn_view \<Rightarrow> json" where
  "txn_json t = JObj
     [(''id'', JUuid (tv_id t)), (''kind'', JStr (tv_kind t)), (''created_at'', JTime (tv_created t)),
      (''entries'', JArr (map entry_json (tv_entries t)))]"

definition portal_ledger :: "lib \<Rightarrow> handler" where
  "portal_ledger L c rq = with_merchant portal_auth c (\<lambda>m.
     case lb_uuid L (cx_param c) of
       None \<Rightarrow> say (respondError 400 errTypeInvalidRequest ''invalid_id''
                 ''the payment intent id is not a valid uuid'' ''id'')
     | Some i \<Rightarrow>
         and_then (run (GetIntent i m)) (\<lambda>r.
           case r of
             Inl e \<Rightarrow> say
               (if e = PgNoRows
                then respondError 404 errTypeNotFound ''intent_not_found'' ''no such payment intent'' ''id''
                else failed ''ledger_failed'' ''could not load the ledger'')
           | Inr p \<Rightarrow>
               and_then (run (LedgerForIntent m (Some i))) (\<lambda>r. say
                 (case r of
                    Inl e \<Rightarrow> failed ''ledger_failed'' ''could not load the ledger''
                  | Inr rows \<Rightarrow> respond 200 (Doc (JObj [(''transactions'',
                      JArr (map txn_json (group_rows rows [] Map.empty)))]))))))"

section \<open>Webhook endpoints\<close>

definition endpointJSON :: "webhook_endpoint \<Rightarrow> json" where
  "endpointJSON e = JObj
     [(''active'', JBool (we_disabled e = None)), (''created_at'', JTime (we_created e)),
      (''id'', JUuid (we_id e)), (''url'', JStr (we_url e))]"

definition portal_listEndpoints :: "handler" where
  "portal_listEndpoints c rq = with_merchant portal_auth c (\<lambda>m.
     and_then (run (ListEndpoints m)) (\<lambda>r. say
       (case r of
          Inl e \<Rightarrow> failed ''endpoints_failed'' ''could not load webhook endpoints''
        | Inr rows \<Rightarrow> respond 200 (Doc (JObj [(''webhook_endpoints'', JArr (map endpointJSON rows))])))))"

definition validEndpointURL :: "lib \<Rightarrow> string \<Rightarrow> bool" where
  "validEndpointURL L raw \<longleftrightarrow>
     (let s = TrimSpace raw in
      s \<noteq> [] \<and>
      (case lb_url L s of
         None \<Rightarrow> False
       | Some (scheme, host) \<Rightarrow> (scheme = ''http'' \<or> scheme = ''https'') \<and> host \<noteq> []))"

definition portal_createEndpoint :: "lib \<Rightarrow> handler" where
  "portal_createEndpoint L c rq = with_merchant portal_auth c (\<lambda>m.
     case bind_body (lb_endpoint L) rq of
       None \<Rightarrow> say (respondError 400 errTypeInvalidRequest ''invalid_body''
                 ''request body must be valid JSON'' [])
     | Some (url, secret) \<Rightarrow>
         if \<not> validEndpointURL L url
         then say (respondError 400 errTypeInvalidRequest ''invalid_url''
                ''url must be a valid http(s) URL'' ''url'')
         else if TrimSpace secret = []
         then say (respondError 400 errTypeInvalidRequest ''invalid_secret''
                ''a signing secret is required'' ''secret'')
         else and_then (run (InsertWebhookEndpoint m url secret)) (\<lambda>r. say
           (case r of
              Inl e \<Rightarrow> failed ''endpoint_create_failed'' ''could not create the endpoint''
            | Inr e \<Rightarrow> respond 200 (Doc (endpointJSON e)))))"

definition portal_disableEndpoint :: "lib \<Rightarrow> handler" where
  "portal_disableEndpoint L c rq = with_merchant portal_auth c (\<lambda>m.
     case lb_uuid L (cx_param c) of
       None \<Rightarrow> say (respondError 400 errTypeInvalidRequest ''invalid_id''
                 ''the endpoint id is not a valid uuid'' ''id'')
     | Some i \<Rightarrow> and_then (run (DisableEndpoint i m)) (\<lambda>r. say
         (case r of
            Inl e \<Rightarrow>
              if e = PgNoRows
              then respondError 404 errTypeNotFound ''endpoint_not_found'' ''no such active endpoint'' ''id''
              else failed ''endpoint_disable_failed'' ''could not disable the endpoint''
          | Inr e \<Rightarrow> respond 200 (Doc (endpointJSON e)))))"

section \<open>The grouping of ledger rows\<close>

text \<open>Reference: one view per transaction, in order of first appearance, with all its rows.\<close>

definition firsts :: "'a list \<Rightarrow> 'a list" where
  "firsts xs = rev (remdups (rev xs))"

definition rows_of :: "ledger_row list \<Rightarrow> uuid \<Rightarrow> ledger_row list" where
  "rows_of rs i = filter (\<lambda>r. lr_transaction r = i) rs"

definition view_of :: "ledger_row list \<Rightarrow> uuid \<Rightarrow> txn_view" where
  "view_of rs i = \<lparr>tv_id = i, tv_kind = lr_tx_kind (hd (rows_of rs i)),
     tv_created = lr_tx_created (hd (rows_of rs i)), tv_entries = rows_of rs i\<rparr>"

lemma firsts_snoc: "firsts (xs @ [x]) = (if x \<in> set xs then firsts xs else firsts xs @ [x])"
  by (simp add: firsts_def)

lemma set_firsts [simp]: "set (firsts xs) = set xs"
  by (simp add: firsts_def)

lemma distinct_firsts [simp]: "distinct (firsts xs)"
  by (simp add: firsts_def)

lemma rows_of_snoc:
  "rows_of (xs @ [r]) i = (if lr_transaction r = i then rows_of xs i @ [r] else rows_of xs i)"
  by (simp add: rows_of_def)

lemma rows_of_empty: "i \<notin> lr_transaction ` set xs \<Longrightarrow> rows_of xs i = []"
  by (auto simp: rows_of_def filter_empty_conv)

lemma rows_of_nonempty: "i \<in> lr_transaction ` set xs \<Longrightarrow> rows_of xs i \<noteq> []"
  by (auto simp: rows_of_def filter_empty_conv)

definition indexes :: "uuid list \<Rightarrow> (uuid \<rightharpoonup> nat) \<Rightarrow> bool" where
  "indexes is m \<longleftrightarrow> (\<forall>u i. m u = Some i \<longleftrightarrow> i < length is \<and> is ! i = u)"

lemma indexes_snoc:
  assumes "indexes is m" and "x \<notin> set is"
  shows "indexes (is @ [x]) (m(x \<mapsto> length is))"
  using assms nth_mem[of _ "is"]
  by (auto simp: indexes_def nth_append less_Suc_eq simp del: nth_mem)

lemma view_of_snoc_other:
  "lr_transaction r \<noteq> i \<Longrightarrow> view_of (xs @ [r]) i = view_of xs i"
  by (simp add: view_of_def rows_of_snoc)

lemma group_rows_reference:
  assumes "indexes (firsts (map lr_transaction xs)) m"
  shows "group_rows rs (map (view_of xs) (firsts (map lr_transaction xs))) m =
    map (view_of (xs @ rs)) (firsts (map lr_transaction (xs @ rs)))"
  using assms
proof (induction rs arbitrary: xs m)
  case Nil
  then show ?case by simp
next
  case (Cons r rs)
  let ?i = "lr_transaction r" and ?ids = "firsts (map lr_transaction xs)"
  let ?ids' = "firsts (map lr_transaction (xs @ [r]))"
  show ?case
  proof (cases "m ?i")
    case (Some k)
    then have k: "k < length ?ids" "?ids ! k = ?i" using Cons.prems by (auto simp: indexes_def)
    then have seen: "?i \<in> lr_transaction ` set xs"
      using nth_mem[OF k(1)] by simp
    then have ids: "?ids' = ?ids" by (simp add: firsts_snoc)
    have "add_entry r (view_of xs ?i) = view_of (xs @ [r]) ?i"
      using rows_of_nonempty[OF seen] by (simp add: add_entry_def view_of_def rows_of_snoc)
    moreover have "?i \<noteq> ?ids ! j" if "j < length ?ids" "j \<noteq> k" for j
      using that k by (metis distinct_firsts nth_eq_iff_index_eq)
    ultimately have "(map (view_of xs) ?ids)[k := add_entry r (map (view_of xs) ?ids ! k)] =
        map (view_of (xs @ [r])) ?ids"
      using k by (intro nth_equalityI) (auto simp: nth_list_update view_of_snoc_other)
    with Some Cons.IH[of "xs @ [r]" m] Cons.prems ids show ?thesis by simp
  next
    case None
    have new: "?i \<notin> set ?ids"
    proof
      assume "?i \<in> set ?ids"
      then obtain j where "j < length ?ids" "?ids ! j = ?i" by (metis in_set_conv_nth)
      with Cons.prems None show False unfolding indexes_def by (metis option.distinct(1))
    qed
    then have ids: "?ids' = ?ids @ [?i]" by (simp add: firsts_snoc image_iff)
    let ?m = "m(?i \<mapsto> length ?ids)"
    let ?t = "add_entry r \<lparr>tv_id = ?i, tv_kind = lr_tx_kind r, tv_created = lr_tx_created r, tv_entries = []\<rparr>"
    have "map (view_of xs) ?ids = map (view_of (xs @ [r])) ?ids"
      using new by (intro map_cong refl view_of_snoc_other[symmetric]) auto
    moreover have "?t = view_of (xs @ [r]) ?i"
      using new by (simp add: add_entry_def view_of_def rows_of_snoc rows_of_empty)
    ultimately have views: "map (view_of xs) ?ids @ [?t] = map (view_of (xs @ [r])) ?ids'"
      unfolding ids by (simp only: map_append list.map)
    have index: "indexes ?ids' ?m"
      using Cons.prems new unfolding ids by (rule indexes_snoc)
    have "group_rows (r # rs) (map (view_of xs) ?ids) m = group_rows rs (map (view_of xs) ?ids @ [?t]) ?m"
      using None by (simp add: Let_def)
    with Cons.IH[OF index] show ?thesis unfolding views by (simp del: fun_upd_apply)
  qed
qed

text \<open>C20: The ledger view groups the flat rows of the join exactly: one entry per transaction, in the
  order in which the transactions first appear, each with all its rows in order and nothing else.\<close>

theorem grouping_exact:
  "group_rows rs [] Map.empty = map (view_of rs) (firsts (map lr_transaction rs))"
  using group_rows_reference[of "[]" Map.empty rs] by (simp add: indexes_def firsts_def)

section \<open>Pages\<close>

lemma sint_small32: "0 \<le> n \<Longrightarrow> n < 2 ^ 31 \<Longrightarrow> sint (word_of_int n :: int32) = n"
  by (simp add: signed_of_int signed_take_bit_int_eq_self)

lemma sint_low32:
  "sint (word_of_int n :: int32) = (if n mod 2 ^ 32 < 2 ^ 31 then n mod 2 ^ 32 else n mod 2 ^ 32 - 2 ^ 32)"
proof -
  let ?m = "n mod 2 ^ 32"
  have m: "0 \<le> ?m" "?m < 2 ^ 32" by simp_all
  have w: "(word_of_int n :: int32) = word_of_int ?m"
    by (simp add: word_of_int_eq_iff take_bit_eq_mod)
  have w': "(word_of_int n :: int32) = word_of_int (?m - 2 ^ 32)"
    by (simp add: word_of_int_eq_iff take_bit_eq_mod mod_diff_left_eq del: of_int_diff word_of_int_minus wi_hom_sub)
  show ?thesis
  proof (cases "?m < 2 ^ 31")
    case True
    with m w sint_of_bounded32[of ?m] show ?thesis by simp
  next
    case False
    with m w' sint_of_bounded32[of "?m - 2 ^ 32"] show ?thesis by simp
  qed
qed

text \<open>C40: Every page has between 1 and 100 rows: as many as asked for if that is a positive number of
  at most 100, else 100 or, without one, 20. It starts at the low 32 bits of the offset asked for, as
  a signed number; so an offset below 2^31 is taken as it is, and a larger one becomes what is left of it
  modulo 2^32, less 2^32 where that is 2^31 or more. The event list answers an internal error
  exactly when the offset has become negative.\<close>

theorem pagination_wraps:
  assumes "works w" and "MerchantID c = Some m"
  shows "sint (fst (paginate rq)) =
      (case Atoi (rq_query rq ''limit'') of Some v \<Rightarrow> if 0 < v then min v 100 else 20 | None \<Rightarrow> 20) \<and>
    1 \<le> sint (fst (paginate rq)) \<and> sint (fst (paginate rq)) \<le> 100 \<and>
    sint (snd (paginate rq)) =
      (case Atoi (rq_query rq ''offset'') of
         Some v \<Rightarrow> if v \<le> 0 then 0 else if v < 2 ^ 31 then v
           else if v mod 2 ^ 32 < 2 ^ 31 then v mod 2 ^ 32 else v mod 2 ^ 32 - 2 ^ 32
       | None \<Rightarrow> 0) \<and>
    status_of (fst (portal_webhookEvents c rq w)) = (if sint (snd (paginate rq)) < 0 then 500 else 200)"
proof -
  obtain limit offset where p: "paginate rq = (limit, offset)" by (cases "paginate rq")
  have limit: "sint limit =
      (case Atoi (rq_query rq ''limit'') of Some v \<Rightarrow> if 0 < v then min v 100 else 20 | None \<Rightarrow> 20)"
    using p by (auto simp: paginate_def sint_small32 min_def split: option.splits if_splits)
  then have range: "1 \<le> sint limit" "sint limit \<le> 100"
    by (auto split: option.splits if_splits)
  have offset: "sint offset =
      (case Atoi (rq_query rq ''offset'') of
         Some v \<Rightarrow> if v \<le> 0 then 0 else if v < 2 ^ 31 then v
           else if v mod 2 ^ 32 < 2 ^ 31 then v mod 2 ^ 32 else v mod 2 ^ 32 - 2 ^ 32
       | None \<Rightarrow> 0)"
    using p by (auto simp: paginate_def sint_small32 sint_low32 split: option.splits if_splits)
  have "fst (run (ListWebhookEventsForMerchant m limit offset) w) = Inl PgNegativeLimit"
    if "sint offset < 0"
    using that assms(1) by (simp add: run_works ListWebhookEventsForMerchant_def limit_rows_def)
  moreover have "\<exists>rows. fst (run (ListWebhookEventsForMerchant m limit offset) w) = Inr rows"
    if "\<not> sint offset < 0"
    using that range assms(1)
    by (simp add: run_works ListWebhookEventsForMerchant_def limit_rows_def)
  ultimately have "status_of (fst (portal_webhookEvents c rq w)) = (if sint offset < 0 then 500 else 200)"
    using p assms(2)
    by (cases "run (ListWebhookEventsForMerchant m limit offset) w")
       (auto simp: portal_webhookEvents_def with_merchant_def and_then_def say_def failed_def)
  with p limit range offset show ?thesis by simp
qed

theorem pagination_wraps_witness:
  "status_of (fst (portal_webhookEvents (no_ctx\<lparr>cx_merchant := Some 5\<rparr>)
     (plain_request\<lparr>rq_query := \<lambda>k. ''2147483648''\<rparr>) (blank_world empty_db))) = 500 \<and>
   status_of (fst (portal_webhookEvents (no_ctx\<lparr>cx_merchant := Some 5\<rparr>)
     (plain_request\<lparr>rq_query := \<lambda>k. ''4294967296''\<rparr>) (blank_world empty_db))) = 200"
proof -
  have "Atoi ''2147483648'' = Some 2147483648" "Atoi ''4294967296'' = Some 4294967296" by code_simp+
  with pagination_wraps[of "blank_world empty_db" "no_ctx\<lparr>cx_merchant := Some 5\<rparr>" 5
      "plain_request\<lparr>rq_query := \<lambda>k. ''2147483648''\<rparr>"]
    pagination_wraps[of "blank_world empty_db" "no_ctx\<lparr>cx_merchant := Some 5\<rparr>" 5
      "plain_request\<lparr>rq_query := \<lambda>k. ''4294967296''\<rparr>"]
  show ?thesis by (simp add: works_def blank_world_def MerchantID_def)
qed

section \<open>Tenants\<close>

text \<open>What one merchant's rows are.\<close>

definition own_accounts :: "uuid \<Rightarrow> db \<Rightarrow> account list" where
  "own_accounts m d = filter (\<lambda>a. ac_merchant a = m) (t_accounts d)"

definition restrict :: "uuid \<Rightarrow> db \<Rightarrow> db" where
  "restrict m d = d\<lparr>t_accounts := own_accounts m d,
     t_entries := filter (\<lambda>e. en_account e \<in> ac_id ` set (own_accounts m d)) (t_entries d),
     t_transactions := filter (\<lambda>t. tx_merchant t = m) (t_transactions d),
     t_intents := filter (\<lambda>p. pi_merchant p = m) (t_intents d),
     t_outbox := filter (\<lambda>r. ob_merchant r = m) (t_outbox d),
     t_endpoints := filter (\<lambda>e. we_merchant e = m) (t_endpoints d),
     t_api_keys := filter (\<lambda>k. ak_merchant k = m) (t_api_keys d),
     t_idempotency := [], t_users := [], t_merchants := [], t_deliveries := []\<rparr>"

definition blinkered :: "uuid \<Rightarrow> world \<Rightarrow> world" where
  "blinkered m w = w\<lparr>tables := restrict m (tables w)\<rparr>"

text \<open>A statement that reads a merchant's rows only.\<close>

lemma run_blinkered:
  assumes "\<And>u now. map_sum id fst (f u now (tables w)) = map_sum id fst (f u now (restrict m (tables w)))"
  shows "fst (run f (blinkered m w)) = fst (run f w)"
  using assms[of "rng w (rpos w)" "clock w"]
  by (auto simp: run_def Let_def blinkered_def split: fault.split sum.splits)

lemma entries_restrict:
  "(\<And>a. P a \<Longrightarrow> ac_merchant a = m) \<Longrightarrow> entries_of_accounts P (restrict m d) = entries_of_accounts P d"
proof -
  assume own: "\<And>a. P a \<Longrightarrow> ac_merchant a = m"
  let ?hits = "\<lambda>as e. map (\<lambda>a. e) (filter (\<lambda>a. ac_id a = en_account e \<and> P a) as)"
  have acc: "?hits (own_accounts m d) e = ?hits (t_accounts d) e" for e
    using own by (auto simp: own_accounts_def intro!: arg_cong[of _ _ "map _"] filter_cong)
  have none: "?hits (t_accounts d) e = []" if "en_account e \<notin> ac_id ` set (own_accounts m d)" for e
    using that own by (auto simp: own_accounts_def filter_empty_conv image_iff) metis
  have "concat (map (?hits (t_accounts d)) (filter (\<lambda>e. en_account e \<in> ac_id ` set (own_accounts m d)) es)) =
      concat (map (?hits (t_accounts d)) es)" for es
    by (induction es) (use none in auto)
  then show ?thesis by (simp add: entries_of_accounts_def restrict_def acc)
qed

lemma filter_own [simp]: "filter (\<lambda>x. P x \<and> Q x) (filter P xs) = filter (\<lambda>x. P x \<and> Q x) xs"
  "filter (\<lambda>x. Q x \<and> P x) (filter P xs) = filter (\<lambda>x. Q x \<and> P x) xs"
  by (auto intro: filter_cong)

lemma blinkered_reads:
  "fst (run (BalancesForMerchant m) (blinkered m w)) = fst (run (BalancesForMerchant m) w)"
  "fst (run (ListWebhookEventsForMerchant m lim off) (blinkered m w)) =
   fst (run (ListWebhookEventsForMerchant m lim off) w)"
  "fst (run (ListAPIKeysForMerchant m) (blinkered m w)) = fst (run (ListAPIKeysForMerchant m) w)"
  "fst (run (ListEndpoints m) (blinkered m w)) = fst (run (ListEndpoints m) w)"
  "fst (run (GetIntent i m) (blinkered m w)) = fst (run (GetIntent i m) w)"
  "fst (run (ListIntents m s off lim) (blinkered m w)) = fst (run (ListIntents m s off lim) w)"
proof -
  have "balance_of_group m (restrict m d) = balance_of_group m d" for d
    unfolding balance_of_group_def
    by (intro ext arg_cong[of _ _ debit_minus_credit] entries_restrict) simp
  then show "fst (run (BalancesForMerchant m) (blinkered m w)) = fst (run (BalancesForMerchant m) w)"
    by (intro run_blinkered) (simp add: BalancesForMerchant_def restrict_def own_accounts_def Let_def)
  show "fst (run (ListWebhookEventsForMerchant m lim off) (blinkered m w)) =
      fst (run (ListWebhookEventsForMerchant m lim off) w)"
    by (intro run_blinkered)
       (simp add: ListWebhookEventsForMerchant_def restrict_def split: sum.split)
  show "fst (run (ListAPIKeysForMerchant m) (blinkered m w)) = fst (run (ListAPIKeysForMerchant m) w)"
    by (intro run_blinkered) (simp add: ListAPIKeysForMerchant_def restrict_def)
  show "fst (run (ListEndpoints m) (blinkered m w)) = fst (run (ListEndpoints m) w)"
    by (intro run_blinkered) (simp add: ListEndpoints_def restrict_def)
  show "fst (run (GetIntent i m) (blinkered m w)) = fst (run (GetIntent i m) w)"
    by (intro run_blinkered) (simp add: GetIntent_def restrict_def one_row_def conj_ac split: list.split)
  show "fst (run (ListIntents m s off lim) (blinkered m w)) = fst (run (ListIntents m s off lim) w)"
    by (intro run_blinkered) (simp add: ListIntents_def restrict_def split: sum.split)
qed

text \<open>What a merchant is shown depends on that merchant's rows alone: the answers of the listings, of
  the balances and of the reads of single intents are the same in the database that holds only
  its accounts, entries, intents, events, keys and endpoints.\<close>

theorem reads_isolated:
  assumes "MerchantID c = Some m"
  shows "fst (portal_balances c rq (blinkered m w)) = fst (portal_balances c rq w) \<and>
    fst (portal_webhookEvents c rq (blinkered m w)) = fst (portal_webhookEvents c rq w) \<and>
    fst (portal_apiKeys c rq (blinkered m w)) = fst (portal_apiKeys c rq w) \<and>
    fst (portal_listEndpoints c rq (blinkered m w)) = fst (portal_listEndpoints c rq w) \<and>
    fst (intents_list L c rq (blinkered m w)) = fst (intents_list L c rq w) \<and>
    fst (intents_get L c rq (blinkered m w)) = fst (intents_get L c rq w)"
proof (intro conjI)
  have eq: "fst (and_then f (\<lambda>r. say (k r)) (blinkered m w)) = fst (and_then f (\<lambda>r. say (k r)) w)"
    if "fst (f (blinkered m w)) = fst (f w)" for f :: "'x io" and k :: "error + 'x \<Rightarrow> outcome"
    using that by (cases "f w"; cases "f (blinkered m w)") (simp add: and_then_def say_def)
  note with_merchant_def[simp] portal_auth_def[simp]
  show "fst (portal_balances c rq (blinkered m w)) = fst (portal_balances c rq w)"
    using assms by (simp add: portal_balances_def eq blinkered_reads)
  show "fst (portal_webhookEvents c rq (blinkered m w)) = fst (portal_webhookEvents c rq w)"
    using assms by (cases "paginate rq") (simp add: portal_webhookEvents_def eq blinkered_reads)
  show "fst (portal_apiKeys c rq (blinkered m w)) = fst (portal_apiKeys c rq w)"
    using assms by (simp add: portal_apiKeys_def eq blinkered_reads)
  show "fst (portal_listEndpoints c rq (blinkered m w)) = fst (portal_listEndpoints c rq w)"
    using assms by (simp add: portal_listEndpoints_def eq blinkered_reads)
  show "fst (intents_list L c rq (blinkered m w)) = fst (intents_list L c rq w)"
    using assms by (simp add: intents_list_def Intents.List_def Let_def eq blinkered_reads)
  have "fst (Get i m (blinkered m w)) = fst (Get i m w)" for i
    using blinkered_reads(5)[of i m w]
    by (cases "run (GetIntent i m) (blinkered m w)"; cases "run (GetIntent i m) w")
       (auto simp: Get_def map_err_def split: sum.split)
  then show "fst (intents_get L c rq (blinkered m w)) = fst (intents_get L c rq w)"
    using assms by (simp add: intents_get_def authAndID_def eq say_def split: option.split)
qed

definition foreign_key :: api_key where
  "foreign_key = \<lparr>ak_id = 1, ak_merchant = 9, ak_kind = ''secret'', ak_prefix = ''sk_test_0123456'',
     ak_hash = ''ff'', ak_created = 0, ak_revoked = None\<rparr>"

theorem reads_isolated_witness:
  "fst (portal_apiKeys (no_ctx\<lparr>cx_merchant := Some 5\<rparr>) plain_request
      (blank_world (empty_db\<lparr>t_api_keys := [foreign_key]\<rparr>))) =
   fst (portal_apiKeys (no_ctx\<lparr>cx_merchant := Some 5\<rparr>) plain_request (blank_world empty_db))"
proof -
  have "blinkered 5 (blank_world (empty_db\<lparr>t_api_keys := [foreign_key]\<rparr>)) = blank_world empty_db"
    by (simp add: blinkered_def restrict_def own_accounts_def foreign_key_def blank_world_def empty_db_def)
  then show ?thesis
    using reads_isolated[of "no_ctx\<lparr>cx_merchant := Some 5\<rparr>" 5 plain_request
        "blank_world (empty_db\<lparr>t_api_keys := [foreign_key]\<rparr>)"]
    by (simp add: MerchantID_def)
qed

end
