(* ===== verification/Tokens.thy ===== *)
theory Tokens
  imports Http
begin

text \<open>
  Card tokenization (\<^verbatim>\<open>internal/httpapi/tokens.go\<close>): the checks on the card fields, the Luhn
  checksum against a reference, what the checksum detects, and what of a card number the answer
  gives away.
\<close>

section \<open>The checks\<close>

definition digitsOnly :: "bytes \<Rightarrow> bool" where
  "digitsOnly s \<longleftrightarrow> s \<noteq> [] \<and> list_all (\<lambda>r. \<not> (r < CHR ''0'' \<or> CHR ''9'' < r)) s"

text \<open>
  The loop runs from the last byte to the first, here over the reversed text;
  \<^verbatim>\<open>number[i] - '0'\<close> is arithmetic on a byte.
\<close>

definition luhn_byte :: "char \<Rightarrow> int" where
  "luhn_byte c = (of_char c - 48) mod 256"

fun luhn_loop :: "bytes \<Rightarrow> int \<Rightarrow> bool \<Rightarrow> int" where
  "luhn_loop [] acc alt = acc"
| "luhn_loop (c # cs) acc alt =
     (let d = luhn_byte c;
          d2 = (if alt then (if 9 < d * 2 then d * 2 - 9 else d * 2) else d)
      in luhn_loop cs (acc + d2) (\<not> alt))"

definition luhnValid :: "bytes \<Rightarrow> bool" where
  "luhnValid number \<longleftrightarrow> luhn_loop (rev number) 0 False mod 10 = 0"

definition magicTokenForCard :: "bytes \<Rightarrow> string" where
  "magicTokenForCard number =
     (if number = ''4000000000000002'' then ''tok_declined''
      else if number = ''4000000000000069'' then ''tok_timeout''
      else ''tok_ok'')"

definition cardBrand :: "bytes \<Rightarrow> string" where
  "cardBrand number =
     (if hd number = CHR ''4'' then ''visa''
      else if hd number = CHR ''5'' then ''mastercard''
      else if hd number = CHR ''3'' then ''amex''
      else ''card'')"

definition card_digits :: "card_request \<Rightarrow> bytes" where
  "card_digits req = filter (\<lambda>c. c \<noteq> CHR '' '') (TrimSpace (cd_number req))"

definition create_token :: "lib \<Rightarrow> handler" where
  "create_token L c rq w =
     (case bind_body (lb_card L) rq of
        None \<Rightarrow> (respondError 400 errTypeInvalidRequest ''invalid_body''
                 ''request body must be valid JSON'' [], w)
      | Some req \<Rightarrow>
          let number = card_digits req in
          if \<not> digitsOnly number \<or> length number < 13 \<or> 19 < length number \<or> \<not> luhnValid number
          then (respondError 400 errTypeInvalidRequest ''invalid_card_number''
                 ''the card number is not valid'' ''number'', w)
          else if cd_exp_month req < 1 \<or> 12 < cd_exp_month req
          then (respondError 400 errTypeInvalidRequest ''invalid_expiry''
                 ''exp_month must be between 1 and 12'' ''exp_month'', w)
          else if cd_exp_year req < 2000 \<or> 2100 < cd_exp_year req
          then (respondError 400 errTypeInvalidRequest ''invalid_expiry''
                 ''exp_year is out of range'' ''exp_year'', w)
          else if length (cd_cvc req) < 3 \<or> 4 < length (cd_cvc req) \<or> \<not> digitsOnly (cd_cvc req)
          then (respondError 400 errTypeInvalidRequest ''invalid_cvc''
                 ''the security code is not valid'' ''cvc'', w)
          else (respond 200 (Doc (JObj
                 [(''card'', JObj
                    [(''brand'', JStr (cardBrand number)),
                     (''exp_month'', JInt (cd_exp_month req)),
                     (''exp_year'', JInt (cd_exp_year req)),
                     (''last4'', JStr (drop (length number - 4) number))]),
                  (''id'', JStr (magicTokenForCard number)),
                  (''object'', JStr ''token'')])), w))"

section \<open>The checksum\<close>

text \<open>
  The reference: counted from the right, every second digit is doubled and the digits of the
  double are added up.
\<close>

definition luhn_weight :: "bool \<Rightarrow> int \<Rightarrow> int" where
  "luhn_weight double d = (if double then 2 * d div 10 + 2 * d mod 10 else d)"

definition luhn_sum :: "int list \<Rightarrow> int" where
  "luhn_sum ds = (\<Sum>i<length ds. luhn_weight (odd i) (rev ds ! i))"

lemma is_digit_code: "is_digit c \<longleftrightarrow> 48 \<le> (of_char c :: nat) \<and> (of_char c :: nat) \<le> 57"
  unfolding is_digit_def less_eq_char_def by simp

lemma digitsOnly_iff: "digitsOnly s \<longleftrightarrow> s \<noteq> [] \<and> list_all is_digit s"
  by (simp add: digitsOnly_def list_all_iff is_digit_def linorder_not_less)

lemma luhn_byte_digit: "is_digit c \<Longrightarrow> luhn_byte c = digit_val c"
  by (simp add: luhn_byte_def digit_val_def is_digit_code of_char_int)

lemma digit_val_range: "is_digit c \<Longrightarrow> 0 \<le> digit_val c \<and> digit_val c \<le> 9"
  by (simp add: digit_val_def is_digit_code of_char_int)

lemma digit_val_inject: "digit_val c = digit_val d \<longleftrightarrow> c = d"
  by (simp add: digit_val_def)

text \<open>Facts about one or two digits are checked digit by digit.\<close>

lemma digit_values: "0 \<le> d \<Longrightarrow> d \<le> 9 \<Longrightarrow> d \<in> set [0..9::int]"
  by simp

lemma luhn_step_table:
  "\<forall>d \<in> set [0..9]. \<forall>alt \<in> set [True, False].
     (if alt then (if 9 < d * 2 then d * 2 - 9 else d * 2) else d) = luhn_weight alt d"
  by code_simp

lemma luhn_step_weight:
  assumes "0 \<le> d" "d \<le> 9"
  shows "(if alt then (if 9 < d * 2 then d * 2 - 9 else d * 2) else d) = luhn_weight alt d"
  using bspec[OF bspec[OF luhn_step_table digit_values[OF assms]], of alt] by simp

lemma luhn_loop_sum:
  assumes "list_all is_digit cs"
  shows "luhn_loop cs acc alt =
    acc + (\<Sum>i<length cs. luhn_weight (alt \<noteq> odd i) (map digit_val cs ! i))"
  using assms
proof (induction cs arbitrary: acc alt)
  case Nil
  then show ?case by simp
next
  case (Cons c cs)
  then have "luhn_loop (c # cs) acc alt = luhn_loop cs (acc + luhn_weight alt (digit_val c)) (\<not> alt)"
    using luhn_step_weight[of "digit_val c" alt] digit_val_range[of c]
    by (simp add: Let_def luhn_byte_digit)
  with Cons show ?case
    by (cases alt) (simp_all add: sum.lessThan_Suc_shift algebra_simps del: sum.lessThan_Suc)
qed

lemma luhnValid_sum:
  "list_all is_digit s \<Longrightarrow> luhnValid s \<longleftrightarrow> luhn_sum (map digit_val s) mod 10 = 0"
  by (simp add: luhnValid_def luhn_sum_def luhn_loop_sum rev_map list_all_rev)

text \<open>What one changed digit and two swapped neighbours do to the sum, counted from the right.\<close>

definition weighed :: "int list \<Rightarrow> int" where
  "weighed rs = (\<Sum>i<length rs. luhn_weight (odd i) (rs ! i))"

lemma luhn_sum_weighed: "luhn_sum ds = weighed (rev ds)"
  by (simp add: luhn_sum_def weighed_def)

lemma weighed_update:
  assumes "k < length rs"
  shows "weighed (rs[k := d]) = weighed rs - luhn_weight (odd k) (rs ! k) + luhn_weight (odd k) d"
proof -
  have split: "weighed xs = luhn_weight (odd k) (xs ! k) +
      (\<Sum>i \<in> {..<length xs} - {k}. luhn_weight (odd i) (xs ! i))" if "k < length xs" for xs
    using that unfolding weighed_def by (subst sum.remove[of _ k]) simp_all
  have "(\<Sum>i \<in> {..<length rs} - {k}. luhn_weight (odd i) (rs[k := d] ! i)) =
      (\<Sum>i \<in> {..<length rs} - {k}. luhn_weight (odd i) (rs ! i))"
    by (intro sum.cong) simp_all
  with split[of rs] split[of "rs[k := d]"] assms show ?thesis by simp
qed

lemma luhn_weight_table:
  "\<forall>p \<in> set [True, False]. \<forall>a \<in> set [0..9]. \<forall>b \<in> set [0..9].
     (luhn_weight p b - luhn_weight p a) mod 10 = 0 \<longrightarrow> a = b"
  by code_simp

lemma luhn_weight_inject:
  assumes "0 \<le> a" "a \<le> 9" "0 \<le> b" "b \<le> 9"
    and "(luhn_weight p b - luhn_weight p a) mod 10 = 0"
  shows "a = b"
  using bspec[OF bspec[OF bspec[OF luhn_weight_table, of p] digit_values[OF assms(1,2)]]
      digit_values[OF assms(3,4)]] assms(5) by simp

lemma luhn_swap_table:
  "\<forall>p \<in> set [True, False]. \<forall>a \<in> set [0..9]. \<forall>b \<in> set [0..9].
     (luhn_weight p b + luhn_weight (\<not> p) a - luhn_weight p a - luhn_weight (\<not> p) b) mod 10 = 0 \<longrightarrow>
     a = b \<or> a = 0 \<and> b = 9 \<or> a = 9 \<and> b = 0"
  by code_simp

lemma luhn_weight_swap:
  assumes "0 \<le> a" "a \<le> 9" "0 \<le> b" "b \<le> 9" "a \<noteq> b"
    and "(luhn_weight p b + luhn_weight (\<not> p) a - luhn_weight p a - luhn_weight (\<not> p) b) mod 10 = 0"
  shows "a = 0 \<and> b = 9 \<or> a = 9 \<and> b = 0"
  using bspec[OF bspec[OF bspec[OF luhn_swap_table, of p] digit_values[OF assms(1,2)]]
      digit_values[OF assms(3,4)]] assms(5,6) by simp

lemma rev_nth_update: "k < length xs \<Longrightarrow> rev (xs[k := x]) = (rev xs)[length xs - Suc k := x]"
  by (simp add: rev_update)

section \<open>What the checksum detects\<close>

lemma luhn_sum_change:
  assumes "k < length ds"
  shows "\<exists>p. \<forall>d. luhn_sum (ds[k := d]) = luhn_sum ds - luhn_weight p (ds ! k) + luhn_weight p d"
proof -
  let ?j = "length ds - Suc k"
  have "luhn_sum (ds[k := d]) =
      luhn_sum ds - luhn_weight (odd ?j) (ds ! k) + luhn_weight (odd ?j) d" for d
    using assms weighed_update[of ?j "rev ds" d]
    by (simp add: luhn_sum_weighed rev_nth_update rev_nth)
  then show ?thesis by blast
qed

lemma luhn_sum_swap:
  assumes "Suc k < length ds"
  shows "\<exists>p. luhn_sum (ds[k := ds ! Suc k, Suc k := ds ! k]) = luhn_sum ds +
    (luhn_weight p (ds ! Suc k) + luhn_weight (\<not> p) (ds ! k) -
     luhn_weight p (ds ! k) - luhn_weight (\<not> p) (ds ! Suc k))"
proof -
  let ?j = "length ds - Suc (Suc k)" and ?xs = "ds[k := ds ! Suc k]"
  have j: "length ds - Suc k = Suc ?j" using assms by simp
  have "luhn_sum ?xs = luhn_sum ds - luhn_weight (odd (Suc ?j)) (ds ! k) +
      luhn_weight (odd (Suc ?j)) (ds ! Suc k)"
    using assms weighed_update[of "length ds - Suc k" "rev ds" "ds ! Suc k"]
    unfolding j[symmetric] by (simp add: luhn_sum_weighed rev_nth_update rev_nth)
  moreover have "luhn_sum (?xs[Suc k := ds ! k]) = luhn_sum ?xs -
      luhn_weight (odd ?j) (ds ! Suc k) + luhn_weight (odd ?j) (ds ! k)"
    using assms weighed_update[of ?j "rev ?xs" "ds ! k"]
    by (simp add: luhn_sum_weighed rev_nth_update[of "Suc k"] rev_nth)
  ultimately show ?thesis by (intro exI[of _ "odd (Suc ?j)"]) simp
qed

lemma mod_diff_zero: "(x :: int) mod 10 = 0 \<Longrightarrow> (x + y) mod 10 = 0 \<Longrightarrow> y mod 10 = 0"
  by presburger

text \<open>The Luhn check computes the reference checksum (from the right, every second digit
  doubled, digits summed, divisible by ten), and so notices every single mistyped digit and every
  swap of two neighbouring digits but 0 and 9.\<close>

theorem luhn_detects:
  assumes "list_all is_digit s"
  shows "(luhnValid s \<longleftrightarrow> luhn_sum (map digit_val s) mod 10 = 0) \<and>
    (\<forall>k c. luhnValid s \<and> k < length s \<and> is_digit c \<and> c \<noteq> s ! k \<longrightarrow> \<not> luhnValid (s[k := c])) \<and>
    (\<forall>k. luhnValid s \<and> Suc k < length s \<and> s ! k \<noteq> s ! Suc k \<and>
      {s ! k, s ! Suc k} \<noteq> {CHR ''0'', CHR ''9''} \<longrightarrow>
      \<not> luhnValid (s[k := s ! Suc k, Suc k := s ! k]))"
proof (intro conjI allI impI)
  show "luhnValid s \<longleftrightarrow> luhn_sum (map digit_val s) mod 10 = 0"
    using assms by (rule luhnValid_sum)
next
  fix k c assume a: "luhnValid s \<and> k < length s \<and> is_digit c \<and> c \<noteq> s ! k"
  let ?ds = "map digit_val s"
  have dig: "is_digit (s ! k)" using a assms by (simp add: list_all_length)
  obtain p where p: "luhn_sum (?ds[k := digit_val c]) =
      luhn_sum ?ds + (luhn_weight p (digit_val c) - luhn_weight p (digit_val (s ! k)))"
    using luhn_sum_change[of k ?ds] a by (metis add.commute add_diff_eq diff_add_eq length_map nth_map)
  have "list_all is_digit (s[k := c])"
    using a assms by (auto simp: list_all_length nth_list_update)
  then have "luhnValid (s[k := c]) \<longleftrightarrow> luhn_sum (?ds[k := digit_val c]) mod 10 = 0"
    by (simp add: luhnValid_sum map_update)
  with p a luhnValid_sum[OF assms] mod_diff_zero[of "luhn_sum ?ds"]
    luhn_weight_inject[of "digit_val (s ! k)" "digit_val c" p]
    digit_val_range[OF dig] digit_val_range[of c]
  show "\<not> luhnValid (s[k := c])" by (auto simp: digit_val_inject)
next
  fix k assume a: "luhnValid s \<and> Suc k < length s \<and> s ! k \<noteq> s ! Suc k \<and>
      {s ! k, s ! Suc k} \<noteq> {CHR ''0'', CHR ''9''}"
  let ?ds = "map digit_val s" and ?t = "s[k := s ! Suc k, Suc k := s ! k]"
  let ?a = "digit_val (s ! k)" and ?b = "digit_val (s ! Suc k)"
  have dig: "is_digit (s ! k)" "is_digit (s ! Suc k)" using a assms by (auto simp: list_all_length)
  obtain p where p: "luhn_sum (map digit_val ?t) = luhn_sum ?ds +
      (luhn_weight p ?b + luhn_weight (\<not> p) ?a - luhn_weight p ?a - luhn_weight (\<not> p) ?b)"
    using luhn_sum_swap[of k ?ds] a by (auto simp: map_update)
  have "list_all is_digit ?t"
    using a dig assms by (auto simp: list_all_length nth_list_update)
  then have valid: "luhnValid ?t \<longleftrightarrow> luhn_sum (map digit_val ?t) mod 10 = 0"
    by (rule luhnValid_sum)
  have ne: "?a \<noteq> ?b" using a by (simp add: digit_val_inject)
  have "digit_val (CHR ''0'') = 0" "digit_val (CHR ''9'') = 9" by (simp_all add: digit_val_def)
  then have "\<not> (?a = 0 \<and> ?b = 9 \<or> ?a = 9 \<and> ?b = 0)"
    using a by (metis digit_val_inject insert_commute)
  with luhn_weight_swap[of ?a ?b p] digit_val_range[OF dig(1)] digit_val_range[OF dig(2)] ne
    p valid a luhnValid_sum[OF assms] mod_diff_zero[of "luhn_sum ?ds"]
  show "\<not> luhnValid ?t" by auto
qed

theorem luhn_detects_witness:
  "luhnValid ''4242424242424242'' \<and> \<not> luhnValid (''4242424242424242''[3 := CHR ''7''])"
proof -
  have s: "list_all is_digit ''4242424242424242''" "luhnValid ''4242424242424242''"
    by code_simp+
  have d: "is_digit CHR ''7''" "CHR ''7'' \<noteq> ''4242424242424242'' ! 3"
      "3 < length ''4242424242424242''"
    by code_simp+
  from luhn_detects[OF s(1)] s(2) d show ?thesis by blast
qed

section \<open>From the card to the bank's answer\<close>

text \<open>Which cards are accepted, in terms of the reference.\<close>

definition card_ok :: "card_request \<Rightarrow> bool" where
  "card_ok req \<longleftrightarrow>
     list_all is_digit (card_digits req) \<and> length (card_digits req) \<in> {13..19} \<and>
     luhn_sum (map digit_val (card_digits req)) mod 10 = 0 \<and>
     cd_exp_month req \<in> {1..12} \<and> cd_exp_year req \<in> {2000..2100} \<and>
     list_all is_digit (cd_cvc req) \<and> length (cd_cvc req) \<in> {3, 4}"

lemma card_checks:
  "card_ok req \<longleftrightarrow>
     (digitsOnly (card_digits req) \<and> 13 \<le> length (card_digits req) \<and>
      length (card_digits req) \<le> 19 \<and> luhnValid (card_digits req)) \<and>
     (1 \<le> cd_exp_month req \<and> cd_exp_month req \<le> 12) \<and>
     (2000 \<le> cd_exp_year req \<and> cd_exp_year req \<le> 2100) \<and>
     3 \<le> length (cd_cvc req) \<and> length (cd_cvc req) \<le> 4 \<and> digitsOnly (cd_cvc req)"
  unfolding card_ok_def digitsOnly_iff
  by (auto simp: luhnValid_sum)

text \<open>C34: A card is tokenized exactly if its number has 13 to 19 digits that pass the checksum and
  expiry and code are well-formed; the answer shows no more of the number than its brand and its
  last four digits; and the token, spent at the bank simulator, is declined or times out for the
  two test cards and is approved for every other card.\<close>

theorem card_outcomes:
  assumes "0 \<le> latency" and "latency < bankTimeout" and "bind_body (lb_card L) rq = Some req"
  shows "snd (create_token L c rq w) = w \<and>
    (status_of (fst (create_token L c rq w)) = 200 \<longleftrightarrow> card_ok req) \<and>
    (card_ok req \<longrightarrow> (\<exists>tok. fst (create_token L c rq w) = respond 200 (Doc (JObj
        [(''card'', JObj [(''brand'', JStr (cardBrand (take 1 (card_digits req)))),
            (''exp_month'', JInt (cd_exp_month req)), (''exp_year'', JInt (cd_exp_year req)),
            (''last4'', JStr (drop (length (card_digits req) - 4) (card_digits req)))]),
         (''id'', JStr tok), (''object'', JStr ''token'')])) \<and>
      (\<forall>auth. ar_token auth = tok \<longrightarrow> Authorize (sim_http bankTimeout latency) auth =
        (if card_digits req = ''4000000000000002'' then Inr Declined
         else if card_digits req = ''4000000000000069'' then Inl BankTransport
         else Inr Approved))))"
proof (cases "card_ok req")
  case True
  have brand: "cardBrand (take (Suc 0) n) = cardBrand n" for n
    by (simp add: cardBrand_def)
  show ?thesis
    using True[unfolded card_checks] assms(3) True simulator_outcomes[OF assms(1,2)]
    by (auto simp: create_token_def Let_def brand magicTokenForCard_def tokDeclined_def
        tokTimeout_def respond_def status_of_def cardBrand_def[of "CHR 4 # _"])
next
  case False
  with assms(3) show ?thesis
    unfolding card_checks
    by (auto simp: create_token_def Let_def respondError_def respond_def status_of_def)
qed

definition demo_card :: card_request where
  "demo_card = \<lparr>cd_number = '' 4000 0000 0000 0002'', cd_exp_month = 12, cd_exp_year = 2030,
     cd_cvc = ''123''\<rparr>"

lemma demo_card_ok: "card_ok demo_card" "card_digits demo_card = ''4000000000000002''"
  by code_simp+

theorem card_outcomes_witness:
  "\<forall>c w. status_of (fst (create_token (plain_lib\<lparr>lb_card := \<lambda>b. Some demo_card\<rparr>) c plain_request w)) = 200"
proof (intro allI)
  fix c w
  have "bind_body (lb_card (plain_lib\<lparr>lb_card := \<lambda>b. Some demo_card\<rparr>)) plain_request = Some demo_card"
    by (simp add: bind_body_def plain_request_def)
  from card_outcomes[OF _ _ this, of 0 c w] demo_card_ok(1)
  show "status_of (fst (create_token (plain_lib\<lparr>lb_card := \<lambda>b. Some demo_card\<rparr>) c plain_request w)) = 200"
    by (simp add: bankTimeout_def seconds_def)
qed

end
