(* ===== verification/Webhook.thy ===== *)
theory Webhook
  imports Http
begin

text \<open>
  The delivery of outbox events to merchant endpoints: signatures (\<^verbatim>\<open>internal/webhook/sign.go\<close>)
  and the processor (\<^verbatim>\<open>internal/webhook/deliver.go\<close>) that claims due rows, posts them, and retries
  with backoff or retires them. The merchant's server is an arbitrary function of the request.
\<close>

section \<open>Signatures\<close>

definition Sign :: "lib \<Rightarrow> string \<Rightarrow> bytes \<Rightarrow> string" where
  "Sign L secret b = ''sha256='' @ hex_encode (lb_hmac L secret b)"

definition Verify :: "lib \<Rightarrow> string \<Rightarrow> bytes \<Rightarrow> string \<Rightarrow> bool" where
  "Verify L secret b sig \<longleftrightarrow> sig = Sign L secret b"

section \<open>The processor\<close>

record processor =
  pr_max_attempts :: int
  pr_base_backoff :: time
  pr_lease :: time

definition NewProcessor :: processor where
  "NewProcessor = \<lparr>pr_max_attempts = 6, pr_base_backoff = seconds 1, pr_lease = seconds 30\<rparr>"

text \<open>
  What is posted. An exchange takes some microseconds and yields an error text or a status code; the
  client of \<^verbatim>\<open>NewProcessor\<close> cuts it after ten seconds.
\<close>

record hook_request =
  hk_url :: string
  hk_signature :: string
  hk_event_id :: uuid
  hk_event_type :: string
  hk_body :: bytes

type_synonym hook_http = "hook_request \<Rightarrow> nat \<times> (string + int)"

definition hook_request_for :: "lib \<Rightarrow> string \<Rightarrow> string \<Rightarrow> outbox \<Rightarrow> hook_request" where
  "hook_request_for L url secret row =
     (let b = lb_render L (ob_payload row)
      in \<lparr>hk_url = url, hk_signature = Sign L secret b, hk_event_id = ob_event_id row,
          hk_event_type = ob_type row, hk_body = b\<rparr>)"

definition clientTimeout :: nat where "clientTimeout = 10000000"

definition hook_do :: "hook_http \<Rightarrow> hook_request \<Rightarrow> nat \<times> (string + int)" where
  "hook_do hc req =
     (case hc req of (t, answer) \<Rightarrow>
        if t \<le> clientTimeout then (t, answer)
        else (clientTimeout, Inl (''Post '' @ [CHR 0x22] @ hk_url req @ [CHR 0x22] @
          '': context deadline exceeded (Client.Timeout exceeded while awaiting headers)'')))"

text \<open>Status code, success and error of an answer.\<close>

definition hook_verdict :: "string + int \<Rightarrow> int \<times> bool \<times> string option" where
  "hook_verdict answer =
     (case answer of
        Inl e \<Rightarrow> (0, False, Some e)
      | Inr code \<Rightarrow>
          if 200 \<le> code \<and> code < 300 then (code, True, None)
          else (code, False, Some (''endpoint returned '' @ show_int code)))"

definition wait :: "nat \<Rightarrow> unit io" where
  "wait t w = (Inr (), w\<lparr>clock := clock w + int t\<rparr>)"

definition post :: "lib \<Rightarrow> hook_http \<Rightarrow> string \<Rightarrow> string \<Rightarrow> outbox \<Rightarrow> (int \<times> bool \<times> string option) io" where
  "post L hc url secret row =
     (case hook_do hc (hook_request_for L url secret row) of (t, answer) \<Rightarrow>
        bnd (wait t) (\<lambda>_. ret (hook_verdict answer)))"

definition maxBackoff :: time where "maxBackoff = seconds 300"

fun backoff_loop :: "nat \<Rightarrow> time \<Rightarrow> time" where
  "backoff_loop 0 d = d"
| "backoff_loop (Suc k) d =
     (let d2 = d * 2 in if maxBackoff \<le> d2 then maxBackoff else backoff_loop k d2)"

definition backoff :: "processor \<Rightarrow> int \<Rightarrow> time" where
  "backoff P attempt = backoff_loop (nat (attempt - 1)) (pr_base_backoff P)"

definition time_now :: "time io" where
  "time_now w = (Inr (clock w), w)"

definition deliverRow :: "lib \<Rightarrow> processor \<Rightarrow> hook_http \<Rightarrow> outbox \<Rightarrow> unit io" where
  "deliverRow L P hc row =
     bnd (run (ListActiveEndpoints (ob_merchant row))) (\<lambda>endpoints.
     case endpoints of
       [] \<Rightarrow> run (MarkOutboxDelivered (ob_id row))
     | ep # _ \<Rightarrow>
         let attempt = ob_attempts row + 1 in
         bnd (post L hc (we_url ep) (we_secret ep) row) (\<lambda>(code, ok, err).
         bnd (run (InsertDelivery (ob_id row) attempt
                (if code \<noteq> 0 then Some (word_of_int code) else None) ok err)) (\<lambda>_.
         if ok then run (MarkOutboxDelivered (ob_id row))
         else
           let reason = (case err of None \<Rightarrow> ''non-2xx response'' | Some e \<Rightarrow> e) in
           if pr_max_attempts P \<le> sint attempt
           then run (MarkOutboxDead (ob_id row) (Some reason))
           else bnd time_now (\<lambda>now.
                run (MarkOutboxRetry (ob_id row) (now + backoff P (sint attempt)) (Some reason))))))"

fun deliver_rows :: "lib \<Rightarrow> processor \<Rightarrow> hook_http \<Rightarrow> outbox list \<Rightarrow> unit io" where
  "deliver_rows L P hc [] = ret ()"
| "deliver_rows L P hc (row # rows) = bnd (deliverRow L P hc row) (\<lambda>_. deliver_rows L P hc rows)"

definition ProcessDue :: "lib \<Rightarrow> processor \<Rightarrow> hook_http \<Rightarrow> int32 \<Rightarrow> nat io" where
  "ProcessDue L P hc limit =
     bnd (run (ClaimDueOutbox (pr_lease P) limit)) (\<lambda>rows.
     bnd (deliver_rows L P hc rows) (\<lambda>_. ret (length rows)))"

text \<open>The dispatcher hands the claimed ids to a queue; \<open>enqueue\<close> tells whether that succeeds.\<close>

datatype dispatch_error = DispatchDb error | DispatchQueue

definition Dispatch ::
    "processor \<Rightarrow> int32 \<Rightarrow> (uuid \<Rightarrow> bool) \<Rightarrow> world \<Rightarrow> (dispatch_error + nat) \<times> world" where
  "Dispatch P limit enqueue =
     and_then (run (ClaimDueOutbox (pr_lease P) limit)) (\<lambda>r. say
       (case r of
          Inl e \<Rightarrow> Inl (DispatchDb e)
        | Inr rows \<Rightarrow>
            if list_all (\<lambda>row. enqueue (ob_id row)) rows then Inr (length rows)
            else Inl DispatchQueue))"

definition DeliverByID :: "lib \<Rightarrow> processor \<Rightarrow> hook_http \<Rightarrow> uuid \<Rightarrow> unit io" where
  "DeliverByID L P hc i =
     bnd (run (GetOutbox i)) (\<lambda>row.
     if ob_status row \<noteq> ''pending'' then ret () else deliverRow L P hc row)"

section \<open>What is signed\<close>

text \<open>Every delivery carries the event's identity and a signature that the receiver's check accepts
  for exactly the posted bytes: under the shared secret, a signature of other bytes is accepted
  only where the keyed digest collides, and an altered signature never.\<close>

theorem deliveries_verify:
  "hk_event_id (hook_request_for L url secret row) = ob_event_id row \<and>
   hk_body (hook_request_for L url secret row) = lb_render L (ob_payload row) \<and>
   (\<forall>b sig. Verify L secret b sig \<longleftrightarrow>
      sig = ''sha256='' @ hex_encode (lb_hmac L secret b)) \<and>
   (\<forall>b. Verify L secret b (hk_signature (hook_request_for L url secret row)) \<longleftrightarrow>
      lb_hmac L secret b = lb_hmac L secret (hk_body (hook_request_for L url secret row)))"
  by (auto simp: hook_request_for_def Verify_def Sign_def Let_def)

section \<open>Backoff\<close>

lemma backoff_loop_closed:
  "0 < d \<Longrightarrow> d < maxBackoff \<Longrightarrow> backoff_loop k d = min (d * 2 ^ k) maxBackoff"
proof (induction k arbitrary: d)
  case 0
  then show ?case by simp
next
  case (Suc k)
  show ?case
  proof (cases "maxBackoff \<le> d * 2")
    case True
    have "d * 2 * 1 \<le> d * 2 * 2 ^ k" using Suc.prems by (intro mult_left_mono) simp_all
    with True have "maxBackoff \<le> d * 2 ^ Suc k" by simp
    with True show ?thesis by simp
  next
    case False
    with Suc show ?thesis by (simp add: ac_simps)
  qed
qed

text \<open>The delay before the next attempt doubles from one second with every failed attempt and never
  exceeds five minutes.\<close>

theorem backoff_closed:
  assumes "1 \<le> attempt"
  shows "backoff NewProcessor attempt = min (seconds (2 ^ nat (attempt - 1))) (seconds 300)"
  using backoff_loop_closed[of "seconds 1" "nat (attempt - 1)"]
  by (simp add: backoff_def NewProcessor_def maxBackoff_def seconds_def)

theorem backoff_closed_witness:
  "backoff NewProcessor 6 = seconds 32"
  using backoff_closed[of 6] by (simp add: seconds_def)

section \<open>Claims\<close>

lemma claim_rows:
  assumes "ClaimDueOutbox lease lim u now d = Inr (rows, d')"
  shows "set (map ob_id rows) = set (map ob_id (take (nat (sint lim)) (due_rows now d)))"
    and "t_outbox d' = update_where (\<lambda>r. ob_id r \<in> set (map ob_id rows)) (lease_row (now + lease)) (t_outbox d)"
    and "d' = d\<lparr>t_outbox := t_outbox d'\<rparr>" and "rows = filter (\<lambda>r. ob_id r \<in> set (map ob_id rows)) (t_outbox d')"
proof -
  obtain claimed where c: "claimed = take (nat (sint lim)) (due_rows now d)" 
    and rows: "rows = filter (\<lambda>r. ob_id r \<in> set (map ob_id claimed))
      (update_where (\<lambda>r. ob_id r \<in> set (map ob_id claimed)) (lease_row (now + lease)) (t_outbox d))"
    and d': "d' = d\<lparr>t_outbox := update_where (\<lambda>r. ob_id r \<in> set (map ob_id claimed))
      (lease_row (now + lease)) (t_outbox d)\<rparr>"
    using assms by (auto simp: ClaimDueOutbox_def limit_rows_def Let_def split: if_splits)
  have "set claimed \<subseteq> set (t_outbox d)"
    unfolding c using set_take_subset by (fastforce simp: due_rows_def)
  moreover have ids: "map ob_id (filter (\<lambda>r. ob_id r \<in> S) xs) = filter (\<lambda>i. i \<in> S) (map ob_id xs)" for S xs
    by (simp add: filter_map o_def)
  have "map ob_id rows = filter (\<lambda>i. i \<in> set (map ob_id claimed)) (map ob_id (t_outbox d))"
    unfolding rows ids outbox_lease.keys_update by (rule refl)
  ultimately have "set (map ob_id rows) = set (map ob_id claimed)" by auto
  with c rows d' show "set (map ob_id rows) = set (map ob_id (take (nat (sint lim)) (due_rows now d)))"
    "t_outbox d' = update_where (\<lambda>r. ob_id r \<in> set (map ob_id rows)) (lease_row (now + lease)) (t_outbox d)"
    "d' = d\<lparr>t_outbox := t_outbox d'\<rparr>" "rows = filter (\<lambda>r. ob_id r \<in> set (map ob_id rows)) (t_outbox d')"
    by simp_all
qed

lemma claimed_rows:
  assumes "distinct (map ob_id (t_outbox (tables w)))"
    and "run (ClaimDueOutbox lease lim) w = (Inr rows, w1)"
  shows "distinct (map ob_id rows)" and "length rows \<le> nat (sint lim)"
    and "\<forall>r \<in> set rows. ob_status r = ''pending'' \<and> ob_next r = clock w + lease"
    and "set rows \<subseteq> set (t_outbox (tables w1))" and "distinct (map ob_id (t_outbox (tables w1)))"
proof -
  obtain u where cl: "ClaimDueOutbox lease lim u (clock w) (tables w) = Inr (rows, tables w1)"
    using assms(2) by (auto elim!: run_success)
  let ?S = "set (map ob_id rows)"
  note n = claim_rows(1)[OF cl] and d = claim_rows(2)[OF cl] and rows = claim_rows(4)[OF cl]
  show keys: "distinct (map ob_id (t_outbox (tables w1)))"
    using assms(1) by (simp add: d outbox_lease.keys_update)
  then show ids: "distinct (map ob_id rows)"
    by (subst rows) (simp add: distinct_map_filter)
  have "length rows = card ?S" using ids distinct_card[of "map ob_id rows"] by simp
  also have "?S = set (map ob_id (take (nat (sint lim)) (due_rows (clock w) (tables w))))"
    by (rule n)
  also have "card \<dots> \<le> length (map ob_id (take (nat (sint lim)) (due_rows (clock w) (tables w))))"
    by (rule card_length)
  finally show "length rows \<le> nat (sint lim)" by simp
  have mem: "r \<in> set (t_outbox (tables w1)) \<and> ob_id r \<in> ?S" if "r \<in> set rows" for r
    using that eqset_imp_iff[OF arg_cong[OF rows, of set], of r]
    by (simp_all only: set_filter mem_Collect_eq)
  then show "set rows \<subseteq> set (t_outbox (tables w1))" by blast
  show "\<forall>r \<in> set rows. ob_status r = ''pending'' \<and> ob_next r = clock w + lease"
  proof
    fix r assume "r \<in> set rows"
    with mem have "r \<in> set (t_outbox (tables w1))" "ob_id r \<in> ?S" by blast+
    then obtain r0 where r0: "r0 \<in> set (t_outbox (tables w))" "r = lease_row (clock w + lease) r0"
        "ob_id r0 \<in> ?S"
      unfolding d by (auto simp: update_where_def lease_row_def split: if_splits)
    then obtain r1 where r1: "r1 \<in> set (t_outbox (tables w))" "ob_status r1 = ''pending''" "ob_id r1 = ob_id r0"
      using n by (auto simp: due_rows_def dest!: in_set_takeD)
    with r0(1) assms(1) have "r1 = r0" by (auto intro: distinct_key_eq)
    with r0 r1 show "ob_status r = ''pending'' \<and> ob_next r = clock w + lease"
      by (simp add: lease_row_def)
  qed
qed

text \<open>C30: Two claims never share a row: of the rows one dispatcher claimed (at most as many as it asked
  for, all pending and leased), none can be claimed again by anyone before the lease runs out or
  the row is changed.\<close>

theorem claims_disjoint:
  assumes "distinct (map ob_id (t_outbox (tables w)))"
    and "run (ClaimDueOutbox lease lim) w = (Inr rows, w1)"
    and "distinct (map ob_id (t_outbox (tables v)))" and "set rows \<subseteq> set (t_outbox (tables v))"
    and "clock v < clock w + lease"
    and "run (ClaimDueOutbox lease' lim') v = (Inr rows', v1)"
  shows "length rows \<le> nat (sint lim) \<and>
    (\<forall>r \<in> set rows. ob_status r = ''pending'' \<and> ob_next r = clock w + lease) \<and>
    set (map ob_id rows) \<inter> set (map ob_id rows') = {}"
proof (intro conjI)
  note claimed = claimed_rows[OF assms(1,2)]
  show "length rows \<le> nat (sint lim)" by (rule claimed(2))
  show leased: "\<forall>r \<in> set rows. ob_status r = ''pending'' \<and> ob_next r = clock w + lease"
    by (rule claimed(3))
  obtain u' d' where cl': "ClaimDueOutbox lease' lim' u' (clock v) (tables v) = Inr (rows', d')"
    using assms(6) by (auto elim!: run_success)
  have due: "\<exists>r \<in> set (t_outbox (tables v)). ob_id r = i \<and> ob_next r \<le> clock v"
    if "i \<in> set (map ob_id rows')" for i
    using that claim_rows(1)[OF cl'] by (auto simp: due_rows_def dest!: in_set_takeD)
  show "set (map ob_id rows) \<inter> set (map ob_id rows') = {}"
  proof (rule ccontr)
    assume "set (map ob_id rows) \<inter> set (map ob_id rows') \<noteq> {}"
    then obtain r where r: "r \<in> set rows" "ob_id r \<in> set (map ob_id rows')" by auto
    from due[OF r(2)] obtain r' where r': "r' \<in> set (t_outbox (tables v))" "ob_id r' = ob_id r"
        "ob_next r' \<le> clock v" by blast
    then have "r' = r" using assms(3,4) r(1) by (auto intro: distinct_key_eq)
    with r' leased r(1) assms(5) show False by auto
  qed
qed

section \<open>One attempt\<close>

text \<open>What an attempt that starts at \<open>now\<close> makes of a row, and what it logs.\<close>

definition hook_answer :: "lib \<Rightarrow> hook_http \<Rightarrow> webhook_endpoint \<Rightarrow> outbox \<Rightarrow> nat \<times> (string + int)" where
  "hook_answer L hc ep r = hook_do hc (hook_request_for L (we_url ep) (we_secret ep) r)"

definition after_attempt ::
    "lib \<Rightarrow> processor \<Rightarrow> hook_http \<Rightarrow> time \<Rightarrow> webhook_endpoint \<Rightarrow> outbox \<Rightarrow> outbox" where
  "after_attempt L P hc now ep r =
     (case hook_answer L hc ep r of (t, answer) \<Rightarrow> case hook_verdict answer of (code, ok, err) \<Rightarrow>
        if ok then deliver_row r
        else if pr_max_attempts P \<le> sint (ob_attempts r + 1) then kill_row err r
        else retry_row (now + int t + backoff P (sint (ob_attempts r + 1))) err r)"

definition attempt_log ::
    "lib \<Rightarrow> hook_http \<Rightarrow> uuid \<Rightarrow> time \<Rightarrow> webhook_endpoint \<Rightarrow> outbox \<Rightarrow> webhook_delivery" where
  "attempt_log L hc u now ep r =
     (case hook_answer L hc ep r of (t, answer) \<Rightarrow> case hook_verdict answer of (code, ok, err) \<Rightarrow>
        \<lparr>wd_id = u, wd_outbox = ob_id r, wd_attempt = ob_attempts r + 1,
         wd_code = (if code \<noteq> 0 then Some (word_of_int code) else None), wd_ok = ok,
         wd_error = err, wd_created = now + int t\<rparr>)"

definition active_endpoints :: "uuid \<Rightarrow> db \<Rightarrow> webhook_endpoint list" where
  "active_endpoints m d = sort_key we_created
     (filter (\<lambda>e. we_merchant e = m \<and> we_disabled e = None) (t_endpoints d))"

lemma verdict_err: "hook_verdict a = (code, ok, err) \<Longrightarrow> \<not> ok \<Longrightarrow> \<exists>e. err = Some e"
  by (auto simp: hook_verdict_def split: sum.splits if_splits)

lemma hook_answer_time: "fst (hook_answer L hc ep r) \<le> clientTimeout"
  by (simp add: hook_answer_def hook_do_def split: prod.split)

lemma post_waits: "hook_answer L hc ep r = (t, a) \<Longrightarrow>
    post L hc (we_url ep) (we_secret ep) r w = (Inr (hook_verdict a), w\<lparr>clock := clock w + int t\<rparr>)"
  by (simp add: post_def hook_answer_def wait_def bnd_def ret_def)

lemma works_step [simp]:
  "works (w\<lparr>fpos := a, rpos := b\<rparr>) = works w"
  "works (w\<lparr>fpos := a, rpos := b, tables := d\<rparr>) = works w"
  "works (w\<lparr>clock := t\<rparr>) = works w"
  by (simp_all add: works_def)

text \<open>\<open>attempted L P hc u now r d\<close>: the tables after an attempt on row \<open>r\<close>, logged with id \<open>u\<close>.\<close>

definition attempted :: "lib \<Rightarrow> processor \<Rightarrow> hook_http \<Rightarrow> uuid \<Rightarrow> time \<Rightarrow> outbox \<Rightarrow> db \<Rightarrow> db" where
  "attempted L P hc u now r d =
     (case active_endpoints (ob_merchant r) d of
        [] \<Rightarrow> d\<lparr>t_outbox := update_where (\<lambda>x. ob_id x = ob_id r) deliver_row (t_outbox d)\<rparr>
      | ep # _ \<Rightarrow> d\<lparr>
          t_outbox := update_where (\<lambda>x. ob_id x = ob_id r) (after_attempt L P hc now ep) (t_outbox d),
          t_deliveries := t_deliveries d @ [attempt_log L hc u now ep r]\<rparr>)"

definition attempt_time :: "lib \<Rightarrow> hook_http \<Rightarrow> outbox \<Rightarrow> db \<Rightarrow> time" where
  "attempt_time L hc r d =
     (case active_endpoints (ob_merchant r) d of [] \<Rightarrow> 0 | ep # _ \<Rightarrow> int (fst (hook_answer L hc ep r)))"

text \<open>\<open>after_delivery L P hc j n r w\<close>: the world then, after \<open>n\<close> exchanges with the database of which the
  one that draws the id of the log is \<open>j\<close> exchanges ahead.\<close>

definition after_delivery :: "lib \<Rightarrow> processor \<Rightarrow> hook_http \<Rightarrow> nat \<Rightarrow> nat \<Rightarrow> outbox \<Rightarrow> world \<Rightarrow> world" where
  "after_delivery L P hc j n r w = w\<lparr>fpos := fpos w + n, rpos := rpos w + n,
     clock := clock w + attempt_time L hc r (tables w),
     tables := attempted L P hc (rng w (rpos w + j)) (clock w) r (tables w)\<rparr>"

lemma after_delivery_simps [simp]:
  "tables (after_delivery L P hc j n r w) = attempted L P hc (rng w (rpos w + j)) (clock w) r (tables w)"
  "clock (after_delivery L P hc j n r w) = clock w + attempt_time L hc r (tables w)"
  "rng (after_delivery L P hc j n r w) = rng w" "rpos (after_delivery L P hc j n r w) = rpos w + n"
  "works (after_delivery L P hc j n r w) = works w"
  by (simp_all add: after_delivery_def works_def)

lemma attempt_time_bounds: "0 \<le> attempt_time L hc r d" "attempt_time L hc r d \<le> seconds 10"
  using hook_answer_time[of L hc _ r]
  by (auto simp: attempt_time_def clientTimeout_def seconds_def split: list.split)

lemma deliverRow_effect:
  assumes w: "works w" and r: "r \<in> set (t_outbox (tables w))"
    and dist: "distinct (map ob_id (t_outbox (tables w)))"
    and free: "rng w (rpos w + 1) \<notin> wd_id ` set (t_deliveries (tables w))"
  shows "\<exists>n \<in> {2, 3}. deliverRow L P hc r w = (Inr (), after_delivery L P hc 1 n r w)"
proof -
  note effect = deliverRow_def Let_def bnd_def run_works after_delivery_def attempted_def attempt_time_def
  have list: "ListActiveEndpoints (ob_merchant r) u now (tables w) =
      Inr (active_endpoints (ob_merchant r) (tables w), tables w)" for u now
    by (simp add: ListActiveEndpoints_def active_endpoints_def)
  have only: "update_where (\<lambda>x. ob_id x = ob_id r) f (t_outbox (tables w)) =
      update_where (\<lambda>x. ob_id x = ob_id r) g (t_outbox (tables w))" if "f r = g r" for f g
    using that distinct_key_eq[OF dist _ r] by (auto simp: update_where_def)
  show ?thesis
  proof (cases "active_endpoints (ob_merchant r) (tables w)")
    case Nil
    with w list show ?thesis
      by (intro bexI[of _ 2])
         (simp_all add: effect MarkOutboxDelivered_def)
  next
    case (Cons ep eps)
    obtain t a where ans: "hook_answer L hc ep r = (t, a)" by (cases "hook_answer L hc ep r")
    obtain code ok err where v: "hook_verdict a = (code, ok, err)" by (metis prod_cases3)
    note p = ans v post_waits[OF ans]
    have ref: "ob_id r \<in> ob_id ` set (t_outbox (tables w))" using r by simp
    show ?thesis
    proof (cases ok)
      case True
      with w list Cons p free ref only[of deliver_row "after_attempt L P hc (clock w) ep"]
      show ?thesis
        by (intro bexI[of _ 3])
           (simp_all add: effect InsertDelivery_def MarkOutboxDelivered_def attempt_log_def after_attempt_def)
    next
      case False
      then obtain e where e: "err = Some e" using verdict_err[OF v] by blast
      show ?thesis
      proof (cases "pr_max_attempts P \<le> sint (ob_attempts r + 1)")
        case True
        with False w list Cons p e free ref only[of "kill_row err" "after_attempt L P hc (clock w) ep"]
        show ?thesis
          by (intro bexI[of _ 3])
             (simp_all add: effect InsertDelivery_def MarkOutboxDead_def attempt_log_def after_attempt_def
               Let_def)
      next
        case live: False
        with False w list Cons p e free ref
          only[of "retry_row (clock w + int t + backoff P (sint (ob_attempts r + 1))) err"
            "after_attempt L P hc (clock w) ep"]
        show ?thesis
          by (intro bexI[of _ 3])
             (simp_all add: effect InsertDelivery_def MarkOutboxRetry_def time_now_def attempt_log_def
               after_attempt_def Let_def)
      qed
    qed
  qed
qed

lemma DeliverByID_row:
  assumes w: "works w" and r: "r \<in> set (t_outbox (tables w))"
    and dist: "distinct (map ob_id (t_outbox (tables w)))" and pending: "ob_status r = ''pending''"
  shows "DeliverByID L P hc (ob_id r) w =
    deliverRow L P hc r (w\<lparr>fpos := Suc (fpos w), rpos := Suc (rpos w)\<rparr>)"
proof -
  have "filter (\<lambda>x. ob_id x = ob_id r) (t_outbox (tables w)) = [r]"
    using filter_key_single[of ob_id "t_outbox (tables w)" r "\<lambda>_. True"] dist r by simp
  with w pending show ?thesis by (simp add: DeliverByID_def bnd_def run_works GetOutbox_def one_row_def)
qed

lemma deliver_effect:
  assumes w: "works w" and r: "r \<in> set (t_outbox (tables w))"
    and dist: "distinct (map ob_id (t_outbox (tables w)))" and pending: "ob_status r = ''pending''"
    and free: "rng w (rpos w + 2) \<notin> wd_id ` set (t_deliveries (tables w))"
  shows "\<exists>n \<in> {3, 4}. DeliverByID L P hc (ob_id r) w = (Inr (), after_delivery L P hc 2 n r w)"
proof -
  let ?w = "w\<lparr>fpos := Suc (fpos w), rpos := Suc (rpos w)\<rparr>"
  have "\<exists>n \<in> {2, 3}. deliverRow L P hc r ?w = (Inr (), after_delivery L P hc 1 n r ?w)"
    by (rule deliverRow_effect) (use w r dist free in simp_all)
  moreover have "after_delivery L P hc 1 n r ?w = after_delivery L P hc 2 (Suc n) r w" for n
    by (simp add: after_delivery_def)
  ultimately show ?thesis unfolding DeliverByID_row[OF w r dist pending] by auto
qed

text \<open>C27: One attempt on a pending event, over a database that works, does exactly this: with no active
  endpoint the event is retired as delivered; otherwise it is posted to the oldest active
  endpoint, which takes what the endpoint takes but ten seconds at most, and logged when the exchange has
  ended, and becomes delivered on a 2xx answer, dead if it was the sixth attempt, and else due again
  after the backoff from then, one attempt further. Nothing else changes.\<close>

theorem delivery_exact:
  assumes "works w" and "r \<in> set (t_outbox (tables w))"
    and "distinct (map ob_id (t_outbox (tables w)))" and "ob_status r = ''pending''"
    and "rng w (rpos w + 2) \<notin> wd_id ` set (t_deliveries (tables w))"
  shows "fst (DeliverByID L P hc (ob_id r) w) = Inr () \<and>
    tables (snd (DeliverByID L P hc (ob_id r) w)) =
      (case active_endpoints (ob_merchant r) (tables w) of
         [] \<Rightarrow> (tables w)\<lparr>t_outbox :=
           update_where (\<lambda>x. ob_id x = ob_id r) deliver_row (t_outbox (tables w))\<rparr>
       | ep # _ \<Rightarrow>
           let ended = clock (snd (DeliverByID L P hc (ob_id r) w)) in (tables w)\<lparr>
           t_outbox := update_where (\<lambda>x. ob_id x = ob_id r)
             (case snd (hook_do hc (hook_request_for L (we_url ep) (we_secret ep) r)) of
                Inr code \<Rightarrow>
                  if 200 \<le> code \<and> code < 300 then deliver_row
                  else let e = Some (''endpoint returned '' @ show_int code) in
                    if pr_max_attempts P \<le> sint (ob_attempts r + 1) then kill_row e
                    else retry_row (ended + backoff P (sint (ob_attempts r + 1))) e
              | Inl e \<Rightarrow>
                  if pr_max_attempts P \<le> sint (ob_attempts r + 1) then kill_row (Some e)
                  else retry_row (ended + backoff P (sint (ob_attempts r + 1))) (Some e))
             (t_outbox (tables w)),
           t_deliveries := t_deliveries (tables w) @
             [attempt_log L hc (rng w (rpos w + 2)) (clock w) ep r]\<rparr>) \<and>
    clock (snd (DeliverByID L P hc (ob_id r) w)) = clock w +
      (case active_endpoints (ob_merchant r) (tables w) of
         [] \<Rightarrow> 0
       | ep # _ \<Rightarrow> min (int (fst (hc (hook_request_for L (we_url ep) (we_secret ep) r)))) (seconds 10))"
proof -
  have only: "update_where (\<lambda>x. ob_id x = ob_id r) f (t_outbox (tables w)) =
      update_where (\<lambda>x. ob_id x = ob_id r) g (t_outbox (tables w))" if "f r = g r" for f g
    using that distinct_key_eq[OF assms(3) _ assms(2)] by (auto simp: update_where_def)
  have rows: "update_where (\<lambda>x. ob_id x = ob_id r) (after_attempt L P hc (clock w) ep) (t_outbox (tables w)) =
      update_where (\<lambda>x. ob_id x = ob_id r)
        (case snd (hook_do hc (hook_request_for L (we_url ep) (we_secret ep) r)) of
           Inr code \<Rightarrow>
             if 200 \<le> code \<and> code < 300 then deliver_row
             else let e = Some (''endpoint returned '' @ show_int code) in
               if pr_max_attempts P \<le> sint (ob_attempts r + 1) then kill_row e
               else retry_row (clock w + int (fst (hook_answer L hc ep r)) +
                 backoff P (sint (ob_attempts r + 1))) e
         | Inl e \<Rightarrow>
             if pr_max_attempts P \<le> sint (ob_attempts r + 1) then kill_row (Some e)
             else retry_row (clock w + int (fst (hook_answer L hc ep r)) +
               backoff P (sint (ob_attempts r + 1))) (Some e))
        (t_outbox (tables w))" for ep
  proof (rule only)
    obtain t a where "hook_do hc (hook_request_for L (we_url ep) (we_secret ep) r) = (t, a)" by fastforce
    then show "after_attempt L P hc (clock w) ep r = (case snd (hook_do hc (hook_request_for L (we_url ep) (we_secret ep) r)) of
           Inr code \<Rightarrow>
             if 200 \<le> code \<and> code < 300 then deliver_row
             else let e = Some (''endpoint returned '' @ show_int code) in
               if pr_max_attempts P \<le> sint (ob_attempts r + 1) then kill_row e
               else retry_row (clock w + int (fst (hook_answer L hc ep r)) +
                 backoff P (sint (ob_attempts r + 1))) e
         | Inl e \<Rightarrow>
             if pr_max_attempts P \<le> sint (ob_attempts r + 1) then kill_row (Some e)
             else retry_row (clock w + int (fst (hook_answer L hc ep r)) +
               backoff P (sint (ob_attempts r + 1))) (Some e)) r"
      by (cases a) (simp_all add: after_attempt_def hook_verdict_def hook_answer_def Let_def)
  qed
  have took: "int (fst (hook_answer L hc ep r)) =
      min (int (fst (hc (hook_request_for L (we_url ep) (we_secret ep) r)))) (seconds 10)" for ep
    by (simp add: hook_answer_def hook_do_def clientTimeout_def seconds_def split: prod.split)
  from deliver_effect[OF assms, of L P hc] obtain n where
    "DeliverByID L P hc (ob_id r) w = (Inr (), after_delivery L P hc 2 n r w)" by blast
  then show ?thesis
    by (cases "active_endpoints (ob_merchant r) (tables w)")
       (simp_all add: attempted_def attempt_time_def rows[unfolded took] Let_def took)
qed

section \<open>Every event is retired\<close>

lemma sint_Suc: "sint (a :: int32) < 2 ^ 31 - 1 \<Longrightarrow> sint (a + 1) = sint a + 1"
  using sint_of_bounded32[of "sint a + 1"] sint_greater_eq[of a] by simp

text \<open>\<open>tries k\<close>: at most \<open>k\<close> more attempts are ahead of the event, and ids are at hand for them.\<close>

definition tries :: "nat \<Rightarrow> uuid \<Rightarrow> world \<Rightarrow> bool" where
  "tries k i w \<longleftrightarrow> works w \<and> distinct (map ob_id (t_outbox (tables w))) \<and>
     inj_on (rng w) {rpos w..<rpos w + 4 * k} \<and>
     (\<forall>n \<in> {rpos w..<rpos w + 4 * k}. rng w n \<notin> wd_id ` set (t_deliveries (tables w))) \<and>
     (\<exists>r \<in> set (t_outbox (tables w)). ob_id r = i \<and>
        (ob_status r = ''pending'' \<longrightarrow> 0 < k \<and> 6 - int k \<le> sint (ob_attempts r) \<and>
           sint (ob_attempts r) < 2 ^ 31 - int k))"

lemma wd_id_attempt_log [simp]: "wd_id (attempt_log L hc u now ep r) = u"
  by (simp add: attempt_log_def split: prod.split)

lemma ob_id_after_attempt [simp]: "ob_id (after_attempt L P hc now ep r) = ob_id r"
  by (simp add: after_attempt_def deliver_row_def kill_row_def retry_row_def split: prod.split)

lemma after_attempt_tries:
  assumes "ob_status r = ''pending''" and "6 - int (Suc k) \<le> sint (ob_attempts r)"
    and "sint (ob_attempts r) < 2 ^ 31 - int (Suc k)"
    and "ob_status (after_attempt L NewProcessor hc now ep r) = ''pending''"
  shows "0 < k \<and> 6 - int k \<le> sint (ob_attempts (after_attempt L NewProcessor hc now ep r)) \<and>
    sint (ob_attempts (after_attempt L NewProcessor hc now ep r)) < 2 ^ 31 - int k"
  using assms sint_Suc[of "ob_attempts r"]
  by (auto simp: after_attempt_def deliver_row_def kill_row_def retry_row_def NewProcessor_def
      split: prod.splits if_splits)

interpretation outbox_attempt: keyed_update ob_id "after_attempt L P hc now ep" for L P hc now ep
  by unfold_locales simp

lemma tries_step:
  assumes "tries (Suc k) i w"
  shows "tries k i (snd (DeliverByID L NewProcessor hc i w))"
proof -
  from assms obtain r where w: "works w" and dist: "distinct (map ob_id (t_outbox (tables w)))"
    and inj: "inj_on (rng w) {rpos w..<rpos w + 4 * Suc k}"
    and free: "\<forall>n \<in> {rpos w..<rpos w + 4 * Suc k}. rng w n \<notin> wd_id ` set (t_deliveries (tables w))"
    and r: "r \<in> set (t_outbox (tables w))" "ob_id r = i"
    and att: "ob_status r = ''pending'' \<longrightarrow> 6 - int (Suc k) \<le> sint (ob_attempts r) \<and>
        sint (ob_attempts r) < 2 ^ 31 - int (Suc k)"
    unfolding tries_def by blast
  show ?thesis
  proof (cases "ob_status r = ''pending''")
    case False
    have "filter (\<lambda>x. ob_id x = i) (t_outbox (tables w)) = [r]"
      using filter_key_single[of ob_id "t_outbox (tables w)" r "\<lambda>_. True"] dist r by simp
    with w False have "snd (DeliverByID L NewProcessor hc i w) =
        w\<lparr>fpos := Suc (fpos w), rpos := Suc (rpos w)\<rparr>"
      by (simp add: DeliverByID_def bnd_def run_works GetOutbox_def one_row_def ret_def)
    moreover have "inj_on (rng w) {Suc (rpos w)..<Suc (rpos w) + 4 * k}"
      by (rule inj_on_subset[OF inj]) auto
    ultimately show ?thesis using w dist free r False by (auto simp: tries_def)
  next
    case True
    have "rng w (rpos w + 2) \<notin> wd_id ` set (t_deliveries (tables w))" using free by simp
    note eff = deliver_effect[OF w r(1) dist True this, of L NewProcessor hc, unfolded r(2)]
    define tables' where "tables' = attempted L NewProcessor hc (rng w (rpos w + 2)) (clock w) r (tables w)"
    from eff obtain n where n: "n = 3 \<or> n = 4"
      and "snd (DeliverByID L NewProcessor hc i w) = after_delivery L NewProcessor hc 2 n r w"
      by fastforce
    then obtain t where eff: "snd (DeliverByID L NewProcessor hc i w) =
        w\<lparr>fpos := fpos w + n, rpos := rpos w + n, clock := t, tables := tables'\<rparr>"
      by (simp add: after_delivery_def tables'_def)
    have inj': "inj_on (rng w) {rpos w + n..<rpos w + n + 4 * k}"
      by (rule inj_on_subset[OF inj]) (use n in auto)
    have free': "rng w j \<notin> wd_id ` set (t_deliveries (tables w))" "rng w j \<noteq> rng w (rpos w + 2)"
      if "j \<in> {rpos w + n..<rpos w + n + 4 * k}" for j
      using that n free inj_onD[OF inj, of j "rpos w + 2"] by auto
    show ?thesis
    proof (cases "active_endpoints (ob_merchant r) (tables w)")
      case Nil
      have "deliver_row r \<in> set (update_where (\<lambda>x. ob_id x = i) deliver_row (t_outbox (tables w)))"
        using r by (force simp: update_where_def)
      moreover have "ob_id (deliver_row r) = i" "ob_status (deliver_row r) \<noteq> ''pending''"
        using r(2) by (simp_all add: deliver_row_def)
      ultimately show ?thesis
        using Nil w dist inj' free' r(2) unfolding eff tries_def tables'_def attempted_def
        by (auto simp: outbox_deliver.keys_update works_def)
    next
      case (Cons ep eps)
      let ?r' = "after_attempt L NewProcessor hc (clock w) ep r"
      have "?r' \<in> set (update_where (\<lambda>x. ob_id x = i) (after_attempt L NewProcessor hc (clock w) ep)
          (t_outbox (tables w)))"
        using r by (force simp: update_where_def)
      moreover note after_attempt_tries[OF True, of k L hc "clock w" ep]
      ultimately show ?thesis
        using Cons w dist inj' free' r(2) att True unfolding eff tries_def tables'_def attempted_def
        by (intro conjI bexI[of _ ?r']) (auto simp: outbox_attempt.keys_update works_def)
    qed
  qed
qed

text \<open>C14: No event stays pending for ever: whatever the endpoints answer, six attempts over a database
  that works end with the event delivered or dead.\<close>

theorem delivery_retires:
  assumes "works w" and "distinct (map ob_id (t_outbox (tables w)))"
    and "r \<in> set (t_outbox (tables w))" and "0 \<le> sint (ob_attempts r)" and "sint (ob_attempts r) < 1000"
    and "inj_on (rng w) {rpos w..<rpos w + 24}"
    and "\<forall>n \<in> {rpos w..<rpos w + 24}. rng w n \<notin> wd_id ` set (t_deliveries (tables w))"
    and "length endpoints = 6"
  shows "\<exists>r' \<in> set (t_outbox (tables
      (fold (\<lambda>hc w. snd (DeliverByID L NewProcessor hc (ob_id r) w)) endpoints w))).
    ob_id r' = ob_id r \<and> ob_status r' \<noteq> ''pending''"
proof -
  have "tries 6 (ob_id r) w" using assms(1-7) by (auto simp: tries_def)
  moreover have "tries k i w \<Longrightarrow> length hcs = k \<Longrightarrow>
      tries 0 i (fold (\<lambda>hc w. snd (DeliverByID L NewProcessor hc i w)) hcs w)" for k i w hcs
    by (induction hcs arbitrary: k w) (auto intro: tries_step)
  ultimately have "tries 0 (ob_id r)
      (fold (\<lambda>hc w. snd (DeliverByID L NewProcessor hc (ob_id r) w)) endpoints w)"
    using assms(8) by blast
  then show ?thesis by (auto simp: tries_def)
qed

section \<open>An event and its endpoint\<close>

definition demo_event :: outbox where
  "demo_event = \<lparr>ob_id = 7, ob_merchant = 5, ob_event_id = 8, ob_type = ''payment_intent.captured'',
     ob_payload = JNull, ob_status = ''pending'', ob_attempts = 0, ob_next = 0, ob_error = None,
     ob_created = 0\<rparr>"

definition demo_hooks :: world where
  "demo_hooks = blank_world (empty_db\<lparr>t_outbox := [demo_event],
     t_endpoints := [\<lparr>we_id = 3, we_merchant = 5, we_url = ''http://shop/hook'', we_secret = ''s3cret'',
                      we_created = 0, we_disabled = None\<rparr>]\<rparr>)"

lemma demo_hooks_setting:
  "works demo_hooks" "demo_event \<in> set (t_outbox (tables demo_hooks))"
  "distinct (map ob_id (t_outbox (tables demo_hooks)))" "ob_status demo_event = ''pending''"
  "\<forall>n \<in> A. rng demo_hooks n \<notin> wd_id ` set (t_deliveries (tables demo_hooks))"
  "rpos demo_hooks = 0"
  by (simp_all add: demo_hooks_def demo_event_def works_def blank_world_def empty_db_def)

theorem delivery_exact_witness:
  "t_deliveries (tables (snd (DeliverByID plain_lib NewProcessor (\<lambda>_. (250, Inr 503)) 7 demo_hooks))) =
   [\<lparr>wd_id = 3, wd_outbox = 7, wd_attempt = 1, wd_code = Some 503, wd_ok = False,
     wd_error = Some ''endpoint returned 503'', wd_created = 250\<rparr>]"
proof -
  have "show_int 503 = ''503''" by code_simp
  moreover have "ob_id demo_event = 7" by (simp add: demo_event_def)
  ultimately show ?thesis
    using delivery_exact[OF demo_hooks_setting(1-4), of plain_lib NewProcessor "\<lambda>_. (250, Inr 503)"]
    by (simp add: demo_hooks_def demo_event_def blank_world_def empty_db_def active_endpoints_def
        attempt_log_def hook_answer_def hook_do_def clientTimeout_def hook_verdict_def)
qed

theorem delivery_retires_witness:
  "\<exists>r' \<in> set (t_outbox (tables (fold (\<lambda>hc w. snd (DeliverByID plain_lib NewProcessor hc 7 w))
     (replicate 6 (\<lambda>_. (1000, Inl ''refused''))) demo_hooks))). ob_status r' \<noteq> ''pending''"
proof -
  have "distinct (map (rng demo_hooks) [0..<24])" by code_simp
  then have inj: "inj_on (rng demo_hooks) {rpos demo_hooks..<rpos demo_hooks + 24}"
    by (simp add: distinct_map demo_hooks_setting(6))
  have e: "ob_id demo_event = 7" "sint (ob_attempts demo_event) = 0" by (simp_all add: demo_event_def)
  show ?thesis
    using delivery_retires[OF demo_hooks_setting(1,3,2) _ _ inj demo_hooks_setting(5),
        of "replicate 6 (\<lambda>_. (1000, Inl ''refused''))" plain_lib] e by auto
qed

theorem claims_disjoint_witness:
  "\<exists>rows w1. run (ClaimDueOutbox (seconds 30) 10) demo_hooks = (Inr rows, w1) \<and>
     (\<forall>r \<in> set rows. ob_next r = seconds 30)"
proof -
  have c: "clock demo_hooks = 0" by (simp add: demo_hooks_def blank_world_def)
  define w1 where "w1 = snd (run (ClaimDueOutbox (seconds 30) 10) demo_hooks)"
  define rows where "rows = t_outbox (tables w1)"
  have 1: "run (ClaimDueOutbox (seconds 30) 10) demo_hooks = (Inr rows, w1)"
      "rows = t_outbox (tables w1)" "distinct (map ob_id rows)" "works w1" "clock w1 = 0"
    by (simp_all add: rows_def w1_def run_def ClaimDueOutbox_def limit_rows_def Let_def
        due_rows_def demo_hooks_def demo_event_def blank_world_def empty_db_def update_where_def
        lease_row_def works_def)
  obtain rows' w2 where 2: "run (ClaimDueOutbox (seconds 30) 10) w1 = (Inr rows', w2)"
    by (simp add: run_works[OF 1(4)] ClaimDueOutbox_def limit_rows_def Let_def)
  have "distinct (map ob_id (t_outbox (tables w1)))" "set rows \<subseteq> set (t_outbox (tables w1))"
      "clock w1 < clock demo_hooks + seconds 30"
    using 1(2,3,5) c by (simp_all add: seconds_def)
  from claims_disjoint[OF demo_hooks_setting(3) 1(1) this 2] 1(1) c show ?thesis by auto
qed

end
