(* ===== verification/Router.thy ===== *)
theory Router
  imports Access Idempotency Portal Tokens Webhook
begin

text \<open>
  The composition of the server: CORS (\<^verbatim>\<open>internal/httpapi/cors.go\<close>), the routes and their guards
  (\<^verbatim>\<open>router.go\<close>), and the ticks of the worker (\<^verbatim>\<open>cmd/worker/main.go\<close>).
\<close>

section \<open>Cross-origin requests\<close>

definition corsOrigins :: "lib \<Rightarrow> string list" where
  "corsOrigins L =
     (let raw = lb_getenv L ''NEMPAY_CORS_ORIGINS'';
          raw = (if raw = [] then ''http://localhost:3000,http://localhost:5173'' else raw)
      in filter (\<lambda>x. x \<noteq> []) (map TrimSpace (split_at CHR '','' raw)))"

definition cors_headers :: "lib \<Rightarrow> request \<Rightarrow> (string \<times> string) list" where
  "cors_headers L rq =
     (let origin = rq_header rq ''Origin'' in
      if origin \<noteq> [] \<and> origin \<in> set (corsOrigins L)
      then [(''Access-Control-Allow-Origin'', origin), (''Vary'', ''Origin''),
            (''Access-Control-Allow-Methods'', ''GET, POST, OPTIONS''),
            (''Access-Control-Allow-Headers'', ''Authorization, Content-Type''),
            (''Access-Control-Max-Age'', ''600'')]
      else [])"

section \<open>Routes\<close>

text \<open>A path is cut at the slashes; \<open>Id\<close> stands for the parameter \<^verbatim>\<open>:id\<close>.\<close>

datatype segment = Lit string | Id

record route =
  rt_method :: string
  rt_path :: "segment list"
  rt_handler :: handler

fun path_match :: "segment list \<Rightarrow> string list \<Rightarrow> string option" where
  "path_match [] [] = Some []"
| "path_match (Lit s # ps) (x # xs) = (if x = s then path_match ps xs else None)"
| "path_match (Id # ps) (x # xs) =
     (if x = [] then None else map_option (\<lambda>_. x) (path_match ps xs))"
| "path_match _ _ = None"

definition health :: handler where
  "health c rq w = (respond 200 (Doc (JObj [(''status'', JStr ''ok'')])), w)"

definition document :: "bytes \<Rightarrow> handler" where
  "document b c rq w = (respond 200 (Stored b), w)"

text \<open>The three groups, with the middleware of each.\<close>

definition token_route :: "lib \<Rightarrow> handler \<Rightarrow> handler" where
  "token_route L h = guarded (apiKeyAuth L) (guarded publishableOnly h)"

definition write_route :: "lib \<Rightarrow> handler \<Rightarrow> handler" where
  "write_route L h = guarded (apiKeyAuth L) (guarded secretOnly (WithIdempotency L h))"

definition read_route :: "lib \<Rightarrow> session \<Rightarrow> handler \<Rightarrow> handler" where
  "read_route L sn h = guarded (authAny L sn) h"

definition public_routes :: "lib \<Rightarrow> session \<Rightarrow> route list" where
  "public_routes L sn =
     [\<lparr>rt_method = ''GET'', rt_path = [Lit ''v1'', Lit ''health''], rt_handler = health\<rparr>,
      \<lparr>rt_method = ''GET'', rt_path = [Lit ''docs''], rt_handler = document (lb_docs L)\<rparr>,
      \<lparr>rt_method = ''GET'', rt_path = [Lit ''openapi.yaml''], rt_handler = document (lb_openapi L)\<rparr>,
      \<lparr>rt_method = ''POST'', rt_path = [Lit ''v1'', Lit ''portal'', Lit ''login''],
       rt_handler = login L sn\<rparr>,
      \<lparr>rt_method = ''POST'', rt_path = [Lit ''v1'', Lit ''portal'', Lit ''refresh''],
       rt_handler = refresh L sn\<rparr>]"

definition token_routes :: "lib \<Rightarrow> route list" where
  "token_routes L =
     [\<lparr>rt_method = ''POST'', rt_path = [Lit ''v1'', Lit ''tokens''],
       rt_handler = token_route L (create_token L)\<rparr>]"

definition money_handlers :: "lib \<Rightarrow> bank_http \<Rightarrow> (segment list \<times> handler) list" where
  "money_handlers L bank =
     [([], intents_create L),
      ([Id, Lit ''confirm''], intents_confirm L bank),
      ([Id, Lit ''capture''], intents_capture L bank),
      ([Id, Lit ''refund''], intents_refund L),
      ([Id, Lit ''release''], intents_release L)]"

definition write_routes :: "lib \<Rightarrow> bank_http \<Rightarrow> route list" where
  "write_routes L bank =
     map (\<lambda>(path, h). \<lparr>rt_method = ''POST'', rt_path = [Lit ''v1'', Lit ''payment_intents''] @ path,
                       rt_handler = write_route L h\<rparr>) (money_handlers L bank)"

definition read_handlers :: "lib \<Rightarrow> (string \<times> segment list \<times> handler) list" where
  "read_handlers L =
     [(''GET'', [Lit ''payment_intents''], intents_list L),
      (''GET'', [Lit ''payment_intents'', Id], intents_get L),
      (''GET'', [Lit ''payment_intents'', Id, Lit ''ledger''], portal_ledger L),
      (''GET'', [Lit ''balances''], portal_balances),
      (''GET'', [Lit ''webhook_events''], portal_webhookEvents),
      (''GET'', [Lit ''api_keys''], portal_apiKeys),
      (''GET'', [Lit ''webhook_endpoints''], portal_listEndpoints),
      (''POST'', [Lit ''webhook_endpoints''], portal_createEndpoint L),
      (''POST'', [Lit ''webhook_endpoints'', Id, Lit ''disable''], portal_disableEndpoint L)]"

definition read_routes :: "lib \<Rightarrow> session \<Rightarrow> route list" where
  "read_routes L sn =
     map (\<lambda>(meth, path, h). \<lparr>rt_method = meth, rt_path = Lit ''v1'' # path,
                             rt_handler = read_route L sn h\<rparr>) (read_handlers L)"

definition routes :: "lib \<Rightarrow> bank_http \<Rightarrow> session \<Rightarrow> route list" where
  "routes L bank sn =
     public_routes L sn @ token_routes L @ write_routes L bank @ read_routes L sn"

definition NoRoute :: outcome where
  "NoRoute = respondError 404 errTypeNotFound ''unknown_route'' ''no such endpoint'' []"

definition NoMethod :: outcome where
  "NoMethod = respondError 405 errTypeInvalidRequest ''method_not_allowed''
     ''that method is not allowed on this endpoint'' []"

definition hits :: "request \<Rightarrow> route \<Rightarrow> bool" where
  "hits rq r \<longleftrightarrow> rt_method r = rq_method rq \<and> path_match (rt_path r) (rq_path rq) \<noteq> None"

definition with_headers :: "(string \<times> string) list \<Rightarrow> outcome \<Rightarrow> outcome" where
  "with_headers hs out =
     (case out of
        Answer r \<Rightarrow> Answer (r\<lparr>rs_headers := hs @ rs_headers r\<rparr>)
      | Panic \<Rightarrow> Answer \<lparr>rs_status = 500, rs_headers = hs, rs_body = Empty\<rparr>)"

text \<open>The other methods that have a route for the path, in the order of their first registration.\<close>

definition allowed :: "route list \<Rightarrow> request \<Rightarrow> string list" where
  "allowed rs rq = filter (\<lambda>meth. meth \<noteq> rq_method rq \<and>
       list_ex (\<lambda>r. rt_method r = meth \<and> path_match (rt_path r) (rq_path rq) \<noteq> None) rs)
     [''GET'', ''POST'']"

definition allow_header :: "route list \<Rightarrow> request \<Rightarrow> (string \<times> string) list" where
  "allow_header rs rq =
     (case allowed rs rq of
        [] \<Rightarrow> []
      | m # ms \<Rightarrow> [(''Allow'', m @ concat (map (\<lambda>x. '', '' @ x) ms))])"

definition dispatch :: "route list \<Rightarrow> request \<Rightarrow> world \<Rightarrow> outcome \<times> world" where
  "dispatch rs rq w =
     (case find (hits rq) rs of
        Some r \<Rightarrow>
          (case path_match (rt_path r) (rq_path rq) of
             Some param \<Rightarrow> rt_handler r (no_ctx\<lparr>cx_param := param\<rparr>) rq w
           | None \<Rightarrow> (NoRoute, w))
      | None \<Rightarrow>
          if allowed rs rq \<noteq> [] then (with_headers (allow_header rs rq) NoMethod, w)
          else (NoRoute, w))"

text \<open>
  A path that would have a route without its last slash is redirected there by Gin before any
  middleware runs. (No route ends in a slash, so there is no redirection to a path with one. The
  address is that of a request without an \<^verbatim>\<open>X-Forwarded-Prefix\<close> and without escapes in its path.)
\<close>

definition slashless :: "request \<Rightarrow> request" where
  "slashless rq = rq\<lparr>rq_path := butlast (rq_path rq),
     rq_uri := butlast (takeWhile (\<lambda>c. c \<noteq> CHR ''?'') (rq_uri rq)) @ dropWhile (\<lambda>c. c \<noteq> CHR ''?'') (rq_uri rq)\<rparr>"

definition slash_redirects :: "route list \<Rightarrow> request \<Rightarrow> bool" where
  "slash_redirects rs rq \<longleftrightarrow> rq_path rq \<noteq> [] \<and> last (rq_path rq) = [] \<and>
     find (hits rq) rs = None \<and> find (hits (slashless rq)) rs \<noteq> None"

definition html_escape :: "string \<Rightarrow> string" where
  "html_escape s = concat (map (\<lambda>c.
     if c = CHR ''&'' then ''&amp;'' else if c = CHR ''<'' then ''&lt;'' else if c = CHR ''>'' then ''&gt;''
     else if c = CHR 0x22 then ''&#34;'' else if c = CHR 0x27 then ''&#39;'' else [c]) s)"

definition slash_redirect :: "request \<Rightarrow> outcome" where
  "slash_redirect rq =
     (let uri = rq_uri (slashless rq) in
      if rq_method rq = ''GET''
      then Answer \<lparr>rs_status = 301, rs_headers = [(''Location'', uri)],
             rs_body = Stored (''<a href='' @ [CHR 0x22] @ html_escape uri @ [CHR 0x22] @
               ''>Moved Permanently</a>.'' @ [CHR 0x0A, CHR 0x0A])\<rparr>
      else Answer \<lparr>rs_status = 307, rs_headers = [(''Location'', uri)], rs_body = Empty\<rparr>)"

text \<open>
  The server: CORS before everything that has a route or none, preflight answered at once; a panic
  becomes a bare 500.
\<close>

definition serve :: "lib \<Rightarrow> bank_http \<Rightarrow> request \<Rightarrow> world \<Rightarrow> outcome \<times> world" where
  "serve L bank rq w =
     (let rs = routes L bank (newSessionHandler L);
          hs = cors_headers L rq in
      if rq_method rq = ''OPTIONS''
      then (Answer \<lparr>rs_status = 204, rs_headers = hs @ allow_header rs rq, rs_body = Empty\<rparr>, w)
      else if slash_redirects rs rq then (slash_redirect rq, w)
      else case dispatch rs rq w of (out, w') \<Rightarrow> (with_headers hs out, w'))"

section \<open>The worker\<close>

definition dispatchBatch :: int32 where "dispatchBatch = 100"
definition settleDelay :: time where "settleDelay = seconds 10"
definition expireDelay :: time where "expireDelay = seconds (15 * 60)"
definition idemOrphanAfter :: time where "idemOrphanAfter = seconds (5 * 60)"
definition idemCompletedTTL :: time where "idemCompletedTTL = seconds (24 * 3600)"

datatype enqueued = Queued | TaskConflict | QueueError

definition enqueue_ok :: "enqueued \<Rightarrow> bool" where
  "enqueue_ok r \<longleftrightarrow> r \<noteq> QueueError"

text \<open>
  One tick of each loop, and one task from the queue, whose payload decodes to a row's id or not.
  Errors are logged and the loop goes on.
\<close>

datatype tick =
    DispatchTick "uuid \<Rightarrow> enqueued"
  | DeliverTask lib hook_http "uuid option"
  | SettleTick
  | ExpireTick
  | IdemTick

fun work :: "tick \<Rightarrow> world \<Rightarrow> world" where
  "work (DispatchTick queue) w =
     snd (Dispatch NewProcessor dispatchBatch (\<lambda>i. enqueue_ok (queue i)) w)"
| "work (DeliverTask L hc task) w =
     (case task of None \<Rightarrow> w | Some i \<Rightarrow> snd (DeliverByID L NewProcessor hc i w))"
| "work SettleTick w = snd (SettleDueIntents settleDelay w)"
| "work ExpireTick w = snd (ExpireStaleIntents expireDelay w)"
| "work IdemTick w =
     snd (bnd (SweepOrphanedKeys idemOrphanAfter) (\<lambda>_. ExpireCompletedKeys idemCompletedTTL) w)"

end
