(* ===== verification/Frame.thy ===== *)
theory Frame
  imports Router
begin

text \<open>
  What the server may do to the world, as a relation \<open>R\<close> between before and after. The locales
  carry the relation from the statements to the operations, the handlers, the routes, the server
  and the worker: whoever shows the few assumptions for a relation gets it for every request
  (\<open>request_frame\<close>), every tick but the sweeps (\<open>worker_frame\<close>), or all of them (\<open>server_frame\<close>).
\<close>

section \<open>Relations that compose\<close>

definition within :: "(world \<Rightarrow> world \<Rightarrow> bool) \<Rightarrow> (world \<Rightarrow> 'b \<times> world) \<Rightarrow> bool" where
  "within R f \<longleftrightarrow> (\<forall>w. R w (snd (f w)))"

lemma withinD: "within R f \<Longrightarrow> f w = (r, w') \<Longrightarrow> R w w'"
  by (metis within_def snd_conv)

definition reads :: "'a stmt \<Rightarrow> bool" where
  "reads f \<longleftrightarrow> (\<forall>u now d x d'. f u now d = Inr (x, d') \<longrightarrow> d' = d)"

lemma one_row_reads: "one_row rs d = Inr (x, d') \<Longrightarrow> d' = d"
  by (auto simp: one_row_def split: list.splits)

lemma reading_statements:
  "reads (GetMerchant m)" "reads (GetKeysByPrefix pre)" "reads (ListAPIKeysForMerchant m)"
  "reads (GetUserByEmail email)" "reads (GetByKey m key)" "reads (GetOutbox i)"
  "reads (ListActiveEndpoints m)" "reads (ListEndpoints m)" "reads (BalancesForMerchant m)"
  "reads (LedgerForIntent m ref)" "reads (GetIntent i m)"
  "reads (ListCapturedBefore cutoff lim)" "reads (ListStaleBefore cutoff lim)"
  "reads (ListWebhookEventsForMerchant m lim off)" "reads (ListIntents m status off lim)"
  "reads (CountKeysForMerchant m)"
  by (auto simp: reads_def GetMerchant_def GetKeysByPrefix_def ListAPIKeysForMerchant_def
      GetUserByEmail_def GetByKey_def GetOutbox_def ListActiveEndpoints_def ListEndpoints_def
      BalancesForMerchant_def LedgerForIntent_def GetIntent_def ListCapturedBefore_def
      ListStaleBefore_def ListWebhookEventsForMerchant_def ListIntents_def CountKeysForMerchant_def
      Let_def dest: one_row_reads split: sum.splits if_splits)

locale frame =
  fixes R :: "world \<Rightarrow> world \<Rightarrow> bool"
  assumes still: "tables w' = tables w \<Longrightarrow> tx_open w' = tx_open w \<Longrightarrow> clock w' = clock w \<Longrightarrow>
      rng w' = rng w \<Longrightarrow> faults w' = faults w \<Longrightarrow> R w w'"
    and trans: "R u v \<Longrightarrow> R v w \<Longrightarrow> R u w"
begin

lemma same: "R w w"
  by (rule still) simp_all

lemma within_ret: "within R (ret x)"
  by (simp add: within_def ret_def same)

lemma within_fail: "within R (fail e)"
  by (simp add: within_def fail_def same)

lemma within_say: "within R (say x)"
  by (simp add: within_def say_def same)

lemma within_time: "within R time_now"
  by (simp add: within_def time_now_def same)

lemma within_uuid: "within R uuid_New"
  by (simp add: within_def uuid_New_def still)

lemma within_bnd: "within R m \<Longrightarrow> (\<And>x. within R (k x)) \<Longrightarrow> within R (bnd m k)"
  by (auto simp: within_def bnd_def split: prod.splits sum.splits) (metis snd_conv trans)+

lemma within_map_err: "within R m \<Longrightarrow> within R (map_err f m)"
  by (auto simp: within_def map_err_def split: prod.splits sum.splits) (metis snd_conv)+

lemma within_and_then: "within R m \<Longrightarrow> (\<And>r. within R (k r)) \<Longrightarrow> within R (and_then m k)"
  by (auto simp: within_def and_then_def split: prod.splits) (metis snd_conv trans)

lemma within_if: "within R f \<Longrightarrow> within R g \<Longrightarrow> within R (if b then f else g)"
  by simp

lemma within_sum:
  "(\<And>e. within R (f e)) \<Longrightarrow> (\<And>x. within R (g x)) \<Longrightarrow>
   within R (case s of Inl e \<Rightarrow> f e | Inr x \<Rightarrow> g x)"
  by (cases s) auto

lemma within_option:
  "within R f \<Longrightarrow> (\<And>x. within R (g x)) \<Longrightarrow> within R (case s of None \<Rightarrow> f | Some x \<Rightarrow> g x)"
  by (cases s) auto

lemma within_list:
  "within R f \<Longrightarrow> (\<And>x xs. within R (g x xs)) \<Longrightarrow> within R (case s of [] \<Rightarrow> f | x # xs \<Rightarrow> g x xs)"
  by (cases s) auto

lemma within_prod: "(\<And>x y. within R (f x y)) \<Longrightarrow> within R (case s of (x, y) \<Rightarrow> f x y)"
  by (cases s) auto

lemma within_reads: "reads f \<Longrightarrow> within R (run f)"
  unfolding within_def
proof
  fix w assume "reads f"
  then show "R w (snd (run f w))"
    by (intro still) (auto simp: run_def Let_def reads_def split: fault.splits sum.splits)
qed

lemma within_sweep:
  assumes "\<And>i m. within R (one i m)"
  shows "within R (sweep_rows one ps n)"
proof (induction ps arbitrary: n)
  case Nil
  then show ?case by (simp add: within_def same)
next
  case (Cons p ps)
  show ?case
    unfolding within_def
  proof
    fix w
    obtain r w1 where r: "one (pi_id p) (pi_merchant p) w = (r, w1)"
      by (cases "one (pi_id p) (pi_merchant p) w")
    then have "R w w1" using assms by (metis within_def snd_conv)
    moreover have "R w1 (snd (sweep_rows one ps (Suc n) w1))" using Cons.IH by (simp add: within_def)
    ultimately show "R w (snd (sweep_rows one (p # ps) n w))"
      using r by (auto split: sum.split intro: trans)
  qed
qed

lemmas closed = within_ret within_fail within_say within_time within_uuid within_bnd within_map_err
  within_and_then within_if within_sum within_option within_list within_prod

lemmas read_closed = reading_statements[THEN within_reads]

lemma within_merchant:
  "(\<And>m. MerchantID c = Some m \<Longrightarrow> within R (k m)) \<Longrightarrow> within R (with_merchant msg c k)"
  by (auto simp: within_def with_merchant_def same split: option.split)

lemma within_id:
  "(\<And>m i. MerchantID c = Some m \<Longrightarrow> within R (k m i)) \<Longrightarrow> within R (authAndID L c k)"
  unfolding authAndID_def by (intro within_merchant closed)

lemma within_guarded:
  "(\<And>c. within R (m c rq)) \<Longrightarrow> (\<And>c. within R (h c rq)) \<Longrightarrow> within R (guarded m h c rq)"
  by (auto simp: within_def guarded_def split: prod.splits sum.splits) (metis snd_conv trans)+

subsection \<open>Requests that only read\<close>

lemma key_auth_within: "within R (key_auth L token c)"
  unfolding key_auth_def lookupAPIKey_def by (intro closed read_closed)

lemma apiKeyAuth_within: "within R (apiKeyAuth L c rq)"
  using key_auth_within by (auto simp: within_def apiKeyAuth_def same split: option.split)

lemma authAny_within: "within R (authAny L sn c rq)"
  using key_auth_within by (auto simp: within_def authAny_def same split: option.split)

lemma require_kind_within: "within R (require_kind wanted code msg c rq)"
  by (auto simp: within_def require_kind_def same split: option.split)

lemma login_within: "within R (login L sn c rq)"
  unfolding within_def
proof
  fix w
  have "within R (run (GetUserByEmail email))" "within R (run (GetMerchant m))" for email m
    by (rule read_closed)+
  then show "R w (snd (login L sn c rq w))"
    by (auto simp: within_def login_def and_then_def say_def same split: option.splits prod.splits sum.splits)
      (metis snd_conv trans)+
qed

lemma public_within:
  "within R (refresh L sn c rq)" "within R (create_token L c rq)" "within R (health c rq)"
  "within R (document b c rq)"
  by (auto simp: within_def refresh_def create_token_def health_def document_def Let_def same
      split: option.splits prod.splits)

lemma views_within:
  "within R (intents_get L c rq)" "within R (intents_list L c rq)" "within R (portal_balances c rq)"
  "within R (portal_webhookEvents c rq)" "within R (portal_apiKeys c rq)"
  "within R (portal_ledger L c rq)" "within R (portal_listEndpoints c rq)"
  unfolding intents_get_def intents_list_def portal_balances_def portal_webhookEvents_def
    portal_apiKeys_def portal_ledger_def portal_listEndpoints_def Get_def Intents.List_def Let_def
  by (intro within_merchant within_id closed read_closed)+

end

section \<open>Requests that move money\<close>

text \<open>
  For the handlers of the money routes the relation must hold of the operations they run, on
  behalf of the merchants \<open>who\<close>.
\<close>

locale money_frame = frame +
  fixes who :: "uuid \<Rightarrow> bool"
  assumes create: "who m \<Longrightarrow> within R (Create m inp)"
    and confirm: "who m \<Longrightarrow> within R (Confirm bank i m token)"
    and capture: "who m \<Longrightarrow> within R (CaptureIntent bank i m)"
    and refund: "who m \<Longrightarrow> within R (Refund i m amount)"
    and release: "who m \<Longrightarrow> within R (Release i m)"
begin

lemma money_within:
  assumes "(path, h) \<in> set (money_handlers L bank)" and "\<And>m. MerchantID c = Some m \<Longrightarrow> who m"
  shows "within R (h c rq)"
proof -
  have "within R (intents_create L c rq)" "within R (intents_confirm L bank c rq)"
    "within R (intents_capture L bank c rq)" "within R (intents_refund L c rq)"
    "within R (intents_release L c rq)"
    unfolding intents_create_def intents_confirm_def intents_capture_def intents_refund_def
      intents_release_def Let_def
    by (intro within_merchant within_id closed create confirm capture refund release assms(2),
        assumption?)+
  with assms(1) show ?thesis by (auto simp: money_handlers_def)
qed

end

section \<open>The whole server\<close>

text \<open>
  For the server the relation must hold of the remaining statements its requests write with: the
  idempotency keys and the endpoints.
\<close>

locale request_frame = money_frame R "\<lambda>_. True" for R +
  assumes keys: "within R (run (InsertInFlight m key hash))" "within R (run (MarkCompleted i code b))"
      "within R (run (DeleteKey i))"
    and endpoints: "within R (run (InsertWebhookEndpoint m url secret))" "within R (run (DisableEndpoint i m))"
begin

lemma claim_within: "within R (claim_phase L c rq)"
proof -
  have ins: "R w (snd (run (InsertInFlight m key hash) w))" for m key hash w
    using keys(1) by (simp add: within_def)
  have rep: "within R (replayOrConflict m key hash)" for m key hash
    unfolding replayOrConflict_def by (intro closed read_closed)
  show ?thesis
    unfolding within_def
  proof
    fix w
    have "R w (snd (and_then (run (InsertInFlight m key hash)) (\<lambda>r w.
        case r of
          Inl e \<Rightarrow>
            if e = PgUniqueViolation
            then (case replayOrConflict m key hash w of (out, w') \<Rightarrow> (Inl out, w'))
            else (Inl failure, w)
        | Inr claim \<Rightarrow> (Inr (claim, b), w)) w))" for m key hash failure b
    proof -
      obtain r w1 where r: "run (InsertInFlight m key hash) w = (r, w1)"
        by (cases "run (InsertInFlight m key hash) w")
      then have "R w w1" using ins[of w m key hash] by simp
      moreover have "R w1 (snd (replayOrConflict m key hash w1))" using rep by (simp add: within_def)
      ultimately show ?thesis
        using r by (auto simp: and_then_def split: prod.splits sum.splits intro: trans)
    qed
    then show "R w (snd (claim_phase L c rq w))"
      by (auto simp: claim_phase_def Let_def same split: option.split sum.split)
  qed
qed

lemma finish_within: "R w (finish_phase L claim out w)"
  using keys(2,3) by (auto simp: within_def finish_phase_def Let_def split: outcome.split)

lemma wrapped_within:
  assumes "\<And>c rq. within R (h c rq)"
  shows "within R (WithIdempotency L h c rq)"
  unfolding within_def
proof
  fix w
  obtain res w1 where cl: "claim_phase L c rq w = (res, w1)" by (cases "claim_phase L c rq w")
  then have 1: "R w w1" using claim_within[of L c rq] by (auto simp: within_def dest: spec[of _ w])
  show "R w (snd (WithIdempotency L h c rq w))"
  proof (cases res)
    case (Inl out)
    with cl 1 show ?thesis by (simp add: WithIdempotency_def)
  next
    case (Inr x)
    then obtain claim b where x: "res = Inr (claim, b)" by (cases x) auto
    obtain out w2 where h: "h c (restored rq b) w1 = (out, w2)" by (cases "h c (restored rq b) w1")
    then have "R w1 w2" using assms[of c "restored rq b"] by (auto simp: within_def dest: spec[of _ w1])
    with 1 finish_within[of w2] have "R w (finish_phase L claim out w2)" by (blast intro: trans)
    with cl x h show ?thesis by (simp add: WithIdempotency_def)
  qed
qed

lemma settings_within:
  "within R (portal_createEndpoint L c rq)" "within R (portal_disableEndpoint L c rq)"
  unfolding portal_createEndpoint_def portal_disableEndpoint_def
  by (intro within_merchant closed endpoints)+

lemma routes_within:
  assumes "r \<in> set (routes L bank sn)"
  shows "within R (rt_handler r c rq)"
proof -
  have "within R (write_route L h c rq)" if "\<And>c rq. within R (h c rq)" for h
    unfolding write_route_def secretOnly_def
    by (intro within_guarded apiKeyAuth_within require_kind_within wrapped_within that)
  moreover have "within R (read_route L sn h c rq)" if "\<And>c. within R (h c rq)" for h
    unfolding read_route_def by (intro within_guarded authAny_within that)
  moreover have "within R (token_route L (create_token L) c rq)"
    unfolding token_route_def publishableOnly_def
    by (intro within_guarded apiKeyAuth_within require_kind_within public_within)
  ultimately show ?thesis
    using assms money_within
    by (auto simp: routes_def public_routes_def token_routes_def write_routes_def read_routes_def
        read_handlers_def public_within login_within views_within settings_within)
qed

theorem serve_within: "within R (serve L bank rq)"
  unfolding within_def
proof
  fix w
  have "R w (snd (dispatch (routes L bank sn) rq w))" for sn
    using routes_within
    by (auto simp: dispatch_def same within_def split: option.split dest!: find_SomeD)
  then show "R w (snd (serve L bank rq w))"
    by (auto simp: serve_def Let_def same split: prod.split) (metis snd_conv)
qed

end

section \<open>The worker\<close>

text \<open>
  For the deliveries and the housekeeping of keys it must hold of their statements and of the time a
  delivery takes, for the whole worker of the two sweeps too. \<open>sweeping\<close> tells the ticks of the sweeps from the others.
\<close>

fun sweeping :: "tick \<Rightarrow> bool" where
  "sweeping SettleTick = True"
| "sweeping ExpireTick = True"
| "sweeping _ = False"

locale worker_frame = frame +
  assumes waits: "within R (wait n)"
    and deliveries: "within R (run (ClaimDueOutbox lease lim))" "within R (run (MarkOutboxDelivered i))"
      "within R (run (MarkOutboxDead i reason))" "within R (run (MarkOutboxRetry i next reason))"
      "within R (run (InsertDelivery i attempt status ok err))"
    and resets: "within R (run (ResetOrphans t))" "within R (run (ExpireCompleted t))"
begin

lemma deliver_within: "within R (deliverRow L P hc row)"
  unfolding deliverRow_def post_def Let_def by (intro closed read_closed deliveries waits)

lemma process_within: "within R (ProcessDue L P hc lim)"
proof -
  have "within R (deliver_rows L P hc rows)" for rows
    by (induction rows) (auto intro!: closed deliver_within)
  then show ?thesis unfolding ProcessDue_def by (intro closed deliveries)
qed

lemma tick_within:
  assumes "\<not> sweeping t"
  shows "R w (work t w)"
proof (cases t)
  case (DispatchTick queue)
  have "within R (Dispatch P n enq)" for P n enq
    unfolding Dispatch_def by (intro closed deliveries)
  with DispatchTick show ?thesis by (simp add: within_def)
next
  case (DeliverTask L hc task)
  have "within R (DeliverByID L P hc i)" for P i
    unfolding DeliverByID_def by (intro closed read_closed deliver_within)
  with DeliverTask show ?thesis by (simp add: within_def same split: option.split)
next
  case IdemTick
  have "within R (SweepOrphanedKeys t)" "within R (ExpireCompletedKeys t)" for t
    using resets by (simp_all add: within_def SweepOrphanedKeys_def ExpireCompletedKeys_def)
  then have "within R (bnd (SweepOrphanedKeys a) (\<lambda>_. ExpireCompletedKeys b))" for a b
    by (intro closed)
  with IdemTick show ?thesis by (simp add: within_def)
qed (use assms in simp_all)

end

text \<open>All of it.\<close>

locale server_frame = request_frame R + worker_frame R for R +
  assumes settle: "within R (SettleDueIntents t)"
    and expire: "within R (ExpireStaleIntents t)"
begin

theorem work_within: "R w (work t w)"
  using tick_within[of t w] settle expire by (cases t) (simp_all add: within_def)

end

end
