(* ===== verification/Gateway.thy ===== *)
theory Gateway
  imports Invariant Boot
begin

text \<open>
  The gateway as one transition system: its operations, HTTP requests to the server and ticks of
  the worker, boots of the API, in any order, at any time, with any libraries, bank, merchants' servers and plan of
  faults. \<open>reachable\<close> are the worlds it can get to from an empty
  database. The invariant of \<^verbatim>\<open>Invariant\<close> holds in all of them, and no operation rewrites
  history: ledger rows are only appended, an intent never changes but in its status.
\<close>

section \<open>Operations and reachable worlds\<close>

datatype op =
    Tick nat
  | NewMerchant string
  | CreateOp uuid create_input
  | ConfirmOp bank_http uuid uuid string
  | CaptureOp bank_http uuid uuid
  | RefundOp uuid uuid int64
  | ReleaseOp uuid uuid
  | SettleSweep time
  | ExpireSweep time
  | ServeOp lib bank_http request
  | WorkOp tick
  | ProcessOp lib processor hook_http int32
  | BootOp lib

fun exec :: "op \<Rightarrow> world \<Rightarrow> world" where
  "exec (Tick n) w = w\<lparr>clock := clock w + int n\<rparr>"
| "exec (NewMerchant name) w = snd (run (CreateMerchant name) w)"
| "exec (CreateOp m inp) w = snd (Create m inp w)"
| "exec (ConfirmOp bank i m token) w = snd (Confirm bank i m token w)"
| "exec (CaptureOp bank i m) w = snd (CaptureIntent bank i m w)"
| "exec (RefundOp i m amount) w = snd (Refund i m amount w)"
| "exec (ReleaseOp i m) w = snd (Release i m w)"
| "exec (SettleSweep olderThan) w = snd (SettleDueIntents olderThan w)"
| "exec (ExpireSweep olderThan) w = snd (ExpireStaleIntents olderThan w)"
| "exec (ServeOp L bank rq) w = snd (serve L bank rq w)"
| "exec (WorkOp t) w = work t w"
| "exec (ProcessOp L P hc lim) w = snd (ProcessDue L P hc lim w)"
| "exec (BootOp L) w = snd (boot L w)"

inductive reachable :: "world \<Rightarrow> bool" where
  start: "tables w = empty_db \<Longrightarrow> tx_open w = None \<Longrightarrow> reachable w"
| after: "reachable w \<Longrightarrow> reachable (exec operation w)"

lemma reachable_fold: "reachable w \<Longrightarrow> reachable (fold exec ops w)"
  by (induction ops arbitrary: w) (auto intro: after)

text \<open>Between operations no transaction is open, and an invariant of the books holds.\<close>

definition steady :: "(db \<Rightarrow> bool) \<Rightarrow> world \<Rightarrow> bool" where
  "steady good w \<longleftrightarrow> tx_open w = None \<and> good (tables w)"

lemma run_reads:
  assumes "\<And>u now d x d'. f u now d = Inr (x, d') \<Longrightarrow> d' = d"
  shows "tables (snd (run f w)) = tables w" and "tx_open (snd (run f w)) = tx_open w"
    and "clock (snd (run f w)) = clock w"
  using assms by (auto simp: run_def Let_def split: fault.splits sum.splits)

lemma list_reads:
  "ListCapturedBefore c l u now d = Inr (x, d') \<Longrightarrow> d' = d"
  "ListStaleBefore c l u now d = Inr (x, d') \<Longrightarrow> d' = d"
  by (auto simp: ListCapturedBefore_def ListStaleBefore_def split: sum.splits)

context money_invariant
begin

lemma steady_run:
  assumes "steady good w" and "\<And>u now d x d'. f u now d = Inr (x, d') \<Longrightarrow> same_money d d'"
  shows "steady good (snd (run f w)) \<and> clock (snd (run f w)) = clock w"
  using assms good_quiet
  by (auto simp: steady_def run_def Let_def split: fault.splits sum.splits)

lemma steady_settle:
  assumes "steady good w"
  shows "steady good (snd (SettleDueIntents t w)) \<and> clock (snd (SettleDueIntents t w)) = clock w"
proof -
  obtain r w1 where r: "run (ListCapturedBefore (clock w - t) sweepBatch) w = (r, w1)"
    by (cases "run (ListCapturedBefore (clock w - t) sweepBatch) w")
  then have "tables w1 = tables w" "tx_open w1 = tx_open w" "clock w1 = clock w"
    using run_reads[where f = "ListCapturedBefore (clock w - t) sweepBatch" and w = w]
      list_reads(1) by (metis snd_conv)+
  with assms r settle_sweep.rows_good[of w1] show ?thesis
    by (cases r) (simp_all add: steady_def SettleDueIntents_def)
qed

lemma steady_expire:
  assumes "steady good w"
  shows "steady good (snd (ExpireStaleIntents t w)) \<and> clock (snd (ExpireStaleIntents t w)) = clock w"
proof -
  obtain r w1 where r: "run (ListStaleBefore (clock w - t) sweepBatch) w = (r, w1)"
    by (cases "run (ListStaleBefore (clock w - t) sweepBatch) w")
  then have "tables w1 = tables w" "tx_open w1 = tx_open w" "clock w1 = clock w"
    using run_reads[where f = "ListStaleBefore (clock w - t) sweepBatch" and w = w]
      list_reads(2) by (metis snd_conv)+
  with assms r expire_sweep.rows_good[of w1] show ?thesis
    by (cases r) (simp_all add: steady_def ExpireStaleIntents_def)
qed

lemma steady_create:
  "steady good w \<Longrightarrow> steady good (snd (Create m inp w)) \<and> clock (snd (Create m inp w)) = clock w"
  using create_good[of w m inp "fst (Create m inp w)" "snd (Create m inp w)"]
  by (simp add: steady_def)

lemma steady_merchant:
  "steady good w \<Longrightarrow> steady good (snd (run (CreateMerchant name) w)) \<and>
     clock (snd (run (CreateMerchant name) w)) = clock w"
  by (rule steady_run) (auto simp: CreateMerchant_def same_money_def Let_def split: if_splits)

lemma steady_in_tx:
  "steady good w \<Longrightarrow> steady good (snd (Confirm bank i m token w)) \<and>
     clock (snd (Confirm bank i m token w)) = clock w"
  "steady good w \<Longrightarrow> steady good (snd (CaptureIntent bank i m w)) \<and>
     clock (snd (CaptureIntent bank i m w)) = clock w"
  "steady good w \<Longrightarrow> steady good (snd (Refund i m amount w)) \<and>
     clock (snd (Refund i m amount w)) = clock w"
  "steady good w \<Longrightarrow> steady good (snd (Release i m w)) \<and>
     clock (snd (Release i m w)) = clock w"
  by (simp_all add: steady_def Confirm_def CaptureIntent_def Refund_def Release_def fail_def
      confirm_op.op_good confirm_op.op_closed capture_op.op_good capture_op.op_closed
      refund_op.op_good refund_op.op_closed release_op.op_good release_op.op_closed
      confirm_op.op_clock capture_op.op_clock refund_op.op_clock release_op.op_clock)

end

text \<open>
  What the server and the worker write beside the money plane leaves it alone, so the whole of
  either keeps \<open>steady\<close>.
\<close>

lemma quiet_statements:
  "InsertInFlight m key hash u now d = Inr (r, d') \<Longrightarrow> same_money d d'"
  "MarkCompleted i code b u now d = Inr (x, d') \<Longrightarrow> same_money d d'"
  "DeleteKey i u now d = Inr (x, d') \<Longrightarrow> same_money d d'"
  "ResetOrphans t u now d = Inr (x, d') \<Longrightarrow> same_money d d'"
  "ExpireCompleted t u now d = Inr (x, d') \<Longrightarrow> same_money d d'"
  "InsertWebhookEndpoint m url secret u now d = Inr (e, d') \<Longrightarrow> same_money d d'"
  "DisableEndpoint i m u now d = Inr (e, d') \<Longrightarrow> same_money d d'"
  "ClaimDueOutbox lease lim u now d = Inr (rows, d') \<Longrightarrow> same_money d d'"
  "MarkOutboxDelivered i u now d = Inr (x, d') \<Longrightarrow> same_money d d'"
  "MarkOutboxDead i reason u now d = Inr (x, d') \<Longrightarrow> same_money d d'"
  "MarkOutboxRetry i t reason u now d = Inr (x, d') \<Longrightarrow> same_money d d'"
  "InsertDelivery i attempt status ok reason u now d = Inr (x, d') \<Longrightarrow> same_money d d'"
  "UpsertMerchant i name u now d = Inr (x, d') \<Longrightarrow> same_money d d'"
  "InsertAPIKey m kind pre hash u now d = Inr (k, d') \<Longrightarrow> same_money d d'"
  "InsertUser m email hash u now d = Inr (l, d') \<Longrightarrow> same_money d d'"
  by (auto simp: same_money_def InsertInFlight_def MarkCompleted_def DeleteKey_def ResetOrphans_def
      ExpireCompleted_def InsertWebhookEndpoint_def DisableEndpoint_def ClaimDueOutbox_def
      MarkOutboxDelivered_def MarkOutboxDead_def MarkOutboxRetry_def InsertDelivery_def UpsertMerchant_def InsertAPIKey_def InsertUser_def Let_def
      intro!: same_events_update
      simp: same_event_def lease_row_def deliver_row_def kill_row_def retry_row_def
      split: if_splits sum.splits option.splits)

definition keeps_steady :: "(db \<Rightarrow> bool) \<Rightarrow> world \<Rightarrow> world \<Rightarrow> bool" where
  "keeps_steady good w w' \<longleftrightarrow>
     (money_invariant good \<longrightarrow> steady good w \<longrightarrow> steady good w' \<and> clock w \<le> clock w')"

lemma keeps_steady_run:
  "(\<And>u now d x d'. f u now d = Inr (x, d') \<Longrightarrow> same_money d d') \<Longrightarrow>
   within (keeps_steady good) (run f)"
  by (simp add: within_def keeps_steady_def money_invariant.steady_run)

interpretation steady_server: server_frame "keeps_steady good" for good
proof unfold_locales
  show "keeps_steady good w w'"
    if "tables w' = tables w" "tx_open w' = tx_open w" "clock w' = clock w" for w w'
    using that by (simp add: keeps_steady_def steady_def)
  show "keeps_steady good u w" if "keeps_steady good u v" "keeps_steady good v w" for u v w
    using that order_trans by (auto simp: keeps_steady_def)
qed (rule keeps_steady_run, erule quiet_statements |
     simp add: within_def keeps_steady_def wait_def steady_def; fail |
     simp add: within_def keeps_steady_def money_invariant.steady_create
       money_invariant.steady_in_tx money_invariant.steady_settle money_invariant.steady_expire)+

interpretation steady_boot: boot_frame "keeps_steady good" for good
  by unfold_locales (rule keeps_steady_run, erule quiet_statements)+

text \<open>The clock never goes back; between ticks only the exchanges with merchants' servers take time.\<close>

fun ticks :: "op \<Rightarrow> int" where
  "ticks (Tick n) = int n"
| "ticks _ = 0"

theorem steady_exec:
  assumes "money_invariant good" and "steady good w"
  shows "steady good (exec operation w)" and "clock w + ticks operation \<le> clock (exec operation w)"
proof -
  have "steady good (exec operation w) \<and> clock w + ticks operation \<le> clock (exec operation w)"
    using assms steady_server.serve_within[of good] steady_server.work_within[of good]
      steady_server.process_within[of good] steady_boot.boot_within[of good]
    by (cases operation)
       (simp_all add: money_invariant.steady_settle money_invariant.steady_expire
         money_invariant.steady_create money_invariant.steady_merchant money_invariant.steady_in_tx
         within_def keeps_steady_def, simp add: steady_def)
  then show "steady good (exec operation w)" and "clock w + ticks operation \<le> clock (exec operation w)"
    by simp_all
qed

theorem steady_reachable:
  assumes "money_invariant good" and "good empty_db" and "reachable w"
  shows "steady good w"
  using assms(3)
proof (induction rule: reachable.induct)
  case (start w)
  then show ?case by (simp add: steady_def assms(2))
next
  case (after w operation)
  then show ?case by (intro steady_exec(1) assms(1))
qed

lemma reachable_grows: "reachable w \<Longrightarrow> steady (grows empty_db) w"
  by (rule steady_reachable[OF growth.money_invariant_axioms])
     (simp_all add: grows_def consistent_empty)

lemma reachable_consistent: "reachable w \<Longrightarrow> consistent (tables w)"
  using reachable_grows by (simp add: steady_def grows_def)

lemma reachable_closed: "reachable w \<Longrightarrow> tx_open w = None"
  using reachable_grows by (simp add: steady_def)

lemma exec_evolves: "reachable w \<Longrightarrow> evolves (tables w) (tables (exec operation w))"
  using steady_exec(1)[OF growth.money_invariant_axioms, of "tables w" w operation]
    reachable_closed[of w] reachable_consistent[of w]
  by (simp add: steady_def grows_def)

lemma exec_clock: "reachable w \<Longrightarrow> clock w + ticks operation \<le> clock (exec operation w)"
  using steady_exec(2)[OF growth.money_invariant_axioms reachable_grows] by blast

lemma fold_evolves: "reachable w \<Longrightarrow> evolves (tables w) (tables (fold exec ops w))"
proof (induction ops arbitrary: w)
  case Nil
  then show ?case by simp
next
  case (Cons operation ops)
  then show ?case using exec_evolves[of w operation] after[of w operation] evolves_trans by auto
qed

section \<open>A run of the gateway\<close>

text \<open>
  Concrete histories, used to show that the theorems speak of worlds that exist: one intent of
  one merchant, direct (\<open>demo\<close>) or in escrow (\<open>hold\<close>), against the bank simulator.
\<close>

definition demo_start :: world where
  "demo_start = \<lparr>tables = empty_db, tx_open = None, clock = 0,
     rng = (\<lambda>n. word_of_nat (Suc n)), rpos = 0, faults = (\<lambda>_. NoFault), fpos = 0\<rparr>"

definition demo_bank :: bank_http where
  "demo_bank = sim_http bankTimeout 0"

definition demo_direct :: create_input where
  "demo_direct = \<lparr>ci_amount = 500, ci_currency = ''usd'', ci_metadata = [], ci_escrow = False,
     ci_payee = None, ci_fee = None\<rparr>"

definition demo_escrow :: create_input where
  "demo_escrow = \<lparr>ci_amount = 300, ci_currency = ''USD'', ci_metadata = [], ci_escrow = True,
     ci_payee = Some 77, ci_fee = Some 30\<rparr>"

text \<open>Ids are drawn in order: the merchant is 1, the intent is 2.\<close>

definition demo_created :: world where
  "demo_created = fold exec [NewMerchant ''shop'', CreateOp 1 demo_direct] demo_start"

definition demo_authorized :: world where
  "demo_authorized = exec (ConfirmOp demo_bank 2 1 ''tok_visa'') demo_created"

definition demo_captured :: world where
  "demo_captured = exec (CaptureOp demo_bank 2 1) demo_authorized"

definition demo_settled :: world where
  "demo_settled = fold exec [Tick 5, SettleSweep 1] demo_captured"

definition hold_created :: world where
  "hold_created = fold exec [NewMerchant ''shop'', CreateOp 1 demo_escrow] demo_start"

definition hold_captured :: world where
  "hold_captured = fold exec [ConfirmOp demo_bank 2 1 ''tok_visa'', CaptureOp demo_bank 2 1]
     hold_created"

definition hold_held :: world where
  "hold_held = fold exec [Tick 5, SettleSweep 1] hold_captured"

lemma reachable_demo_start: "reachable demo_start"
  by (rule start) (simp_all add: demo_start_def)

lemma reachable_demos:
  "reachable demo_created" "reachable demo_authorized" "reachable demo_captured"
  "reachable demo_settled"
  unfolding demo_settled_def demo_captured_def demo_authorized_def demo_created_def
  by (intro reachable_fold reachable.after reachable_demo_start)+

lemma reachable_holds: "reachable hold_created" "reachable hold_captured" "reachable hold_held"
  unfolding hold_held_def hold_captured_def hold_created_def
  by (intro reachable_fold reachable_demo_start)+

end
