(* ===== verification/Outcomes.thy ===== *)
theory Outcomes
  imports Gateway
begin

text \<open>
  What a caller may conclude from the answer of a money operation
  (\<^verbatim>\<open>internal/service/money.go\<close>): success means exactly one summary of \<^verbatim>\<open>Operations\<close> has
  happened; an error other than a broken connection means nothing has.
\<close>

section \<open>Success and failure of a transaction\<close>

definition never_leaves :: "'a tx_exit io \<Rightarrow> bool" where
  "never_leaves body \<longleftrightarrow> (\<forall>w x w'. body w \<noteq> (Inr (Leave x), w'))"

lemma never_leavesI: "(\<And>w x w'. body w = (Inr (Leave x), w') \<Longrightarrow> False) \<Longrightarrow> never_leaves body"
  by (auto simp: never_leaves_def)

lemma advance_Leave: "advance i s w = (Inr (Leave x), w') \<Longrightarrow> False"
  by (auto simp: advance_def elim!: success)

lemma never_leaves_advance: "never_leaves (advance i s)"
  by (rule never_leavesI) (rule advance_Leave)

lemma never_leaves_fail: "never_leaves (fail e)"
  by (rule never_leavesI) (rule fail_success)

lemma never_leaves_bnd: "(\<And>x. never_leaves (k x)) \<Longrightarrow> never_leaves (bnd m k)"
  unfolding never_leaves_def by (auto elim!: bnd_success)

lemma never_leaves_if: "never_leaves m \<Longrightarrow> never_leaves n \<Longrightarrow> never_leaves (if b then m else n)"
  by simp

lemma never_leaves_option:
  "never_leaves f \<Longrightarrow> (\<And>x. never_leaves (g x)) \<Longrightarrow>
   never_leaves (case s of None \<Rightarrow> f | Some x \<Rightarrow> g x)"
  by (cases s) auto

lemma never_leaves_sum:
  "(\<And>e. never_leaves (f e)) \<Longrightarrow> (\<And>x. never_leaves (g x)) \<Longrightarrow>
   never_leaves (case s of Inl e \<Rightarrow> f e | Inr x \<Rightarrow> g x)"
  by (cases s) auto

lemmas never_leaves_intros = never_leaves_bnd never_leaves_fail never_leaves_advance
  never_leaves_if never_leaves_option never_leaves_sum

lemma never_leaves_bodies:
  "never_leaves (confirm_body bank i m token)" "never_leaves (capture_body bank i m)"
  "never_leaves (refund_body i m amount)" "never_leaves (release_body i m)"
  unfolding confirm_body_def capture_body_def refund_body_def refund_escrow_def refund_direct_def
    release_body_def Let_def
  by (intro never_leaves_intros)+

lemma in_tx_success:
  assumes run: "in_tx body w = (Inr x, w')" and body: "keeps_tx body" "never_leaves body"
    and none: "tx_open w = None"
  obtains w0 w1 where "tables w0 = tables w" and "clock w0 = clock w"
    and "body w0 = (Inr (Commit x), w1)" and "tables w' = tables w1"
  using run
proof (cases rule: in_tx_cases[OF run body(1) none])
  case 1
  then show thesis using body(2) by (auto simp: never_leaves_def)
next
  case (2 w0 w1 y)
  then show thesis using that by auto
qed

lemma in_tx_error:
  assumes run: "in_tx body w = (Inl e, w')" and body: "keeps_tx body"
    and none: "tx_open w = None" and e: "e \<noteq> PgConnection"
  shows "tables w' = tables w"
  by (cases rule: in_tx_cases[OF run body none]) (use e in auto)

section \<open>Success\<close>

lemma reachable_sound: "reachable w \<Longrightarrow> sound (tables w)"
  using reachable_consistent consistentD(6) by blast

text \<open>A capture that reports success has moved an authorized intent of the calling merchant
  to captured, after the bank approved that capture, and has posted exactly its amount: debit
  acquirer receivable, credit the merchant payable (direct) or the intent's escrow liability;
  with one transaction, one outbox event, and nothing else changed.\<close>

theorem capture_success:
  assumes "reachable w" and "CaptureIntent bank i m w = (Inr p', w')"
  shows "\<exists>p \<in> set (t_intents (tables w)). pi_id p = i \<and> pi_merchant p = m \<and>
    pi_status p = StatusAuthorized \<and> Banksim.Capture bank i (pi_amount p) = Inr Approved \<and>
    p' = set_status StatusCaptured (clock w) p \<and>
    money_step p StatusCaptured (clock w)
      (Some (''capture'', [(receivable_key p, sint (pi_amount p)),
                           (payable_key p, - sint (pi_amount p))])) (tables w) (tables w')"
proof -
  obtain w0 w1 where w0: "tables w0 = tables w" "clock w0 = clock w"
    and b: "capture_body bank i m w0 = (Inr (Commit p'), w1)" and w': "tables w' = tables w1"
    using in_tx_success[OF assms(2)[unfolded CaptureIntent_def] keeps_capture_body
        never_leaves_bodies(2) reachable_closed[OF assms(1)]] by metis
  show ?thesis
    by (rule capture_step[OF b])
       (use reachable_sound[OF assms(1)] w0 w' in
        \<open>auto simp: can_transition_to capture_moves_def\<close>)
qed

lemma demo_capture:
  "map_sum id pi_status (fst (CaptureIntent demo_bank 2 1 demo_authorized)) = Inr StatusCaptured"
  by code_simp

lemma succeeded:
  assumes "map_sum id f (fst r) = Inr x"
  shows "r = (Inr (projr (fst r)), snd r)"
  using assms by (cases r; cases "fst r") auto

theorem capture_success_witness:
  "\<exists>p \<in> set (t_intents (tables demo_authorized)). pi_id p = 2 \<and> pi_merchant p = 1 \<and>
    pi_status p = StatusAuthorized \<and> Banksim.Capture demo_bank 2 (pi_amount p) = Inr Approved"
  using capture_success[OF reachable_demos(2) succeeded[OF demo_capture]]
  by auto

text \<open>A confirmation that reports success had the bank's answer to an authorization of the
  intent's own amount and currency with the given token: approved moved the intent to authorized,
  declined to failed; nothing was posted.\<close>

theorem confirm_success:
  assumes "reachable w" and "Confirm bank i m token w = (Inr p', w')"
  shows "\<exists>p \<in> set (t_intents (tables w)). pi_id p = i \<and> pi_merchant p = m \<and>
    (pi_status p = StatusCreated \<or> pi_status p = StatusRequiresConfirmation) \<and>
    (\<exists>answer s. Authorize bank \<lparr>ar_intent = i, ar_amount = pi_amount p,
        ar_currency = pi_currency p, ar_token = token\<rparr> = Inr answer \<and>
      (answer = Approved \<and> s = StatusAuthorized \<or> answer = Declined \<and> s = StatusFailed) \<and>
      p' = set_status s (clock w) p \<and>
      money_step p s (clock w) None (tables w) (tables w'))"
proof -
  obtain w0 w1 where w0: "tables w0 = tables w" "clock w0 = clock w"
    and b: "confirm_body bank i m token w0 = (Inr (Commit p'), w1)" and w': "tables w' = tables w1"
    using in_tx_success[OF assms(2)[unfolded Confirm_def] keeps_confirm_body
        never_leaves_bodies(1) reachable_closed[OF assms(1)]] by metis
  show ?thesis
    by (rule confirm_step[OF b])
       (use reachable_sound[OF assms(1)] w0 w' in \<open>auto intro!: bexI\<close>)
qed

lemma demo_confirms:
  "map_sum id pi_status (fst (Confirm demo_bank 2 1 ''tok_visa'' demo_created)) =
   Inr StatusAuthorized"
  "map_sum id pi_status (fst (Confirm demo_bank 2 1 ''tok_declined'' demo_created)) =
   Inr StatusFailed"
  by code_simp+

theorem confirm_success_witness:
  "\<exists>p \<in> set (t_intents (tables demo_created)). pi_id p = 2 \<and> pi_merchant p = 1 \<and>
    (pi_status p = StatusCreated \<or> pi_status p = StatusRequiresConfirmation)"
  using confirm_success[OF reachable_demos(1) succeeded[OF demo_confirms(1)]] by auto

text \<open>A refund that reports success was of a positive amount, at most the intent's own; it was
  the full amount for an escrow intent and for one not yet settled; it debited the merchant
  payable (or the escrow liability) and credited the account that held the money: receivable
  before settlement, platform cash after, segregated cash in escrow.\<close>

theorem refund_success:
  assumes "reachable w" and "Refund i m amount w = (Inr p', w')"
  shows "\<exists>p \<in> set (t_intents (tables w)). pi_id p = i \<and> pi_merchant p = m \<and>
    0 < sint amount \<and> sint amount \<le> sint (pi_amount p) \<and>
    (pi_mode p = SettlementEscrow \<and> pi_status p = StatusHeldInEscrow \<and> amount = pi_amount p \<or>
     pi_mode p = SettlementDirect \<and> pi_status p = StatusCaptured \<and> amount = pi_amount p \<or>
     pi_mode p = SettlementDirect \<and> pi_status p = StatusSettled) \<and>
    (let s = if amount = pi_amount p then StatusRefunded else StatusPartiallyRefunded;
         from = if pi_status p = StatusCaptured then receivable_key p else cash_key p
     in p' = set_status s (clock w) p \<and>
        money_step p s (clock w)
          (Some (''refund'', [(payable_key p, sint amount), (from, - sint amount)]))
          (tables w) (tables w'))"
proof -
  have run: "in_tx (refund_body i m amount) w = (Inr p', w')"
    using assms(2) by (auto simp: Refund_def fail_def split: if_splits)
  obtain w0 w1 where w0: "tables w0 = tables w" "clock w0 = clock w"
    and b: "refund_body i m amount w0 = (Inr (Commit p'), w1)" and w': "tables w' = tables w1"
    using in_tx_success[OF run keeps_refund_body never_leaves_bodies(3)
        reachable_closed[OF assms(1)]] by metis
  obtain p where p: "p \<in> set (t_intents (tables w))" "pi_id p = i" "pi_merchant p = m"
    and am: "sint amount \<le> sint (pi_amount p)" "0 < sint amount"
    and full: "pi_mode p = SettlementEscrow \<or> pi_status p = StatusCaptured \<Longrightarrow> amount = pi_amount p"
    and tr: "CanTransition (pi_mode p) (pi_status p) (refund_target p amount)"
    and p': "p' = set_status (refund_target p amount) (clock w) p"
    and step: "money_step p (refund_target p amount) (clock w)
           (Some (''refund'', refund_moves p amount)) (tables w) (tables w')"
    by (rule refund_step[OF b]) (use reachable_sound[OF assms(1)] w0 w' in auto)
  have cases: "pi_mode p = SettlementEscrow \<and> pi_status p = StatusHeldInEscrow \<and> amount = pi_amount p \<or>
     pi_mode p = SettlementDirect \<and> pi_status p = StatusCaptured \<and> amount = pi_amount p \<or>
     pi_mode p = SettlementDirect \<and> pi_status p = StatusSettled"
    using tr full by (auto simp: refund_target_def can_transition_to split: if_splits)
  then have "refund_moves p amount = [(payable_key p, sint amount),
      (if pi_status p = StatusCaptured then receivable_key p else cash_key p, - sint amount)]"
    by (auto simp: refund_moves_def)
  with p am cases p' step show ?thesis
    by (intro bexI[of _ p]) (simp_all add: Let_def refund_target_def)
qed

lemma demo_refund:
  "map_sum id pi_status (fst (Refund 2 1 200 demo_settled)) = Inr StatusPartiallyRefunded"
  by code_simp

theorem refund_success_witness:
  "\<exists>p \<in> set (t_intents (tables demo_settled)). pi_id p = 2 \<and> pi_merchant p = 1 \<and>
     0 < sint (200 :: int64) \<and> sint (200 :: int64) \<le> sint (pi_amount p)"
  using refund_success[OF reachable_demos(4) succeeded[OF demo_refund]] by auto

text \<open>C21: A release that reports success was of an intent held in escrow; it closed the escrow
  liability, moved the whole amount from segregated to platform cash, and split it between the
  payee (amount minus fee) and platform revenue (the fee), leaving out a zero side.\<close>

theorem release_success:
  assumes "reachable w" and "Release i m w = (Inr p', w')"
  shows "\<exists>p \<in> set (t_intents (tables w)). \<exists>fee. pi_id p = i \<and> pi_merchant p = m \<and>
    pi_status p = StatusHeldInEscrow \<and> pi_fee p = Some fee \<and>
    0 \<le> sint fee \<and> sint fee \<le> sint (pi_amount p) \<and>
    p' = set_status StatusReleased (clock w) p \<and>
    money_step p StatusReleased (clock w)
      (Some (''release'',
         [(payable_key p, sint (pi_amount p)), (platform_cash_key p, sint (pi_amount p)),
          (cash_key p, - sint (pi_amount p))] @
         (if sint fee < sint (pi_amount p)
          then [(payee_key p, - (sint (pi_amount p) - sint fee))] else []) @
         (if 0 < sint fee then [(revenue_key p, - sint fee)] else [])))
      (tables w) (tables w')"
proof -
  obtain w0 w1 where w0: "tables w0 = tables w" "clock w0 = clock w"
    and b: "release_body i m w0 = (Inr (Commit p'), w1)" and w': "tables w' = tables w1"
    using in_tx_success[OF assms(2)[unfolded Release_def] keeps_release_body
        never_leaves_bodies(4) reachable_closed[OF assms(1)]] by metis
  obtain p payee where p: "p \<in> set (t_intents (tables w))" "pi_id p = i" "pi_merchant p = m"
    and tr: "CanTransition (pi_mode p) (pi_status p) StatusReleased"
    and p': "p' = set_status StatusReleased (clock w) p"
    and step: "money_step p StatusReleased (clock w) (Some (''release'', release_moves p))
           (tables w) (tables w')"
    by (rule release_step[OF b]) (use reachable_sound[OF assms(1)] w0 w' in auto)
  have "intent_wf p" by (rule consistentD(8)[OF reachable_consistent[OF assms(1)] p(1)])
  with tr obtain fee where st: "pi_status p = StatusHeldInEscrow" and fee: "pi_fee p = Some fee"
      "0 \<le> sint fee" "sint fee \<le> sint (pi_amount p)"
    by (auto simp: can_transition_to intent_wf_def)
  have "sint (pi_amount p - fee) = sint (pi_amount p) - sint fee"
    by (rule sint_diff_le[OF fee(2,3)])
  then have "release_moves p =
      [(payable_key p, sint (pi_amount p)), (platform_cash_key p, sint (pi_amount p)),
          (cash_key p, - sint (pi_amount p))] @
         (if sint fee < sint (pi_amount p)
          then [(payee_key p, - (sint (pi_amount p) - sint fee))] else []) @
         (if 0 < sint fee then [(revenue_key p, - sint fee)] else [])"
    using fee by (simp add: release_moves_def positive_move_def fee_of_def)
  with fee p st p' step show ?thesis
    by (intro bexI[of _ p] exI[of _ fee]) (simp_all only: simp_thms)
qed

lemma demo_releases: "map_sum id pi_status (fst (Release 2 1 hold_held)) = Inr StatusReleased"
  by code_simp

theorem release_success_witness:
  "\<exists>p \<in> set (t_intents (tables hold_held)). \<exists>fee. pi_id p = 2 \<and> pi_merchant p = 1 \<and>
     pi_status p = StatusHeldInEscrow \<and> pi_fee p = Some fee"
  using release_success[OF reachable_holds(3) succeeded[OF demo_releases]] by auto

section \<open>All or nothing\<close>

text \<open>
  \<open>moved m d d'\<close>: from \<open>d\<close> to \<open>d'\<close> one intent of merchant \<open>m\<close> took one legal step, with its
  posting, if it has one, on accounts of \<open>m\<close> alone.
\<close>

definition own_posting :: "uuid \<Rightarrow> (string \<times> (akey \<times> int) list) option \<Rightarrow> bool" where
  "own_posting m posting \<longleftrightarrow> (\<forall>(k, n) \<in> set (posting_moves posting). fst k = m)"

definition moved :: "uuid \<Rightarrow> db \<Rightarrow> db \<Rightarrow> bool" where
  "moved m d d' \<longleftrightarrow> (\<exists>p s now posting. pi_merchant p = m \<and> money_step p s now posting d d' \<and>
     explains p s posting \<and> own_posting m posting)"

lemma movedI:
  "money_step p s now posting d d' \<Longrightarrow> explains p s posting \<Longrightarrow>
   own_posting (pi_merchant p) posting \<Longrightarrow> pi_merchant p = m \<Longrightarrow> moved m d d'"
  unfolding moved_def by blast

lemma own_keys [simp]:
  "fst (receivable_key p) = pi_merchant p" "fst (payable_key p) = pi_merchant p"
  "fst (cash_key p) = pi_merchant p" "fst (platform_cash_key p) = pi_merchant p"
  "fst (payee_key p) = pi_merchant p" "fst (revenue_key p) = pi_merchant p"
  by (simp_all add: receivable_key_def payable_key_def cash_key_def platform_cash_key_def
      payee_key_def revenue_key_def)

lemma own_moves:
  "own_posting m None"
  "own_posting (pi_merchant p) (Some (t, capture_moves p))"
  "own_posting (pi_merchant p) (Some (t, settle_moves p))"
  "own_posting (pi_merchant p) (Some (t, refund_moves p a))"
  "own_posting (pi_merchant p) (Some (t, release_moves p))"
  by (auto simp: own_posting_def posting_moves_def capture_moves_def settle_moves_def
      refund_moves_def release_moves_def positive_move_def)

text \<open>What each committed body has done, in this vocabulary.\<close>

lemma confirm_moved:
  assumes con: "consistent (tables w)" and b: "confirm_body bank i m token w = (Inr (Commit x), w')"
  shows "moved m (tables w) (tables w')"
proof -
  obtain p s where p: "p \<in> set (t_intents (tables w))" and m: "pi_merchant p = m"
    and st: "pi_status p = StatusCreated \<or> pi_status p = StatusRequiresConfirmation"
    and s: "s = StatusAuthorized \<or> s = StatusFailed"
    and step: "money_step p s (clock w) None (tables w) (tables w')"
    by (rule confirm_step[OF b consistentD(6)[OF con]]) auto
  show ?thesis
    by (rule movedI[OF step explains_confirm[OF consistentD(8)[OF con p] st s] own_moves(1) m])
qed

lemma capture_moved:
  assumes "consistent (tables w)" and "capture_body bank i m w = (Inr (Commit x), w')"
  shows "moved m (tables w) (tables w')"
  by (rule capture_step[OF assms(2) consistentD(6)[OF assms(1)]])
     (rule movedI[OF _ explains_capture own_moves(2)])

lemma refund_moved:
  assumes "consistent (tables w)" and "refund_body i m amount w = (Inr (Commit x), w')"
  shows "moved m (tables w) (tables w')"
  by (rule refund_step[OF assms(2) consistentD(6)[OF assms(1)]])
     (rule movedI[OF _ explains_refund own_moves(4)])

lemma release_moved:
  assumes "consistent (tables w)" and "release_body i m w = (Inr (Commit x), w')"
  shows "moved m (tables w) (tables w')"
  by (rule release_step[OF assms(2) consistentD(6)[OF assms(1)]])
     (rule movedI[OF _ explains_release[OF _ consistentD(8)[OF assms(1)]] own_moves(5)])

lemma settle_moved:
  assumes "consistent (tables w)" and "settle_body i m w = (Inr (Commit x), w')"
  shows "moved m (tables w) (tables w')"
  by (rule settle_step[OF assms(2) consistentD(6)[OF assms(1)]])
     (rule movedI[OF _ explains_settle own_moves(3)])

lemma expire_moved:
  assumes "consistent (tables w)" and "expire_body i m w = (Inr (Commit x), w')"
  shows "moved m (tables w) (tables w')"
  by (rule expire_step[OF assms(2) consistentD(6)[OF assms(1)]])
     (rule movedI[OF _ explains_expire own_moves(1)])

lemmas bodies_moved = confirm_moved capture_moved refund_moved release_moved settle_moved
  expire_moved

lemma in_tx_moved:
  assumes body: "keeps_tx body" and none: "tx_open w = None" and con: "consistent (tables w)"
    and moved: "\<And>w0 w1 x. tables w0 = tables w \<Longrightarrow> body w0 = (Inr (Commit x), w1) \<Longrightarrow>
      moved m (tables w0) (tables w1)"
  shows "tables (snd (in_tx body w)) = tables w \<or> moved m (tables w) (tables (snd (in_tx body w)))"
proof -
  obtain r w' where r: "in_tx body w = (r, w')" by (cases "in_tx body w")
  from in_tx_cases[OF r body none] moved r show ?thesis by (metis snd_conv)
qed

text \<open>The operation that a merchant's request runs, with its merchant.\<close>

fun requests :: "op \<Rightarrow> uuid \<Rightarrow> bool" where
  "requests (ConfirmOp bank i m token) m' = (m' = m)"
| "requests (CaptureOp bank i m) m' = (m' = m)"
| "requests (RefundOp i m amount) m' = (m' = m)"
| "requests (ReleaseOp i m) m' = (m' = m)"
| "requests operation m' = False"

lemma request_moved:
  assumes none: "tx_open w = None" and con: "consistent (tables w)" and req: "requests operation m"
  shows "tables (exec operation w) = tables w \<or> moved m (tables w) (tables (exec operation w))"
proof -
  have con': "consistent (tables w0)" if "tables w0 = tables w" for w0 using con that by simp
  have "tables (snd (in_tx (confirm_body b i m t) w)) = tables w \<or>
      moved m (tables w) (tables (snd (in_tx (confirm_body b i m t) w)))" for b i t
    by (rule in_tx_moved[OF keeps_confirm_body none con confirm_moved[OF con']])
  moreover have "tables (snd (in_tx (capture_body b i m) w)) = tables w \<or>
      moved m (tables w) (tables (snd (in_tx (capture_body b i m) w)))" for b i
    by (rule in_tx_moved[OF keeps_capture_body none con capture_moved[OF con']])
  moreover have "tables (snd (in_tx (refund_body i m a) w)) = tables w \<or>
      moved m (tables w) (tables (snd (in_tx (refund_body i m a) w)))" for i a
    by (rule in_tx_moved[OF keeps_refund_body none con refund_moved[OF con']])
  moreover have "tables (snd (in_tx (release_body i m) w)) = tables w \<or>
      moved m (tables w) (tables (snd (in_tx (release_body i m) w)))" for i
    by (rule in_tx_moved[OF keeps_release_body none con release_moved[OF con']])
  ultimately show ?thesis
    using req
    by (cases operation)
       (simp_all add: Confirm_def CaptureIntent_def Refund_def Release_def fail_def)
qed

lemma request_cases:
  "reachable w \<Longrightarrow> requests operation m \<Longrightarrow>
   tables (exec operation w) = tables w \<or> moved m (tables w) (tables (exec operation w))"
  by (rule request_moved[OF reachable_closed reachable_consistent])

text \<open>C7: A request of a merchant is all or nothing, whatever breaks and whenever: afterwards
  the tables are the same, or one intent of that merchant took one legal step, with the
  transaction that belongs to it and the event that announces it, on that merchant's accounts.\<close>

theorem request_atomic:
  assumes "reachable w" and "requests operation m"
  shows "tables (exec operation w) = tables w \<or>
    (\<exists>p s posting. p \<in> set (t_intents (tables w)) \<and> pi_merchant p = m \<and>
       walk (pi_mode p) (pi_status p) s \<and> own_posting m posting \<and>
       effect (posting_moves posting) (\<lambda>_. True) = 0 \<and>
       (\<exists>now. money_step p s now posting (tables w) (tables (exec operation w))))"
  using request_cases[OF assms]
proof
  assume "moved m (tables w) (tables (exec operation w))"
  then obtain p s now posting where "pi_merchant p = m" "own_posting m posting"
      "money_step p s now posting (tables w) (tables (exec operation w))" "explains p s posting"
    unfolding moved_def by blast
  moreover from this have "p \<in> set (t_intents (tables w))" "walk (pi_mode p) (pi_status p) s"
      "effect (posting_moves posting) (\<lambda>_. True) = 0"
    by (auto simp: money_step_def explains_def intro: hop_walk)
  ultimately show ?thesis by blast
qed simp

theorem request_atomic_witness:
  "tables (exec (CaptureOp demo_bank 2 1) demo_authorized) = tables demo_authorized \<or>
   (\<exists>p s posting. p \<in> set (t_intents (tables demo_authorized)) \<and> pi_merchant p = 1 \<and>
     own_posting 1 posting)"
  using request_atomic[OF reachable_demos(2), of "CaptureOp demo_bank 2 1" 1]
  by auto

text \<open>Whatever error a money operation answers, other than a broken connection to the
  database, nothing was written: no status moved, no entry, no event.\<close>

theorem error_changes_nothing:
  assumes "reachable w" and "e \<noteq> PgConnection"
    and "Confirm bank i m token w = (Inl e, w') \<or> CaptureIntent bank i m w = (Inl e, w') \<or>
         Refund i m amount w = (Inl e, w') \<or> Release i m w = (Inl e, w')"
  shows "tables w' = tables w"
  using assms(3) reachable_closed[OF assms(1)] assms(2)
  by (auto simp: Confirm_def CaptureIntent_def Refund_def Release_def fail_def
      split: if_splits dest: in_tx_error[OF _ keeps_confirm_body]
        in_tx_error[OF _ keeps_capture_body] in_tx_error[OF _ keeps_refund_body]
        in_tx_error[OF _ keeps_release_body])

lemma demo_wrong_refund: "fst (Refund 2 1 900 demo_authorized) = Inl ErrRefundExceedsCapture"
  by code_simp

theorem error_changes_nothing_witness:
  "tables (snd (Refund 2 1 900 demo_authorized)) = tables demo_authorized"
  using error_changes_nothing[OF reachable_demos(2), of ErrRefundExceedsCapture demo_bank 2 1
      "[]" "snd (Refund 2 1 900 demo_authorized)" 900] demo_wrong_refund
  by (metis error.distinct prod.collapse)

section \<open>Tenants\<close>

lemma effect_none: "\<forall>(k, n) \<in> set ms. \<not> Q k \<Longrightarrow> effect ms Q = 0"
  by (induction ms) auto

lemma filter_update_where:
  "\<forall>x \<in> set xs. R x \<longrightarrow> \<not> P x \<and> \<not> P (f x) \<Longrightarrow> filter P (update_where R f xs) = filter P xs"
  by (induction xs) (auto simp: update_where_def)

definition same_tenant :: "uuid \<Rightarrow> db \<Rightarrow> db \<Rightarrow> bool" where
  "same_tenant m d d' \<longleftrightarrow>
     filter (\<lambda>p. pi_merchant p = m) (t_intents d') = filter (\<lambda>p. pi_merchant p = m) (t_intents d) \<and>
     filter (\<lambda>t. tx_merchant t = m) (t_transactions d') =
       filter (\<lambda>t. tx_merchant t = m) (t_transactions d) \<and>
     filter (\<lambda>r. ob_merchant r = m) (t_outbox d') = filter (\<lambda>r. ob_merchant r = m) (t_outbox d) \<and>
     filter (\<lambda>k. ik_merchant k = m) (t_idempotency d') =
       filter (\<lambda>k. ik_merchant k = m) (t_idempotency d) \<and>
     filter (\<lambda>e. we_merchant e = m) (t_endpoints d') = filter (\<lambda>e. we_merchant e = m) (t_endpoints d) \<and>
     (\<forall>kind c ref. key_sum (\<lambda>k. k = (m, kind, c, ref)) d' = key_sum (\<lambda>k. k = (m, kind, c, ref)) d)"

lemma moved_same_tenant:
  assumes "moved m d d'" and "m' \<noteq> m" and dist: "distinct (map pi_id (t_intents d))"
  shows "same_tenant m' d d'"
proof -
  from assms(1) obtain p s now posting where m: "pi_merchant p = m"
    and step: "money_step p s now posting d d'" and own: "own_posting m posting"
    unfolding moved_def by blast
  from step obtain accts txs es r where p: "p \<in> set (t_intents d)"
    and sums: "\<And>Q. key_sum Q d' = key_sum Q d + effect (posting_moves posting) Q"
    and posts: "posts p now posting txs es" and ev: "event_row (set_status s now p) r"
    and d': "d' = d\<lparr>t_accounts := t_accounts d @ accts,
               t_transactions := t_transactions d @ txs,
               t_entries := t_entries d @ es,
               t_intents := update_where (\<lambda>x. pi_id x = pi_id p) (set_status s now) (t_intents d),
               t_outbox := t_outbox d @ [r]\<rparr>"
    unfolding money_step_def by blast
  have "pi_merchant x \<noteq> m'" if "x \<in> set (t_intents d)" "pi_id x = pi_id p" for x
    using distinct_key_eq[OF dist that(1) p that(2)] m assms(2) by simp
  then have "filter (\<lambda>p. pi_merchant p = m') (t_intents d') =
      filter (\<lambda>p. pi_merchant p = m') (t_intents d)"
    unfolding d' by (simp, intro filter_update_where) simp
  moreover have "filter (\<lambda>t. tx_merchant t = m') txs = []"
    using posting_kinds(2)[OF posts] m assms(2) by (auto simp: filter_empty_conv)
  moreover have "ob_merchant r \<noteq> m'"
    using event_row_fields(3)[OF ev] m assms(2) by simp
  moreover have "effect (posting_moves posting) (\<lambda>k. k = (m', kind, c, ref)) = 0" for kind c ref
    using own assms(2) by (intro effect_none) (auto simp: own_posting_def)
  then have "key_sum (\<lambda>k. k = (m', kind, c, ref)) d' = key_sum (\<lambda>k. k = (m', kind, c, ref)) d"
    for kind c ref by (simp add: sums)
  moreover have "t_transactions d' = t_transactions d @ txs" "t_outbox d' = t_outbox d @ [r]"
      "t_idempotency d' = t_idempotency d" "t_endpoints d' = t_endpoints d"
    by (simp_all add: d')
  ultimately show ?thesis by (simp add: same_tenant_def)
qed

lemma Create_adds:
  "tables (snd (Create m inp w)) = tables w \<or>
   (\<exists>p. pi_merchant p = m \<and>
      tables (snd (Create m inp w)) = (tables w)\<lparr>t_intents := t_intents (tables w) @ [p]\<rparr>)"
proof -
  obtain r w' where r: "Create m inp w = (r, w')" by (cases "Create m inp w")
  then show ?thesis
  proof (cases rule: Create_run)
    case (rejected e)
    with r show ?thesis by simp
  next
    case (inserted cur mode payee fee meta)
    from inserted(1) show ?thesis
    proof (cases rule: run_CreateIntent)
      case none
      with r show ?thesis by simp
    next
      case (row u)
      with r show ?thesis
        by (intro disjI2 exI[of _ "new_intent u m (ci_amount inp) cur mode payee fee meta (clock w)"])
           (simp add: new_intent_def)
    qed
  qed
qed

text \<open>
  An operation on behalf of one merchant never touches another merchant's rows or balances,
  whatever intent id it names.
\<close>

lemma operation_isolated:
  assumes "tx_open w = None" and "consistent (tables w)"
    and "requests operation m \<or> (\<exists>inp. operation = CreateOp m inp)" and "m' \<noteq> m"
  shows "same_tenant m' (tables w) (tables (exec operation w))"
  using assms(3)
proof
  assume "requests operation m"
  from request_moved[OF assms(1,2) this] show ?thesis
    using moved_same_tenant assms(4) consistentD(7)[OF assms(2)] by (metis same_tenant_def)
next
  assume "\<exists>inp. operation = CreateOp m inp"
  then obtain inp where "operation = CreateOp m inp" ..
  with Create_adds[of m inp w] assms(4) show ?thesis
    by (auto simp: same_tenant_def intro!: key_sum_cong)
qed

end
