(* ===== verification/Progress.thy ===== *)
theory Progress
  imports Outcomes
begin

text \<open>
  Total correctness of the money operations: when the database answers and draws fresh ids for
  as many exchanges as one operation makes, the operation answers exactly what the state of its
  intent and the bank call for. \<open>lucky n w\<close> is that hypothesis for the next \<open>n\<close> exchanges; the
  longest operation makes seventeen.
\<close>

section \<open>The next exchanges go well\<close>

definition calm :: "nat \<Rightarrow> world \<Rightarrow> bool" where
  "calm n w \<longleftrightarrow> (\<forall>k < n. faults w (fpos w + k) = NoFault)"

definition ids_of :: "db \<Rightarrow> uuid set" where
  "ids_of d = set (map ac_id (t_accounts d)) \<union> set (map tx_id (t_transactions d)) \<union>
     set (map en_id (t_entries d)) \<union> set (map pi_id (t_intents d)) \<union>
     set (map ob_id (t_outbox d)) \<union> set (map ob_event_id (t_outbox d))"

definition lucky :: "nat \<Rightarrow> world \<Rightarrow> bool" where
  "lucky n w \<longleftrightarrow> calm n w \<and> (\<forall>j < n. rng w (rpos w + j) \<notin> ids_of (tables w)) \<and>
     distinct (map (\<lambda>j. rng w (rpos w + j)) [0..<n])"

lemma lucky_calm: "lucky n w \<Longrightarrow> calm n w"
  by (simp add: lucky_def)

lemma calm_first: "calm (Suc n) w \<Longrightarrow> faults w (fpos w) = NoFault"
  by (auto simp: calm_def dest: spec[of _ 0])

lemma calm_mono: "calm n w \<Longrightarrow> k \<le> n \<Longrightarrow> calm k w"
  by (simp add: calm_def)

lemma lucky_mono: "lucky n w \<Longrightarrow> k \<le> n \<Longrightarrow> lucky k w"
  by (auto simp: lucky_def distinct_map simp del: upt_Suc intro: calm_mono inj_on_subset)

lemma calm_next: "calm (Suc n) w \<Longrightarrow> fpos w' = Suc (fpos w) \<Longrightarrow> faults w' = faults w \<Longrightarrow> calm n w'"
  unfolding calm_def by (metis Suc_less_eq add_Suc_shift)

lemma lucky_first: "lucky (Suc n) w \<Longrightarrow> rng w (rpos w) \<notin> ids_of (tables w) \<and> faults w (fpos w) = NoFault"
  by (auto simp: lucky_def calm_def dest: spec[of _ 0])

lemma lucky_next:
  assumes l: "lucky (Suc n) w" and "fpos w' = Suc (fpos w)" and r: "rpos w' = Suc (rpos w)"
    and "faults w' = faults w" and rng: "rng w' = rng w"
    and ids: "ids_of (tables w') \<subseteq> insert (rng w (rpos w)) (ids_of (tables w))"
  shows "lucky n w'"
proof -
  have "calm n w'" using assms lucky_calm calm_next by blast
  moreover have "rng w' (rpos w' + j) \<notin> ids_of (tables w')" if "j < n" for j
  proof -
    have "rng w (rpos w + Suc j) \<notin> ids_of (tables w)"
      using l that unfolding lucky_def by blast
    moreover have "rng w (rpos w + Suc j) \<noteq> rng w (rpos w + 0)"
      using l that unfolding lucky_def distinct_map inj_on_def
      by (metis atLeastLessThan_iff nat.distinct(1) not_less_eq set_upt zero_le zero_less_Suc)
    ultimately show ?thesis using ids rng r by auto
  qed
  moreover have "distinct (map (\<lambda>j. rng w' (rpos w' + j)) [0..<n])"
  proof -
    have "inj_on (\<lambda>j. rng w (rpos w + j)) {0..<Suc n}"
      using l unfolding lucky_def distinct_map by (simp only: set_upt)
    then have "Suc x = Suc y" if "x < n" "y < n" "rng w (rpos w + Suc x) = rng w (rpos w + Suc y)"
      for x y using inj_on_eq_iff[of "\<lambda>j. rng w (rpos w + j)" _ "Suc x" "Suc y"] that by auto
    then have "inj_on (\<lambda>j. rng w (rpos w + Suc j)) {0..<n}"
      by (auto simp: inj_on_def)
    then show ?thesis using rng r by (simp add: distinct_map)
  qed
  ultimately show ?thesis by (simp add: lucky_def)
qed

lemma lucky_run:
  assumes "lucky (Suc n) w" and "f (rng w (rpos w)) (clock w) (tables w) = Inr (x, d)"
    and "ids_of d \<subseteq> insert (rng w (rpos w)) (ids_of (tables w))"
  obtains w' where "run f w = (Inr x, w')" and "lucky n w'" and "tables w' = d"
    and "clock w' = clock w"
proof -
  define w' where "w' = w\<lparr>fpos := Suc (fpos w), rpos := Suc (rpos w), tables := d\<rparr>"
  have "run f w = (Inr x, w')"
    using assms(2) lucky_first[OF assms(1)] by (simp add: run_def w'_def)
  moreover have "lucky n w'"
    by (rule lucky_next[OF assms(1)]) (use assms(3) in \<open>simp_all add: w'_def\<close>)
  ultimately show thesis using that by (simp add: w'_def)
qed

section \<open>Parts of an operation\<close>

lemma ids_of_new_account:
  "ids_of (d\<lparr>t_accounts := t_accounts d @ [a]\<rparr>) = insert (ac_id a) (ids_of d)"
  by (auto simp: ids_of_def)

lemma lucky_get_account:
  assumes "lucky (Suc n) w" and "t \<in> set account_types"
  obtains i w' where "get_account m t k c w = (Inr i, w')" and "lucky n w'"
proof -
  let ?u = "rng w (rpos w)"
  have u: "?u \<notin> ids_of (tables w)" using lucky_first[OF assms(1)] by simp
  obtain a d where g: "GetOrCreateSingletonAccount m t k c ?u (clock w) (tables w) = Inr (a, d)"
    and "ids_of d \<subseteq> insert ?u (ids_of (tables w))"
  proof (cases "find (\<lambda>a. ac_merchant a = m \<and> ac_kind a = k \<and> ac_currency a = c \<and>
      ac_reference a = None) (t_accounts (tables w))")
    case None
    with u assms(2) show thesis
      by (intro that) (auto simp: GetOrCreateSingletonAccount_def Let_def ids_of_new_account ids_of_def)
  next
    case (Some a)
    with assms(2) show thesis by (intro that[of a "tables w"]) (auto simp: GetOrCreateSingletonAccount_def)
  qed
  from lucky_run[where f = "GetOrCreateSingletonAccount m t k c", OF assms(1) this] obtain w' where
      "run (GetOrCreateSingletonAccount m t k c) w = (Inr a, w')" "lucky n w'" .
  then show thesis by (intro that[of "ac_id a" w']) (simp_all add: get_account_def bnd_def ret_def)
qed

lemma lucky_perRefAccount:
  assumes "lucky (Suc n) w" and "t \<in> set account_types"
  obtains i w' where "perRefAccount m t k c r w = (Inr i, w')" and "lucky n w'"
proof -
  let ?u = "rng w (rpos w)"
  have u: "?u \<notin> ids_of (tables w)" using lucky_first[OF assms(1)] by simp
  obtain a d where g: "GetOrCreatePerRefAccount m t k c r ?u (clock w) (tables w) = Inr (a, d)"
    and "ids_of d \<subseteq> insert ?u (ids_of (tables w))"
  proof (cases "find (\<lambda>a. ac_merchant a = m \<and> ac_kind a = k \<and> ac_currency a = c \<and>
      ac_reference a = Some r) (t_accounts (tables w))")
    case None
    with u assms(2) show thesis
      by (intro that) (auto simp: GetOrCreatePerRefAccount_def Let_def ids_of_new_account ids_of_def)
  next
    case (Some a)
    with assms(2) show thesis by (intro that[of a "tables w"]) (auto simp: GetOrCreatePerRefAccount_def)
  qed
  from lucky_run[where f = "GetOrCreatePerRefAccount m t k c r", OF assms(1) this] obtain w' where
      "run (GetOrCreatePerRefAccount m t k c r) w = (Inr a, w')" "lucky n w'" .
  then show thesis by (intro that[of "ac_id a" w']) (simp_all add: perRefAccount_def bnd_def ret_def)
qed

text \<open>A leg the table accepts.\<close>

definition postable :: "db \<Rightarrow> string \<Rightarrow> leg \<Rightarrow> bool" where
  "postable d c l \<longleftrightarrow> 0 \<le> sint (lg_debit l) \<and> 0 \<le> sint (lg_credit l) \<and>
     (lg_debit l = 0) \<noteq> (lg_credit l = 0) \<and> lg_currency l = c \<and>
     lg_account l \<in> set (map ac_id (t_accounts d))"

lemma lucky_insert_legs:
  assumes "lucky (length legs + n) w" and "t \<in> set (map tx_id (t_transactions (tables w)))"
    and "\<forall>l \<in> set legs. postable (tables w) c l"
  obtains w' where "insert_legs t legs w = (Inr (), w')" and "lucky n w'"
  using assms
proof (induction legs arbitrary: w thesis)
  case Nil
  then show ?case by (simp add: ret_def)
next
  case (Cons l legs)
  let ?u = "rng w (rpos w)"
  let ?f = "InsertEntry t (lg_account l) (lg_debit l) (lg_credit l) (lg_currency l)"
  have lk: "lucky (Suc (length legs + n)) w" using Cons.prems by simp
  have u: "?u \<notin> ids_of (tables w)" using lucky_first[OF lk] by simp
  obtain e where f: "?f ?u (clock w) (tables w) =
      Inr (e, (tables w)\<lparr>t_entries := t_entries (tables w) @ [e]\<rparr>)" and e: "en_id e = ?u"
  proof
    let ?e = "\<lparr>en_id = ?u, en_transaction = t, en_account = lg_account l, en_debit = lg_debit l,
      en_credit = lg_credit l, en_currency = lg_currency l, en_created = clock w\<rparr>"
    show "?f ?u (clock w) (tables w) =
      Inr (?e, (tables w)\<lparr>t_entries := t_entries (tables w) @ [?e]\<rparr>)"
      using Cons.prems u by (auto simp: InsertEntry_def Let_def postable_def ids_of_def)
  qed simp
  have ids: "ids_of ((tables w)\<lparr>t_entries := t_entries (tables w) @ [e]\<rparr>) \<subseteq>
      insert ?u (ids_of (tables w))"
    using e by (auto simp: ids_of_def)
  from lucky_run[where f = ?f, OF lk f ids] obtain w1 where w1: "run ?f w = (Inr e, w1)"
      "lucky (length legs + n) w1"
      "tables w1 = (tables w)\<lparr>t_entries := t_entries (tables w) @ [e]\<rparr>" .
  have "t \<in> set (map tx_id (t_transactions (tables w1)))"
      "\<forall>l \<in> set legs. postable (tables w1) c l"
    using Cons.prems w1(3) by (auto simp: postable_def)
  from Cons.IH[OF _ w1(2) this] obtain w' where "insert_legs t legs w1 = (Inr (), w')" "lucky n w'"
    by blast
  with w1(1) show ?case by (intro Cons.prems(1)) (simp_all add: bnd_def)
qed

lemma lucky_PostTransaction:
  assumes l: "lucky (Suc (length legs) + n) w" and legs: "legs \<noteq> []"
    and ok: "\<forall>l \<in> set legs. postable (tables w) (lg_currency (hd legs)) l"
    and bal: "(\<Sum>l\<leftarrow>legs. lg_debit l) = (\<Sum>l\<leftarrow>legs. lg_credit l)"
  obtains t w' where "PostTransaction m k r legs w = (Inr t, w')" and "lucky n w'"
proof -
  let ?u = "rng w (rpos w)"
  have lk: "lucky (Suc (length legs + n)) w" using l by simp
  have u: "?u \<notin> ids_of (tables w)" using lucky_first[OF lk] by simp
  define tx where "tx = \<lparr>tx_id = ?u, tx_merchant = m, tx_kind = k, tx_reference = r,
    tx_created = clock w\<rparr>"
  have f: "InsertTransaction m k r ?u (clock w) (tables w) =
      Inr (tx, (tables w)\<lparr>t_transactions := t_transactions (tables w) @ [tx]\<rparr>)"
    using u by (auto simp: InsertTransaction_def Let_def ids_of_def tx_def)
  have ids: "ids_of ((tables w)\<lparr>t_transactions := t_transactions (tables w) @ [tx]\<rparr>) \<subseteq>
      insert ?u (ids_of (tables w))"
    by (auto simp: ids_of_def tx_def)
  from lucky_run[where f = "InsertTransaction m k r", OF lk f ids] obtain w1 where
      w1: "run (InsertTransaction m k r) w = (Inr tx, w1)" "lucky (length legs + n) w1"
      "tables w1 = (tables w)\<lparr>t_transactions := t_transactions (tables w) @ [tx]\<rparr>" .
  have "tx_id tx \<in> set (map tx_id (t_transactions (tables w1)))"
      "\<forall>l \<in> set legs. postable (tables w1) (lg_currency (hd legs)) l"
    using ok w1(3) by (auto simp: postable_def)
  from lucky_insert_legs[OF w1(2) this] obtain w2 where
      w2: "insert_legs (tx_id tx) legs w1 = (Inr (), w2)" "lucky n w2" .
  obtain l0 ls where l0: "legs = l0 # ls" using legs by (cases legs) auto
  have "check_legs (lg_currency l0) 0 0 legs =
      Inr (0 + (\<Sum>l\<leftarrow>legs. lg_debit l), 0 + (\<Sum>l\<leftarrow>legs. lg_credit l))"
    by (rule check_legs_total) (use ok l0 in \<open>auto simp: postable_def\<close>)
  then have "PostTransaction m k r legs w = (Inr (tx_id tx), w2)"
    using bal w1(1) w2(1) by (simp add: PostTransaction_def l0 bnd_def ret_def)
  then show thesis using that w2(2) by blast
qed

lemma lucky_advance:
  assumes l: "lucky (Suc (Suc (Suc n))) w" and p: "p \<in> set (t_intents (tables w))"
    and dist: "distinct (map pi_id (t_intents (tables w)))" and s: "s \<in> set all_statuses"
  obtains w' where "advance (pi_id p) s w = (Inr (Commit (set_status s (clock w) p)), w')"
    and "calm n w'"
proof -
  have fp: "find (\<lambda>x. pi_id x = pi_id p) (t_intents (tables w)) = Some p"
    using find_key_iff[OF dist] p by simp
  let ?p = "set_status s (clock w) p"
  let ?d = "(tables w)\<lparr>t_intents := update_where (\<lambda>x. pi_id x = pi_id p)
      (set_status s (clock w)) (t_intents (tables w))\<rparr>"
  have f: "UpdateIntentStatus (pi_id p) s (rng w (rpos w)) (clock w) (tables w) = Inr (?p, ?d)"
    using fp s by (simp add: UpdateIntentStatus_def)
  have "ids_of ?d = ids_of (tables w)"
    by (simp add: ids_of_def intent_status.keys_update flip: set_map)
  then have ids: "ids_of ?d \<subseteq> insert (rng w (rpos w)) (ids_of (tables w))" by auto
  from lucky_run[where f = "UpdateIntentStatus (pi_id p) s", OF l f ids] obtain w1 where
      w1: "run (UpdateIntentStatus (pi_id p) s) w = (Inr ?p, w1)" "lucky (Suc (Suc n)) w1" .
  define w2 where "w2 = w1\<lparr>rpos := Suc (rpos w1)\<rparr>"
  let ?e = "rng w1 (rpos w1)" and ?u = "rng w1 (Suc (rpos w1))"
  have e: "?e \<notin> ids_of (tables w1)" and u: "?u \<notin> ids_of (tables w1)"
    and flt: "faults w1 (fpos w1) = NoFault"
    using w1(2) by (auto simp: lucky_def calm_def dest: spec[of _ 0] spec[of _ 1])
  obtain r d where i: "InsertOutbox (pi_merchant ?p) ?e (eventTypeFor (pi_status ?p))
      (intent_payload ?p) ?u (clock w1) (tables w1) = Inr (r, d)"
    using e u by (auto simp: InsertOutbox_def Let_def ids_of_def)
  define w3 where "w3 = w2\<lparr>fpos := Suc (fpos w2), rpos := Suc (rpos w2), tables := d\<rparr>"
  have "run (InsertOutbox (pi_merchant ?p) ?e (eventTypeFor (pi_status ?p)) (intent_payload ?p)) w2 =
      (Inr r, w3)"
    using i flt by (simp add: run_def w2_def w3_def)
  then have "emit ?p w1 = (Inr (), w3)"
    by (simp add: emit_def EmitEvent_def bnd_def ret_def uuid_New_def w2_def)
  with w1(1) have "advance (pi_id p) s w = (Inr (Commit ?p), w3)"
    by (simp add: advance_def bnd_def ret_def)
  moreover have "calm n w3"
    using calm_next[of "Suc n" w1 w3] lucky_calm[OF w1(2)]
    by (auto simp: w3_def w2_def intro: calm_mono)
  ultimately show thesis using that by blast
qed

section \<open>Whole transactions\<close>

definition begun :: "world \<Rightarrow> world" where
  "begun w = w\<lparr>fpos := Suc (fpos w), tx_open := Some (tables w)\<rparr>"

lemma begun_sel [simp]: "tables (begun w) = tables w" "clock (begun w) = clock w"
  by (simp_all add: begun_def)

lemma calm_begun: "calm (Suc n) w \<Longrightarrow> calm n (begun w)"
  by (rule calm_next) (simp_all add: begun_def)

lemma lucky_begun:
  assumes "lucky (Suc n) w"
  shows "lucky n (begun w)"
proof -
  have "calm n (begun w)" by (rule calm_begun[OF lucky_calm[OF assms]])
  moreover have "lucky n w" by (rule lucky_mono[OF assms]) simp
  ultimately show ?thesis by (simp add: lucky_def begun_def)
qed

lemma in_tx_begun:
  "calm (Suc n) w \<Longrightarrow> in_tx body w = (let (r, w') = bnd body (\<lambda>x.
     case x of Commit y \<Rightarrow> bnd commit_tx (\<lambda>_. ret y) | Leave y \<Rightarrow> ret y) (begun w)
     in (r, rollback_open w'))"
  by (simp add: in_tx_def begin_tx_def bnd_def begun_def calm_first)

lemma in_tx_fails:
  "calm (Suc n) w \<Longrightarrow> body (begun w) = (Inl e, w1) \<Longrightarrow> fst (in_tx body w) = Inl e"
  by (simp add: in_tx_begun bnd_Inl split: prod.split)

lemma in_tx_commits:
  assumes "calm (Suc n) w" and "body (begun w) = (Inr (Commit x), w1)" and "calm (Suc k) w1"
  shows "fst (in_tx body w) = Inr x"
proof -
  have "faults w1 (fpos w1) = NoFault" using assms(3) by (rule calm_first)
  then show ?thesis
    using assms(1,2) by (simp add: in_tx_begun bnd_def commit_tx_def ret_def)
qed

lemma in_tx_leaves:
  "calm (Suc n) w \<Longrightarrow> body (begun w) = (Inr (Leave x), w1) \<Longrightarrow> fst (in_tx body w) = Inr x"
  by (simp add: in_tx_begun bnd_def ret_def split: prod.split)

section \<open>Locking\<close>

lemma lock_found:
  assumes "lucky (Suc n) w" and "p \<in> set (t_intents (tables w))"
    and "distinct (map pi_id (t_intents (tables w)))"
  obtains w1 where "lock (pi_id p) (pi_merchant p) w = (Inr p, w1)" and "lucky n w1"
    and "tables w1 = tables w" and "clock w1 = clock w"
proof -
  have "filter (\<lambda>x. pi_id x = pi_id p \<and> pi_merchant x = pi_merchant p) (t_intents (tables w)) = [p]"
    using filter_key_single[OF assms(3,2), of "\<lambda>x. pi_merchant x = pi_merchant p"] by simp
  then have f: "LockIntentForUpdate (pi_id p) (pi_merchant p) (rng w (rpos w)) (clock w) (tables w) =
      Inr (p, tables w)"
    by (simp add: LockIntentForUpdate_def one_row_def)
  from lucky_run[where f = "LockIntentForUpdate (pi_id p) (pi_merchant p)", OF assms(1) f] obtain w1
    where "run (LockIntentForUpdate (pi_id p) (pi_merchant p)) w = (Inr p, w1)" "lucky n w1"
      "tables w1 = tables w" "clock w1 = clock w"
    by blast
  then show thesis by (intro that[of w1]) (simp_all add: lock_def map_err_def)
qed

lemma lock_missing:
  assumes "calm (Suc n) w"
    and "\<not> (\<exists>p \<in> set (t_intents (tables w)). pi_id p = i \<and> pi_merchant p = m)"
  obtains w1 where "lock i m w = (Inl ErrIntentNotFound, w1)"
proof -
  have "filter (\<lambda>x. pi_id x = i \<and> pi_merchant x = m) (t_intents (tables w)) = []"
    using assms(2) by (auto simp: filter_empty_conv)
  moreover have "faults w (fpos w) = NoFault" using assms(1) by (rule calm_first)
  ultimately show thesis
    by (intro that)
       (auto simp: lock_def map_err_def run_def Let_def LockIntentForUpdate_def one_row_def
          not_found_def)
qed

text \<open>
  The start of every operation: begin and lock. \<open>at_intent w k p w1\<close> is a world after both, with
  \<open>k\<close> lucky exchanges to come.
\<close>

lemma locked:
  assumes "lucky (Suc (Suc n)) w" and "sound (tables w)" and "p \<in> set (t_intents (tables w))"
  obtains w1 where "lock (pi_id p) (pi_merchant p) (begun w) = (Inr p, w1)" and "lucky n w1"
    and "tables w1 = tables w" and "clock w1 = clock w"
  using lock_found[OF lucky_begun[OF assms(1)], of p] assms(2,3)
  by (auto simp: sound_def)

lemma unlocked:
  assumes "lucky (Suc (Suc n)) w"
    and "find (\<lambda>p. pi_id p = i \<and> pi_merchant p = m) (t_intents (tables w)) = None"
  obtains w1 where "lock i m (begun w) = (Inl ErrIntentNotFound, w1)"
proof -
  have "\<not> (\<exists>p \<in> set (t_intents (tables (begun w))). pi_id p = i \<and> pi_merchant p = m)"
    using assms(2) by (simp add: find_None_iff)
  from lock_missing[OF calm_begun[OF lucky_calm[OF assms(1)]] this] that show thesis by blast
qed

lemma asset_liability [simp]:
  "TypeAsset \<in> set account_types" "TypeLiability \<in> set account_types"
  "TypeRevenue \<in> set account_types"
  by (simp_all add: type_defs account_types_def)

lemma postable_legs:
  "0 < sint n \<Longrightarrow> postable d c (debit_leg a n c) \<longleftrightarrow> a \<in> set (map ac_id (t_accounts d))"
  "0 < sint n \<Longrightarrow> postable d c (credit_leg a n c) \<longleftrightarrow> a \<in> set (map ac_id (t_accounts d))"
  by (auto simp: postable_def)

lemma has_account_id: "has_account d i k \<Longrightarrow> i \<in> set (map ac_id (t_accounts d))"
  by (auto simp: has_account_def)

text \<open>The common end: post the legs on accounts that exist, advance, commit.\<close>

lemma lucky_post_advance:
  assumes l: "lucky (Suc (length legs) + Suc (Suc (Suc n))) w1" and legs: "legs \<noteq> []"
    and ok: "\<forall>l \<in> set legs. postable (tables w1) (lg_currency (hd legs)) l"
    and bal: "(\<Sum>l\<leftarrow>legs. lg_debit l) = (\<Sum>l\<leftarrow>legs. lg_credit l)"
    and opened: "opens (tables w) (tables w1)" and clk: "clock w1 = clock w"
    and snd: "sound (tables w)" and p: "p \<in> set (t_intents (tables w))"
    and s: "s \<in> set all_statuses"
  obtains w' where "bnd (PostTransaction m k r legs) (\<lambda>_. advance (pi_id p) s) w1 =
      (Inr (Commit (set_status s (clock w) p)), w')" and "calm n w'"
proof -
  obtain t w2 where post: "PostTransaction m k r legs w1 = (Inr t, w2)"
    and l2: "lucky (Suc (Suc (Suc n))) w2"
    by (rule lucky_PostTransaction[OF l legs ok bal])
  have wf: "ledger_wf (tables w1)"
    using opened snd by (auto simp: opens_def sound_def good_ledger_def)
  have t2: "t_intents (tables w2) = t_intents (tables w)" "clock w2 = clock w"
    using opens_frame(1)[OF opened] clk by (rule_tac PostTransaction_success[OF post wf], simp)+
  then obtain w' where "advance (pi_id p) s w2 = (Inr (Commit (set_status s (clock w2) p)), w')"
      "calm n w'"
    using lucky_advance[OF l2, of p s] p snd s by (auto simp: sound_def)
  with post t2(2) show thesis by (intro that[of w']) (simp_all add: bnd_Inr)
qed

section \<open>The decision of an operation\<close>

text \<open>
  \<open>answers c w r\<close>: run from \<open>w\<close>, the rest \<open>c\<close> of a body ends with the answer \<open>r\<close>, and the commit
  that follows a success will go through.
\<close>

definition answers :: "'a tx_exit io \<Rightarrow> world \<Rightarrow> error + 'a \<Rightarrow> bool" where
  "answers c w r \<longleftrightarrow>
     (case r of Inl e \<Rightarrow> \<exists>w'. c w = (Inl e, w')
      | Inr x \<Rightarrow> \<exists>w'. c w = (Inr (Commit x), w') \<and> calm 1 w')"

lemma answers_fail [simp]: "answers (fail e) w r \<longleftrightarrow> r = Inl e"
  by (auto simp: answers_def fail_def split: sum.splits)

lemma answers_bnd: "m w = (Inr x, w1) \<Longrightarrow> answers (bnd m k) w r \<longleftrightarrow> answers (k x) w1 r"
  by (cases r) (simp_all add: answers_def bnd_Inr)

lemma answersI: "c w = (Inr (Commit x), w') \<Longrightarrow> calm 1 w' \<Longrightarrow> answers c w (Inr x)"
  by (auto simp: answers_def)

text \<open>Every operation begins, locks its intent, and decides.\<close>

lemma tx_decision:
  assumes reach: "reachable w" and lucky: "lucky 20 w"
    and rest: "\<And>p w1. p \<in> set (t_intents (tables w)) \<Longrightarrow> pi_id p = i \<Longrightarrow> pi_merchant p = m \<Longrightarrow>
      intent_wf p \<Longrightarrow> lucky 18 w1 \<Longrightarrow> tables w1 = tables w \<Longrightarrow> clock w1 = clock w \<Longrightarrow>
      answers (k p) w1 (decision p)"
  shows "fst (in_tx (bnd (lock i m) k) w) =
    (case find (\<lambda>p. pi_id p = i \<and> pi_merchant p = m) (t_intents (tables w)) of
       None \<Rightarrow> Inl ErrIntentNotFound | Some p \<Rightarrow> decision p)"
proof -
  have l18: "lucky (Suc (Suc 18)) w" by (rule lucky_mono[OF lucky]) simp
  have c: "calm (Suc 19) w" by (rule calm_mono[OF lucky_calm[OF lucky]]) simp
  show ?thesis
  proof (cases "find (\<lambda>p. pi_id p = i \<and> pi_merchant p = m) (t_intents (tables w))")
    case None
    then obtain w1 where "lock i m (begun w) = (Inl ErrIntentNotFound, w1)"
      using unlocked[OF l18] by blast
    then have "bnd (lock i m) k (begun w) = (Inl ErrIntentNotFound, w1)" by (simp add: bnd_Inl)
    then show ?thesis
      using in_tx_fails[where body = "bnd (lock i m) k", OF c] None by simp
  next
    case (Some p)
    from find_SomeD[OF Some] have p: "p \<in> set (t_intents (tables w))" "pi_id p = i"
        "pi_merchant p = m" by auto
    obtain w1 where lk: "lock i m (begun w) = (Inr p, w1)" and "lucky 18 w1"
      and "tables w1 = tables w" "clock w1 = clock w"
      using locked[OF l18 reachable_sound[OF reach] p(1)] p by auto
    then have "answers (bnd (lock i m) k) (begun w) (decision p)"
      using rest p consistentD(8)[OF reachable_consistent[OF reach] p(1)]
      by (simp add: answers_bnd[where m = "lock i m", OF lk])
    then have "fst (in_tx (bnd (lock i m) k) w) = decision p"
      unfolding answers_def
      using in_tx_fails[where body = "bnd (lock i m) k", OF c]
        in_tx_commits[where body = "bnd (lock i m) k" and k = 0, OF c]
      by (auto split: sum.splits)
    with Some show ?thesis by simp
  qed
qed

text \<open>
  \<open>gives g n w a w'\<close>: from \<open>w\<close>, \<open>g\<close> opens or finds account \<open>a\<close>, with \<open>n\<close> lucky exchanges left.
\<close>

definition gives :: "uuid io \<Rightarrow> nat \<Rightarrow> world \<Rightarrow> uuid \<Rightarrow> world \<Rightarrow> bool" where
  "gives g n w a w' \<longleftrightarrow> g w = (Inr a, w') \<and> lucky n w' \<and> opens (tables w) (tables w') \<and>
     a \<in> set (map ac_id (t_accounts (tables w'))) \<and> clock w' = clock w"

lemma next_account:
  assumes "lucky (Suc n) w" and "t \<in> set account_types"
  obtains a w' where "gives (get_account m t k c) n w a w'"
proof -
  obtain i w' where g: "get_account m t k c w = (Inr i, w')" and l: "lucky n w'"
    by (rule lucky_get_account[OF assms])
  from g show thesis
    by (rule get_account_success)
       (rule that[of i w'], use g l in \<open>auto simp: gives_def has_account_def\<close>)
qed

lemma next_perRefAccount:
  assumes "lucky (Suc n) w" and "t \<in> set account_types"
  obtains a w' where "gives (perRefAccount m t k c r) n w a w'"
proof -
  obtain i w' where g: "perRefAccount m t k c r w = (Inr i, w')" and l: "lucky n w'"
    by (rule lucky_perRefAccount[OF assms])
  from g show thesis
    by (rule perRefAccount_success)
       (rule that[of i w'], use g l in \<open>auto simp: gives_def has_account_def\<close>)
qed

lemma gives_bnd: "gives g n w a w' \<Longrightarrow> answers (bnd g k) w r \<longleftrightarrow> answers (k a) w' r"
  by (rule answers_bnd) (simp add: gives_def)

lemma gives_lucky: "gives g n w a w' \<Longrightarrow> lucky n w'"
  by (simp add: gives_def)

lemma opens_ids: "opens d d' \<Longrightarrow> set (map ac_id (t_accounts d)) \<subseteq> set (map ac_id (t_accounts d'))"
  by (auto simp: opens_def)

text \<open>A posting of one debit and one credit, on two accounts opened one after the other.\<close>

lemma two_legs:
  assumes g1: "gives g1 17 w1 a w2" and g2: "gives g2 16 w2 b w3"
    and snd: "sound (tables w1)" and p: "p \<in> set (t_intents (tables w1))"
    and s: "s \<in> set all_statuses" and n: "0 < sint n"
  shows "answers (bnd g1 (\<lambda>a. bnd g2 (\<lambda>b. bnd (PostTransaction m k r
      [debit_leg a n c, credit_leg b n c]) (\<lambda>_. advance (pi_id p) s)))) w1
      (Inr (set_status s (clock w1) p))"
proof -
  let ?legs = "[debit_leg a n c, credit_leg b n c]"
  note h = g1[unfolded gives_def] g2[unfolded gives_def]
  have ok: "\<forall>l \<in> set ?legs. postable (tables w3) (lg_currency (hd ?legs)) l"
    using h opens_ids[of "tables w2" "tables w3"] n by (auto simp: postable_legs)
  have l7: "lucky (Suc (length ?legs) + Suc (Suc (Suc 1))) w3"
    by (rule lucky_mono[OF gives_lucky[OF g2]]) simp
  have o: "opens (tables w1) (tables w3)" and c: "clock w3 = clock w1"
    using h opens_trans by auto
  obtain w4 where "bnd (PostTransaction m k r ?legs) (\<lambda>_. advance (pi_id p) s) w3 =
      (Inr (Commit (set_status s (clock w1) p)), w4)" "calm 1 w4"
    by (rule lucky_post_advance[OF l7 _ ok _ o c snd p s, of m k r]) simp_all
  then show ?thesis by (simp add: gives_bnd[OF g1] gives_bnd[OF g2] answersI)
qed

section \<open>Capture\<close>

lemma capture_answers:
  assumes p: "p \<in> set (t_intents (tables w))" "intent_wf p"
    and l1: "lucky 18 w" and snd: "sound (tables w)"
  shows "answers (bnd (get_account m TypeAsset KindAcquirerReceivable (pi_currency p)) (\<lambda>recv.
       bnd (if pi_mode p = SettlementEscrow
            then perRefAccount m TypeLiability KindEscrowLiability (pi_currency p) (pi_id p)
            else get_account m TypeLiability KindMerchantPayable (pi_currency p)) (\<lambda>payable.
       bnd (PostTransaction m ''capture'' (Some (pi_id p))
              [debit_leg recv (pi_amount p) (pi_currency p),
               credit_leg payable (pi_amount p) (pi_currency p)]) (\<lambda>_.
       advance (pi_id p) StatusCaptured)))) w (Inr (set_status StatusCaptured (clock w) p))"
proof -
  have n: "0 < sint (pi_amount p)" using p(2) by (simp add: intent_wf_def)
  have s: "StatusCaptured \<in> set all_statuses" by (simp add: all_statuses_def)
  have l: "lucky (Suc 17) w" using l1 by simp
  obtain a w2 where g1: "gives (get_account m TypeAsset KindAcquirerReceivable (pi_currency p)) 17 w a w2"
    by (rule next_account[OF l asset_liability(1)])
  have l2: "lucky (Suc 16) w2" using gives_lucky[OF g1] by simp
  obtain b w3 where g2: "gives (if pi_mode p = SettlementEscrow
            then perRefAccount m TypeLiability KindEscrowLiability (pi_currency p) (pi_id p)
            else get_account m TypeLiability KindMerchantPayable (pi_currency p)) 16 w2 b w3"
  proof (cases "pi_mode p = SettlementEscrow")
    case True
    show thesis
      by (rule next_perRefAccount[OF l2 asset_liability(2),
            of m KindEscrowLiability "pi_currency p" "pi_id p"]) (rule that, simp add: True)
  next
    case False
    show thesis
      by (rule next_account[OF l2 asset_liability(2), of m KindMerchantPayable "pi_currency p"])
        (rule that, simp add: False)
  qed
  show ?thesis by (rule two_legs[OF g1 g2 snd p(1) s n])
qed

text \<open>C5: Capture decides by the state of the intent and the answer of the bank, and nothing else:
  with a working database it succeeds exactly when the intent is authorized and the bank approves;
  otherwise it answers the error that names the reason.\<close>

theorem capture_decision:
  assumes "reachable w" and "lucky 20 w"
  shows "fst (CaptureIntent bank i m w) =
    (case find (\<lambda>p. pi_id p = i \<and> pi_merchant p = m) (t_intents (tables w)) of
       None \<Rightarrow> Inl ErrIntentNotFound
     | Some p \<Rightarrow>
         if pi_status p \<noteq> StatusAuthorized then Inl ErrInvalidState
         else case Banksim.Capture bank i (pi_amount p) of
           Inl _ \<Rightarrow> Inl ErrBankUnavailable
         | Inr answer \<Rightarrow>
             if answer = Approved then Inr (set_status StatusCaptured (clock w) p)
             else Inl ErrBankDeclined)"
  unfolding CaptureIntent_def capture_body_def
proof (rule tx_decision[OF assms])
  fix p w1 assume p: "p \<in> set (t_intents (tables w))" "pi_id p = i" "pi_merchant p = m"
    and wf: "intent_wf p" and w1: "lucky 18 w1" "tables w1 = tables w" "clock w1 = clock w"
  have md: "pi_mode p = SettlementDirect \<or> pi_mode p = SettlementEscrow"
    using wf by (simp add: intent_wf_def)
  have step: "p \<in> set (t_intents (tables w1))" "sound (tables w1)"
    using p(1) w1(2) reachable_sound[OF assms(1)] by simp_all
  show "answers (if \<not> CanTransition (pi_mode p) (pi_status p) StatusCaptured then fail ErrInvalidState
     else case Banksim.Capture bank (pi_id p) (pi_amount p) of
       Inl _ \<Rightarrow> fail ErrBankUnavailable
     | Inr outcome \<Rightarrow>
     if outcome \<noteq> Approved then fail ErrBankDeclined
     else
       bnd (get_account m TypeAsset KindAcquirerReceivable (pi_currency p)) (\<lambda>recv.
       bnd (if pi_mode p = SettlementEscrow
            then perRefAccount m TypeLiability KindEscrowLiability (pi_currency p) (pi_id p)
            else get_account m TypeLiability KindMerchantPayable (pi_currency p)) (\<lambda>payable.
       bnd (PostTransaction m ''capture'' (Some (pi_id p))
              [debit_leg recv (pi_amount p) (pi_currency p),
               credit_leg payable (pi_amount p) (pi_currency p)]) (\<lambda>_.
       advance (pi_id p) StatusCaptured)))) w1
    (if pi_status p \<noteq> StatusAuthorized then Inl ErrInvalidState
         else case Banksim.Capture bank i (pi_amount p) of
           Inl _ \<Rightarrow> Inl ErrBankUnavailable
         | Inr answer \<Rightarrow>
             if answer = Approved then Inr (set_status StatusCaptured (clock w) p)
             else Inl ErrBankDeclined)"
    using capture_answers[OF step(1) wf w1(1) step(2), of m] p(2) w1(3) md
    by (cases "Banksim.Capture bank i (pi_amount p)") (simp_all add: can_transition_to)
qed

lemma ids_of_list:
  "ids_of d = set (map ac_id (t_accounts d) @ map tx_id (t_transactions d) @
     map en_id (t_entries d) @ map pi_id (t_intents d) @
     map ob_id (t_outbox d) @ map ob_event_id (t_outbox d))"
  by (auto simp: ids_of_def)

lemma lucky_list:
  "lucky n w \<longleftrightarrow> list_all (\<lambda>f. f = NoFault) (map (faults w) [fpos w..<fpos w + n]) \<and>
     distinct (map (rng w) [rpos w..<rpos w + n]) \<and>
     list_all (\<lambda>u. u \<notin> ids_of (tables w)) (map (rng w) [rpos w..<rpos w + n])"
proof -
  have shift: "map f [a..<a + n] = map (\<lambda>j. f (a + j)) [0..<n]" for f :: "nat \<Rightarrow> 'x" and a
    by (rule nth_equalityI) simp_all
  show ?thesis
    unfolding shift by (auto simp: lucky_def calm_def list_all_iff)
qed

text \<open>The same as one test that computes its world once, and what a world says of an intent.\<close>

definition lucky_test :: "nat \<Rightarrow> world \<Rightarrow> bool" where
  "lucky_test n w \<longleftrightarrow> list_all (\<lambda>f. f = NoFault) (map (faults w) [fpos w..<fpos w + n]) \<and>
     distinct (map (rng w) [rpos w..<rpos w + n]) \<and>
     (let ids = set (map ac_id (t_accounts (tables w)) @ map tx_id (t_transactions (tables w)) @
        map en_id (t_entries (tables w)) @ map pi_id (t_intents (tables w)) @
        map ob_id (t_outbox (tables w)) @ map ob_event_id (t_outbox (tables w)))
      in list_all (\<lambda>u. u \<notin> ids) (map (rng w) [rpos w..<rpos w + n]))"

lemma lucky_tested: "lucky_test n w \<Longrightarrow> lucky n w"
  by (simp add: lucky_test_def lucky_list ids_of_list Let_def)

definition brief :: "uuid \<Rightarrow> uuid \<Rightarrow> world \<Rightarrow> (string \<times> string \<times> int64 \<times> string) option" where
  "brief i m w = map_option (\<lambda>p. (pi_status p, pi_mode p, pi_amount p, pi_currency p))
     (find (\<lambda>p. pi_id p = i \<and> pi_merchant p = m) (t_intents (tables w)))"

lemma briefE:
  assumes "brief i m w = Some (s, md, a, c)"
  obtains p where "find (\<lambda>p. pi_id p = i \<and> pi_merchant p = m) (t_intents (tables w)) = Some p"
    and "pi_status p = s" and "pi_mode p = md" and "pi_amount p = a" and "pi_currency p = c"
  using assms by (auto simp: brief_def)

lemma demo_lucky: "lucky 20 demo_authorized"
  by (rule lucky_tested) code_simp

lemma demo_brief: "brief 2 1 demo_authorized = Some (StatusAuthorized, SettlementDirect, 500, ''USD'')"
  by code_simp

lemma demo_bank_captures: "Banksim.Capture demo_bank 2 500 = Inr Approved"
  by code_simp

theorem capture_decision_witness:
  "map_sum id pi_status (fst (CaptureIntent demo_bank 2 1 demo_authorized)) = Inr StatusCaptured"
proof (rule briefE[OF demo_brief])
  show ?thesis if "find (\<lambda>p. pi_id p = 2 \<and> pi_merchant p = 1) (t_intents (tables demo_authorized)) =
      Some p" "pi_status p = StatusAuthorized" "pi_amount p = 500" for p
    using that capture_decision[OF reachable_demos(2) demo_lucky, of demo_bank 2 1]
    by (simp add: demo_bank_captures)
qed

section \<open>Confirm\<close>

text \<open>C32: Confirm decides likewise: it succeeds exactly when the intent waits for confirmation and
  the bank answers, with authorized or failed as the answer was.\<close>

theorem confirm_decision:
  assumes "reachable w" and "lucky 20 w"
  shows "fst (Confirm bank i m token w) =
    (case find (\<lambda>p. pi_id p = i \<and> pi_merchant p = m) (t_intents (tables w)) of
       None \<Rightarrow> Inl ErrIntentNotFound
     | Some p \<Rightarrow>
         if pi_status p \<noteq> StatusCreated \<and> pi_status p \<noteq> StatusRequiresConfirmation
         then Inl ErrInvalidState
         else case Authorize bank \<lparr>ar_intent = i, ar_amount = pi_amount p,
                ar_currency = pi_currency p, ar_token = token\<rparr> of
           Inl _ \<Rightarrow> Inl ErrBankUnavailable
         | Inr answer \<Rightarrow>
             Inr (set_status (if answer = Declined then StatusFailed else StatusAuthorized)
                   (clock w) p))"
  unfolding Confirm_def confirm_body_def
proof (rule tx_decision[OF assms], goal_cases)
  case (1 p w1)
  then have p: "p \<in> set (t_intents (tables w1))" "pi_id p = i"
    and w1: "lucky (Suc (Suc (Suc 1))) w1" "clock w1 = clock w"
    and dist: "distinct (map pi_id (t_intents (tables w1)))"
    and md: "pi_mode p = SettlementDirect \<or> pi_mode p = SettlementEscrow"
    using reachable_sound[OF assms(1)]
    by (auto simp: intent_wf_def sound_def intro: lucky_mono)
  have adv: "answers (advance i s) w1 (Inr (set_status s (clock w) p))"
    if "s = StatusAuthorized \<or> s = StatusFailed" for s
    by (rule lucky_advance[OF w1(1) p(1) dist, of s])
       (use that p(2) w1(2) in \<open>auto simp: all_statuses_def intro: answersI\<close>)
  show ?case
    using adv p(2) md
    by (cases "Authorize bank \<lparr>ar_intent = i, ar_amount = pi_amount p,
                ar_currency = pi_currency p, ar_token = token\<rparr>")
       (auto simp: can_transition_to Let_def)
qed

lemma demo_bank_authorizes:
  "Authorize demo_bank \<lparr>ar_intent = 2, ar_amount = 500, ar_currency = ''USD'',
     ar_token = tokTimeout\<rparr> = Inl BankTransport"
  by code_simp

lemma demo_created_lucky: "lucky 20 demo_created"
  by (rule lucky_tested) code_simp

theorem confirm_decision_witness:
  "fst (Confirm demo_bank 2 1 tokTimeout demo_created) = Inl ErrBankUnavailable"
proof -
  have "map_option (\<lambda>p. (pi_status p, pi_amount p, pi_currency p))
      (find (\<lambda>p. pi_id p = 2 \<and> pi_merchant p = 1) (t_intents (tables demo_created))) =
    Some (StatusCreated, 500, ''USD'')"
    by code_simp
  then show ?thesis
    using confirm_decision[OF reachable_demos(1) demo_created_lucky, of demo_bank 2 1 tokTimeout]
    by (auto simp: demo_bank_authorizes)
qed

section \<open>Refund\<close>

lemma refund_answers:
  assumes p: "p \<in> set (t_intents (tables w))" and l1: "lucky 18 w" and snd: "sound (tables w)"
    and n: "0 < sint amount" and s: "s \<in> set all_statuses"
  shows "answers (bnd (perRefAccount m TypeLiability KindEscrowLiability (pi_currency p) (pi_id p))
          (\<lambda>escrowLiab.
        bnd (get_account m TypeAsset KindSegregatedCash (pi_currency p)) (\<lambda>segCash.
        bnd (PostTransaction m ''refund'' (Some (pi_id p))
               [debit_leg escrowLiab amount (pi_currency p),
                credit_leg segCash amount (pi_currency p)]) (\<lambda>_.
        advance (pi_id p) s)))) w (Inr (set_status s (clock w) p))"
    and "answers (bnd (get_account m TypeLiability KindMerchantPayable (pi_currency p)) (\<lambda>payable.
        bnd (get_account m TypeAsset kind (pi_currency p)) (\<lambda>credit.
        bnd (PostTransaction m ''refund'' (Some (pi_id p))
               [debit_leg payable amount (pi_currency p),
                credit_leg credit amount (pi_currency p)]) (\<lambda>_.
        advance (pi_id p) s)))) w (Inr (set_status s (clock w) p))"
proof -
  have l: "lucky (Suc 17) w" using l1 by simp
  have second: "\<exists>b w3. gives (get_account m TypeAsset k (pi_currency p)) 16 w2 b w3"
    if "gives g 17 w a w2" for g a w2 k
  proof -
    have "lucky (Suc 16) w2" using gives_lucky[OF that] by simp
    from next_account[OF this asset_liability(1), of m k "pi_currency p"] show ?thesis by blast
  qed
  obtain a w2 where g1: "gives (perRefAccount m TypeLiability KindEscrowLiability
      (pi_currency p) (pi_id p)) 17 w a w2"
    by (rule next_perRefAccount[OF l asset_liability(2)])
  with second obtain b w3 where
      "gives (get_account m TypeAsset KindSegregatedCash (pi_currency p)) 16 w2 b w3" by blast
  from two_legs[OF g1 this snd p s n]
  show "answers (bnd (perRefAccount m TypeLiability KindEscrowLiability (pi_currency p) (pi_id p))
          (\<lambda>escrowLiab.
        bnd (get_account m TypeAsset KindSegregatedCash (pi_currency p)) (\<lambda>segCash.
        bnd (PostTransaction m ''refund'' (Some (pi_id p))
               [debit_leg escrowLiab amount (pi_currency p),
                credit_leg segCash amount (pi_currency p)]) (\<lambda>_.
        advance (pi_id p) s)))) w (Inr (set_status s (clock w) p))" .
  obtain a w2 where g1: "gives (get_account m TypeLiability KindMerchantPayable (pi_currency p))
      17 w a w2"
    by (rule next_account[OF l asset_liability(2)])
  with second obtain b w3 where "gives (get_account m TypeAsset kind (pi_currency p)) 16 w2 b w3"
    by blast
  from two_legs[OF g1 this snd p s n]
  show "answers (bnd (get_account m TypeLiability KindMerchantPayable (pi_currency p)) (\<lambda>payable.
        bnd (get_account m TypeAsset kind (pi_currency p)) (\<lambda>credit.
        bnd (PostTransaction m ''refund'' (Some (pi_id p))
               [debit_leg payable amount (pi_currency p),
                credit_leg credit amount (pi_currency p)]) (\<lambda>_.
        advance (pi_id p) s)))) w (Inr (set_status s (clock w) p))" .
qed

text \<open>C6: Refund decides by mode, status and amount: in escrow only the whole amount while it is
  held; direct the whole amount once captured, any part of it once settled; never more than was
  captured; every refusal has its own error.\<close>

theorem refund_decision:
  assumes "reachable w" and "lucky 20 w"
  shows "fst (Refund i m amount w) =
    (if sint amount \<le> 0 then Inl ErrInvalidAmount
     else case find (\<lambda>p. pi_id p = i \<and> pi_merchant p = m) (t_intents (tables w)) of
       None \<Rightarrow> Inl ErrIntentNotFound
     | Some p \<Rightarrow>
         if pi_mode p = SettlementEscrow then
           if amount \<noteq> pi_amount p then Inl ErrPartialEscrowRefund
           else if pi_status p \<noteq> StatusHeldInEscrow then Inl ErrInvalidState
           else Inr (set_status StatusRefunded (clock w) p)
         else if sint (pi_amount p) < sint amount then Inl ErrRefundExceedsCapture
         else if pi_status p = StatusCaptured \<and> amount \<noteq> pi_amount p
         then Inl ErrPartialRefundBeforeSettle
         else if pi_status p \<noteq> StatusCaptured \<and> pi_status p \<noteq> StatusSettled
         then Inl ErrInvalidState
         else Inr (set_status (if amount = pi_amount p then StatusRefunded
                               else StatusPartiallyRefunded) (clock w) p))"
proof (cases "sint amount \<le> 0")
  case True
  then show ?thesis by (simp add: Refund_def fail_def)
next
  case False
  have "fst (in_tx (refund_body i m amount) w) =
    (case find (\<lambda>p. pi_id p = i \<and> pi_merchant p = m) (t_intents (tables w)) of
       None \<Rightarrow> Inl ErrIntentNotFound
     | Some p \<Rightarrow>
         if pi_mode p = SettlementEscrow then
           if amount \<noteq> pi_amount p then Inl ErrPartialEscrowRefund
           else if pi_status p \<noteq> StatusHeldInEscrow then Inl ErrInvalidState
           else Inr (set_status StatusRefunded (clock w) p)
         else if sint (pi_amount p) < sint amount then Inl ErrRefundExceedsCapture
         else if pi_status p = StatusCaptured \<and> amount \<noteq> pi_amount p
         then Inl ErrPartialRefundBeforeSettle
         else if pi_status p \<noteq> StatusCaptured \<and> pi_status p \<noteq> StatusSettled
         then Inl ErrInvalidState
         else Inr (set_status (if amount = pi_amount p then StatusRefunded
                               else StatusPartiallyRefunded) (clock w) p))"
    unfolding refund_body_def
  proof (rule tx_decision[OF assms], goal_cases)
    case (1 p w1)
    then have p: "p \<in> set (t_intents (tables w1))" "pi_id p = i" and c: "clock w1 = clock w"
      and snd: "sound (tables w1)" and l: "lucky 18 w1"
      and md: "pi_mode p = SettlementDirect \<or> pi_mode p = SettlementEscrow"
      using reachable_sound[OF assms(1)] by (simp_all add: intent_wf_def)
    have n: "0 < sint amount" using False by simp
    have eq: "sint amount = sint (pi_amount p) \<longleftrightarrow> amount = pi_amount p" using sint_inj by blast
    note ans = refund_answers[OF p(1) l snd n, of _ m, unfolded p(2) c]
    have s: "StatusRefunded \<in> set all_statuses" "StatusPartiallyRefunded \<in> set all_statuses"
      by (simp_all add: all_statuses_def)
    show ?case
    proof (cases "pi_mode p = SettlementEscrow")
      case True
      with ans(1)[OF s(1)] p show ?thesis
        by (auto simp: refund_escrow_def can_transition_to)
    next
      case False
      with md have "pi_mode p = SettlementDirect" by simp
      with ans(2)[OF s(1)] ans(2)[OF s(2)] p eq show ?thesis
        by (auto simp: refund_direct_def can_transition_to Let_def)
    qed
  qed
  with False show ?thesis by (simp add: Refund_def)
qed

lemma held_brief: "brief 2 1 hold_held = Some (StatusHeldInEscrow, SettlementEscrow, 300, ''USD'')"
  by code_simp

lemma held_lucky: "lucky 20 hold_held"
  by (rule lucky_tested) code_simp

theorem refund_decision_witness:
  "fst (Refund 2 1 100 hold_held) = Inl ErrPartialEscrowRefund \<and>
   map_sum id pi_status (fst (Refund 2 1 300 hold_held)) = Inr StatusRefunded"
proof (rule briefE[OF held_brief])
  show ?thesis if "find (\<lambda>p. pi_id p = 2 \<and> pi_merchant p = 1) (t_intents (tables hold_held)) =
      Some p" "pi_status p = StatusHeldInEscrow" "pi_mode p = SettlementEscrow" "pi_amount p = 300"
    for p
    using that refund_decision[OF reachable_holds(3) held_lucky, of 2 1 100]
      refund_decision[OF reachable_holds(3) held_lucky, of 2 1 300]
    by simp
qed

section \<open>Release\<close>

lemma mode_of_held:
  "intent_wf p \<Longrightarrow> pi_status p = StatusHeldInEscrow \<Longrightarrow> pi_mode p = SettlementEscrow"
  by (auto simp: intent_wf_def mode_status_def)

lemma payee_legs_gives:
  assumes l: "lucky (Suc n) w"
  obtains ls w' where "payee_legs p m payee a w = (Inr ls, w')" and "lucky n w'"
    and "opens (tables w) (tables w')" and "clock w' = clock w"
    and "\<forall>l \<in> set ls. postable (tables w') (pi_currency p) l" and "length ls \<le> 1"
    and "(\<Sum>l\<leftarrow>ls. lg_debit l) = 0" and "(\<Sum>l\<leftarrow>ls. lg_credit l) = (if 0 < sint a then a else 0)"
proof (cases "0 < sint a")
  case True
  obtain x w' where g: "gives (perRefAccount m TypeLiability KindPayableToPayee (pi_currency p) payee)
      n w x w'"
    by (rule next_perRefAccount[OF l asset_liability(2)])
  show thesis
    by (rule that[of "[credit_leg x a (pi_currency p)]" w'])
       (use g True in \<open>auto simp: gives_def payee_legs_def bnd_def ret_def postable_legs\<close>)
next
  case False
  show thesis
    by (rule that[of "[]" w])
       (use False lucky_mono[OF l] in \<open>auto simp: payee_legs_def ret_def opens_refl\<close>)
qed

lemma fee_legs_gives:
  assumes l: "lucky (Suc n) w"
  obtains ls w' where "fee_legs p m a w = (Inr ls, w')" and "lucky n w'"
    and "opens (tables w) (tables w')" and "clock w' = clock w"
    and "\<forall>l \<in> set ls. postable (tables w') (pi_currency p) l" and "length ls \<le> 1"
    and "(\<Sum>l\<leftarrow>ls. lg_debit l) = 0" and "(\<Sum>l\<leftarrow>ls. lg_credit l) = (if 0 < sint a then a else 0)"
proof (cases "0 < sint a")
  case True
  obtain x w' where g: "gives (get_account m TypeRevenue KindPlatformRevenue (pi_currency p)) n w x w'"
    by (rule next_account[OF l asset_liability(3)])
  show thesis
    by (rule that[of "[credit_leg x a (pi_currency p)]" w'])
       (use g True in \<open>auto simp: gives_def fee_legs_def bnd_def ret_def postable_legs\<close>)
next
  case False
  show thesis
    by (rule that[of "[]" w])
       (use False lucky_mono[OF l] in \<open>auto simp: fee_legs_def ret_def opens_refl\<close>)
qed

lemma postable_opens: "opens d d' \<Longrightarrow> postable d c l \<Longrightarrow> postable d' c l"
  unfolding postable_def using opens_ids[of d d'] by blast

lemma release_answers:
  assumes p: "p \<in> set (t_intents (tables w))" "intent_wf p" "pi_fee p = Some fee"
      "0 \<le> sint fee" "sint fee \<le> sint (pi_amount p)"
    and l: "lucky 18 w" and snd: "sound (tables w)"
  shows "answers (bnd (perRefAccount m TypeLiability KindEscrowLiability (pi_currency p) (pi_id p))
         (\<lambda>escrowLiab.
       bnd (get_account m TypeAsset KindSegregatedCash (pi_currency p)) (\<lambda>segCash.
       bnd (get_account m TypeAsset KindPlatformCash (pi_currency p)) (\<lambda>platformCash.
       bnd (payee_legs p m payee (pi_amount p - fee)) (\<lambda>payeeLegs.
       bnd (fee_legs p m fee) (\<lambda>feeLegs.
       bnd (PostTransaction m ''release'' (Some (pi_id p))
              ([debit_leg escrowLiab (pi_amount p) (pi_currency p),
                debit_leg platformCash (pi_amount p) (pi_currency p),
                credit_leg segCash (pi_amount p) (pi_currency p)] @ payeeLegs @ feeLegs)) (\<lambda>_.
       advance (pi_id p) StatusReleased)))))) ) w (Inr (set_status StatusReleased (clock w) p))"
proof -
  let ?a = "pi_amount p" and ?c = "pi_currency p"
  have n: "0 < sint ?a" using p(2) by (simp add: intent_wf_def)
  have s: "StatusReleased \<in> set all_statuses" by (simp add: all_statuses_def)
  have l18: "lucky (Suc 17) w" using l by simp
  obtain a w1 where g1: "gives (perRefAccount m TypeLiability KindEscrowLiability ?c (pi_id p)) 17 w a w1"
    by (rule next_perRefAccount[OF l18 asset_liability(2)])
  then have l17: "lucky (Suc 16) w1" by (simp add: gives_def)
  obtain b w2 where g2: "gives (get_account m TypeAsset KindSegregatedCash ?c) 16 w1 b w2"
    by (rule next_account[OF l17 asset_liability(1)])
  then have l16: "lucky (Suc 15) w2" by (simp add: gives_def)
  obtain e w3 where g3: "gives (get_account m TypeAsset KindPlatformCash ?c) 15 w2 e w3"
    by (rule next_account[OF l16 asset_liability(1)])
  then have l15: "lucky (Suc (Suc 13)) w3" by (simp add: gives_def)
  obtain pl w4 where pl: "payee_legs p m payee (?a - fee) w3 = (Inr pl, w4)" "lucky (Suc 13) w4"
      "opens (tables w3) (tables w4)" "clock w4 = clock w3"
      "\<forall>l \<in> set pl. postable (tables w4) ?c l" "length pl \<le> 1"
      "(\<Sum>l\<leftarrow>pl. lg_debit l) = 0"
      "(\<Sum>l\<leftarrow>pl. lg_credit l) = (if 0 < sint (?a - fee) then ?a - fee else 0)"
    by (rule payee_legs_gives[OF l15])
  obtain fl w5 where fl: "fee_legs p m fee w4 = (Inr fl, w5)" "lucky 13 w5"
      "opens (tables w4) (tables w5)" "clock w5 = clock w4"
      "\<forall>l \<in> set fl. postable (tables w5) ?c l" "length fl \<le> 1"
      "(\<Sum>l\<leftarrow>fl. lg_debit l) = 0" "(\<Sum>l\<leftarrow>fl. lg_credit l) = (if 0 < sint fee then fee else 0)"
    by (rule fee_legs_gives[OF pl(2)])
  note h = g1[unfolded gives_def] g2[unfolded gives_def] g3[unfolded gives_def]
  have o35: "opens (tables w3) (tables w5)" using pl(3) fl(3) by (rule opens_trans)
  then have o25: "opens (tables w2) (tables w5)" using h opens_trans by blast
  then have o15: "opens (tables w1) (tables w5)" using h opens_trans by blast
  then have o05: "opens (tables w) (tables w5)" using h opens_trans by blast
  let ?legs = "[debit_leg a ?a ?c, debit_leg e ?a ?c, credit_leg b ?a ?c] @ pl @ fl"
  have ok: "\<forall>l \<in> set ?legs. postable (tables w5) (lg_currency (hd ?legs)) l"
    using h n pl(5) fl(5) postable_opens[OF fl(3)] opens_ids[OF o35] opens_ids[OF o25]
      opens_ids[OF o15]
    by (auto simp: postable_legs)
  have "sint (?a - fee) = sint ?a - sint fee" by (rule sint_diff_le[OF p(4,5)])
  then have z: "0 < sint (?a - fee) \<or> fee = ?a" "0 < sint fee \<or> fee = 0"
    using p(4,5) sint_inj[of fee ?a] by (auto simp: less_le)
  have bal: "(\<Sum>l\<leftarrow>?legs. lg_debit l) = (\<Sum>l\<leftarrow>?legs. lg_credit l)"
    using z n by (auto simp: pl(7,8) fl(7,8))
  have l9: "lucky (Suc (length ?legs) + Suc (Suc (Suc 1))) w5"
    by (rule lucky_mono[OF fl(2)]) (use pl(6) fl(6) in simp)
  have c: "clock w5 = clock w" using h pl(4) fl(4) by simp
  obtain w6 where "bnd (PostTransaction m ''release'' (Some (pi_id p)) ?legs)
      (\<lambda>_. advance (pi_id p) StatusReleased) w5 =
      (Inr (Commit (set_status StatusReleased (clock w) p)), w6)" "calm 1 w6"
    by (rule lucky_post_advance[OF l9 _ ok bal o05 c snd p(1) s, of m "''release''" "Some (pi_id p)"])
       simp
  then have "answers (bnd (PostTransaction m ''release'' (Some (pi_id p)) ?legs)
      (\<lambda>_. advance (pi_id p) StatusReleased)) w5 (Inr (set_status StatusReleased (clock w) p))"
    by (rule answersI)
  then show ?thesis
    by (simp add: gives_bnd[OF g1] gives_bnd[OF g2] gives_bnd[OF g3]
        answers_bnd[where m = "payee_legs p m payee (?a - fee)", OF pl(1)]
        answers_bnd[where m = "fee_legs p m fee", OF fl(1)])
qed

text \<open>C31: Release decides by status alone: it succeeds exactly for an intent held in escrow,
  whatever its fee is, a fee of nothing and a fee of everything included.\<close>

theorem release_decision:
  assumes "reachable w" and "lucky 20 w"
  shows "fst (Release i m w) =
    (case find (\<lambda>p. pi_id p = i \<and> pi_merchant p = m) (t_intents (tables w)) of
       None \<Rightarrow> Inl ErrIntentNotFound
     | Some p \<Rightarrow>
         if pi_status p \<noteq> StatusHeldInEscrow then Inl ErrInvalidState
         else Inr (set_status StatusReleased (clock w) p))"
  unfolding Release_def release_body_def Let_def
proof (rule tx_decision[OF assms], goal_cases)
  case (1 p w1)
  then have p: "p \<in> set (t_intents (tables w1))" "pi_id p = i" and c: "clock w1 = clock w"
    and snd: "sound (tables w1)" and l: "lucky 18 w1" and wf: "intent_wf p"
    using reachable_sound[OF assms(1)] by simp_all
  show ?case
  proof (cases "pi_status p = StatusHeldInEscrow")
    case False
    then show ?thesis by (auto simp: can_transition_to split: option.split)
  next
    case True
    with mode_of_held[OF wf] wf obtain payee fee where
        "pi_mode p = SettlementEscrow" "pi_payee p = Some payee" "pi_fee p = Some fee"
        "0 \<le> sint fee" "sint fee \<le> sint (pi_amount p)"
      by (auto simp: intent_wf_def)
    with True release_answers[OF p(1) wf _ _ _ l snd, of fee m payee] p(2) c show ?thesis
      by (simp add: can_transition_to)
  qed
qed

theorem release_decision_witness:
  "map_sum id pi_status (fst (Release 2 1 hold_held)) = Inr StatusReleased"
proof (rule briefE[OF held_brief])
  show ?thesis if "find (\<lambda>p. pi_id p = 2 \<and> pi_merchant p = 1) (t_intents (tables hold_held)) =
      Some p" "pi_status p = StatusHeldInEscrow" for p
    using that release_decision[OF reachable_holds(3) held_lucky, of 2 1] by simp
qed
end
