(* ===== verification/Intake.thy ===== *)
theory Intake
  imports Progress
begin

text \<open>
  The intake of intents and the periodic sweeps: what \<^verbatim>\<open>Create\<close>, \<^verbatim>\<open>List\<close> and
  \<^verbatim>\<open>normalizeCurrency\<close> of \<^verbatim>\<open>internal/service/payment_intent.go\<close> promise, and what
  \<^verbatim>\<open>SettleDueIntents\<close> and \<^verbatim>\<open>ExpireStaleIntents\<close> of \<^verbatim>\<open>money.go\<close> do to the table as a whole.
\<close>

section \<open>Currency codes\<close>

definition ascii_letter :: "char \<Rightarrow> bool" where
  "ascii_letter b \<longleftrightarrow> CHR ''a'' \<le> b \<and> b \<le> CHR ''z'' \<or> CHR ''A'' \<le> b \<and> b \<le> CHR ''Z''"

definition ascii_upper :: "char \<Rightarrow> char" where
  "ascii_upper b = (if CHR ''a'' \<le> b \<and> b \<le> CHR ''z'' then char_of (of_char b - 32 :: nat) else b)"

lemma upper_bytes_iff:
  "upper_bytes bs = Some cs \<longleftrightarrow> list_all ascii_letter bs \<and> cs = map ascii_upper bs"
proof (induction bs arbitrary: cs)
  case Nil
  then show ?case by auto
next
  case (Cons b bs)
  have "upper_byte b = (if ascii_letter b then Some (ascii_upper b) else None)"
    by (auto simp: upper_byte_def ascii_letter_def ascii_upper_def)
  with Cons show ?case
    by (cases "upper_bytes bs") (auto split: if_splits)
qed

lemma ascii_upper_range:
  assumes "ascii_letter b"
  shows "CHR ''A'' \<le> ascii_upper b \<and> ascii_upper b \<le> CHR ''Z''"
proof (cases "CHR ''a'' \<le> b \<and> b \<le> CHR ''z''")
  case True
  then have b: "97 \<le> (of_char b :: nat)" "(of_char b :: nat) \<le> 122"
    by (simp_all add: less_eq_char_def)
  then have "of_char (char_of (of_char b - 32 :: nat)) = (of_char b - 32 :: nat)"
    by (simp add: take_bit_nat_eq_self)
  then have "of_char (ascii_upper b) = (of_char b - 32 :: nat)"
    using True by (simp add: ascii_upper_def)
  moreover have "65 \<le> n - 32 \<and> n - 32 \<le> (90 :: nat)" if "97 \<le> n" "n \<le> 122" for n :: nat
    using that by auto
  ultimately show ?thesis using b unfolding less_eq_char_def by simp
next
  case False
  with assms show ?thesis by (auto simp: ascii_letter_def ascii_upper_def)
qed

lemma upper_fixed: "CHR ''A'' \<le> b \<and> b \<le> CHR ''Z'' \<Longrightarrow> ascii_letter b \<and> ascii_upper b = b"
  by (auto simp: ascii_letter_def ascii_upper_def less_eq_char_def)

text \<open>A currency is accepted exactly when it is three ASCII letters, and is stored in upper case:
  the accepted code consists of upper-case letters and normalizing it again changes nothing.\<close>

theorem currency_normal_form:
  "normalizeCurrency cur = (if length cur = 3 \<and> list_all ascii_letter cur
      then Some (map ascii_upper cur) else None) \<and>
   (\<forall>code. normalizeCurrency cur = Some code \<longrightarrow>
      list_all (\<lambda>b. CHR ''A'' \<le> b \<and> b \<le> CHR ''Z'') code \<and> normalizeCurrency code = Some code)"
proof -
  have eq: "normalizeCurrency c = (if length c = 3 \<and> list_all ascii_letter c
      then Some (map ascii_upper c) else None)" for c
    using upper_bytes_iff[of c] by (cases "upper_bytes c") (auto simp: normalizeCurrency_def)
  have "list_all (\<lambda>b. CHR ''A'' \<le> b \<and> b \<le> CHR ''Z'') code \<and> normalizeCurrency code = Some code"
    if "normalizeCurrency cur = Some code" for code
  proof -
    from that have code: "length cur = 3" "list_all ascii_letter cur" "code = map ascii_upper cur"
      unfolding eq by (auto split: if_splits)
    then have up: "\<forall>b \<in> set code. CHR ''A'' \<le> b \<and> b \<le> CHR ''Z''"
      using ascii_upper_range by (auto simp: list_all_iff)
    then have "list_all ascii_letter code" "map ascii_upper code = code"
      using upper_fixed by (auto simp: list_all_iff intro: map_idI)
    with up code show ?thesis unfolding eq by (simp add: list_all_iff)
  qed
  with eq show ?thesis by blast
qed

lemma demo_currency: "normalizeCurrency ''eUr'' = Some ''EUR''"
  by code_simp

theorem currency_normal_form_witness: "normalizeCurrency ''EUR'' = Some ''EUR''"
  using currency_normal_form[of "''eUr''"] demo_currency by simp

section \<open>Creating and listing\<close>

text \<open>An intent that is created has a positive amount, an upper-case currency, status created and
  the mode that was asked for; in escrow a payee and a fee between zero and the amount, direct
  neither; and its row is all that was added.\<close>

theorem create_success:
  assumes "Create m inp w = (Inr p, w')"
  shows "tables w' = (tables w)\<lparr>t_intents := t_intents (tables w) @ [p]\<rparr> \<and>
    pi_id p \<notin> pi_id ` set (t_intents (tables w)) \<and> pi_merchant p = m \<and>
    pi_status p = StatusCreated \<and> pi_amount p = ci_amount inp \<and> 0 < sint (pi_amount p) \<and>
    normalizeCurrency (ci_currency inp) = Some (pi_currency p) \<and>
    pi_mode p = (if ci_escrow inp then SettlementEscrow else SettlementDirect) \<and>
    (if ci_escrow inp then
       \<exists>payee fee. pi_payee p = Some payee \<and> payee \<noteq> uuid_nil \<and> pi_fee p = Some fee \<and>
         ci_payee inp = Some payee \<and> ci_fee inp = Some fee \<and>
         0 \<le> sint fee \<and> sint fee \<le> sint (pi_amount p)
     else pi_payee p = None \<and> pi_fee p = None)"
proof -
  obtain cur meta where cur: "normalizeCurrency (ci_currency inp) = Some cur"
    and esc: "ci_escrow inp \<Longrightarrow> \<exists>payee fee. ci_payee inp = Some payee \<and> payee \<noteq> uuid_nil \<and>
        ci_fee inp = Some fee \<and> 0 \<le> sint fee \<and> sint fee \<le> sint (ci_amount inp)"
    and run: "run (CreateIntent m (ci_amount inp) cur
        (if ci_escrow inp then SettlementEscrow else SettlementDirect)
        (if ci_escrow inp then ci_payee inp else None)
        (if ci_escrow inp then ci_fee inp else None) meta) w = (Inr p, w')"
    using assms unfolding Create_def Let_def
    by (auto simp: fail_def not_less split: option.split_asm if_split_asm)
  from run show ?thesis
  proof (cases rule: run_CreateIntent)
    case none
    then show ?thesis by blast
  next
    case (row u)
    then show ?thesis using cur esc by (auto simp: new_intent_def)
  qed
qed

lemma demo_creates:
  "map_sum id pi_currency (fst (Create 1 demo_escrow demo_created)) = Inr ''USD''"
  by code_simp

theorem create_success_witness:
  "pi_status (projr (fst (Create 1 demo_escrow demo_created))) = StatusCreated"
  using create_success[OF succeeded[OF demo_creates]] by blast

text \<open>A listing never fails for its bounds and never leaks: whatever limit and offset come in,
  at most 100 rows are returned, all of the calling merchant and of the status asked for, newest
  first, and nothing is written.\<close>

theorem list_bounded:
  "fst (List m status limit offset w) \<noteq> Inl PgNegativeLimit \<and>
   (\<forall>rows. fst (List m status limit offset w) = Inr rows \<longrightarrow>
      length rows \<le> 100 \<and> sorted (map (\<lambda>p. - pi_created p) rows) \<and>
      (\<forall>p \<in> set rows. p \<in> set (t_intents (tables w)) \<and> pi_merchant p = m \<and>
         (status \<noteq> [] \<longrightarrow> pi_status p = status))) \<and>
   tables (snd (List m status limit offset w)) = tables w"
proof -
  define lim where "lim = (let l = if sint limit \<le> 0 then defaultListLimit else limit in
    if sint maxListLimit < sint l then maxListLimit else l)"
  define off where "off = (if sint offset < 0 then 0 else offset)"
  define st where "st = (if status \<noteq> [] then Some status else None)"
  define rows where "rows = sort_key (\<lambda>p. - pi_created p)
    (filter (\<lambda>p. pi_merchant p = m \<and> (case st of None \<Rightarrow> True | Some s \<Rightarrow> pi_status p = s))
      (t_intents (tables w)))"
  have lim: "0 \<le> sint lim" "sint lim \<le> 100" and off: "0 \<le> sint off"
    by (auto simp: lim_def off_def Let_def defaultListLimit_def maxListLimit_def)
  have q: "ListIntents m st off lim u now (tables w) =
      Inr (take (nat (sint lim)) (drop (nat (sint off)) rows), tables w)" for u now
    using lim off by (simp add: ListIntents_def limit_rows_def rows_def)
  have l: "List m status limit offset = run (ListIntents m st off lim)"
    by (simp add: List_def lim_def off_def st_def Let_def)
  have out: "fst (List m status limit offset w) = Inl PgConnection \<or>
      fst (List m status limit offset w) = Inr (take (nat (sint lim)) (drop (nat (sint off)) rows))"
    "tables (snd (List m status limit offset w)) = tables w"
    unfolding l by (auto simp: run_def Let_def q split: fault.split)
  have "sorted (map (\<lambda>p. - pi_created p) rows)" by (simp add: rows_def)
  then have "sorted (map (\<lambda>p. - pi_created p) (take n (drop k rows)))" for n k
    unfolding take_map [symmetric] drop_map [symmetric]
    by (intro sorted_wrt_take sorted_wrt_drop)
  moreover have "length (take (nat (sint lim)) (drop (nat (sint off)) rows)) \<le> 100"
    using lim by simp
  moreover have "p \<in> set (t_intents (tables w)) \<and> pi_merchant p = m \<and>
         (status \<noteq> [] \<longrightarrow> pi_status p = status)"
    if "p \<in> set (take n (drop k rows))" for p n k
    using in_set_dropD[OF in_set_takeD[OF that]] by (auto simp: rows_def st_def split: if_splits)
  ultimately show ?thesis using out by auto
qed

lemma demo_list: "map_sum id (map pi_id) (fst (List 1 [] 0 (- 5) demo_created)) = Inr [2]"
  by code_simp

theorem list_bounded_witness: "length (projr (fst (List 1 [] 0 (- 5) demo_created))) \<le> 100"
proof -
  have "fst (List 1 [] 0 (- 5) demo_created) = Inr (projr (fst (List 1 [] 0 (- 5) demo_created)))"
    using demo_list by (cases "fst (List 1 [] 0 (- 5) demo_created)") auto
  then show ?thesis using list_bounded[of 1 "[]" 0 "- 5" demo_created] by blast
qed

end
