(* ===== verification/Sweeps.thy ===== *)
theory Sweeps
  imports Outcomes
begin

text \<open>
  The periodic sweeps of \<^verbatim>\<open>internal/service/money.go\<close> as a whole: what
  \<^verbatim>\<open>SettleDueIntents\<close> and \<^verbatim>\<open>ExpireStaleIntents\<close> may do to the table of intents, through a
  second pair of interpretations of the sweep contract.
\<close>

section \<open>Sweeps that only move some intents\<close>

text \<open>\<open>only R d0 d\<close>: consistent, and row by row the intents of \<open>d0\<close> are related to those of \<open>d\<close>.\<close>

definition only :: "(payment_intent \<Rightarrow> payment_intent \<Rightarrow> bool) \<Rightarrow> db \<Rightarrow> db \<Rightarrow> bool" where
  "only R d0 d \<longleftrightarrow> consistent d \<and> list_all2 R (t_intents d0) (t_intents d)"

definition settled_rel :: "payment_intent \<Rightarrow> payment_intent \<Rightarrow> bool" where
  "settled_rel p p' \<longleftrightarrow> p' = p \<or>
     pi_status p = StatusCaptured \<and> (\<exists>t. p' = set_status (settle_target p) t p)"

definition expired_rel :: "payment_intent \<Rightarrow> payment_intent \<Rightarrow> bool" where
  "expired_rel p p' \<longleftrightarrow> p' = p \<or>
     CanTransition (pi_mode p) (pi_status p) StatusFailed \<and> (\<exists>t. p' = set_status StatusFailed t p)"

lemma settled_rel_trans: "settled_rel p q \<Longrightarrow> settled_rel q r \<Longrightarrow> settled_rel p r"
  by (auto simp: settled_rel_def settle_target_def)

lemma expired_rel_trans: "expired_rel p q \<Longrightarrow> expired_rel q r \<Longrightarrow> expired_rel p r"
  by (auto simp: expired_rel_def can_transition_to)

lemma only_step:
  assumes trans: "\<And>p q r. R p q \<Longrightarrow> R q r \<Longrightarrow> R p r" and refl: "\<And>p. R p p"
    and o: "only R d0 d" and step: "money_step p s now posting d d'" and ex: "explains p s posting"
    and rel: "R p (set_status s now p)"
  shows "only R d0 d'"
proof -
  have con: "consistent d" using o by (simp add: only_def)
  from step obtain accts txs es r where p: "p \<in> set (t_intents d)"
    and d': "d' = d\<lparr>t_accounts := t_accounts d @ accts,
               t_transactions := t_transactions d @ txs,
               t_entries := t_entries d @ es,
               t_intents := update_where (\<lambda>x. pi_id x = pi_id p) (set_status s now) (t_intents d),
               t_outbox := t_outbox d @ [r]\<rparr>"
    unfolding money_step_def by blast
  have "R x (if pi_id x = pi_id p then set_status s now x else x)" if "x \<in> set (t_intents d)" for x
    using distinct_key_eq[OF consistentD(7)[OF con] that p] rel refl by auto
  then have "list_all2 R (t_intents d)
      (update_where (\<lambda>x. pi_id x = pi_id p) (set_status s now) (t_intents d))"
    unfolding update_where_def list.rel_map by (rule list.rel_refl_strong)
  then have "list_all2 R (t_intents d) (t_intents d')" by (simp add: d')
  then have "list_all2 R (t_intents d0) (t_intents d')"
    using o list_all2_trans[of R R R "t_intents d0" "t_intents d" "t_intents d'"] trans
    by (auto simp: only_def)
  then show ?thesis using consistent_step[OF con step ex] by (simp add: only_def)
qed

lemma settle_only:
  assumes o: "only settled_rel d0 (tables w)" and b: "settle_body i m w = (Inr (Commit x), w')"
  shows "only settled_rel d0 (tables w')"
proof -
  have con: "consistent (tables w)" using o by (simp add: only_def)
  show ?thesis
    by (rule settle_step[OF b consistentD(6)[OF con]])
       (rule only_step[OF settled_rel_trans _ o _ explains_settle],
        auto simp: settled_rel_def)
qed

lemma expire_only:
  assumes o: "only expired_rel d0 (tables w)" and b: "expire_body i m w = (Inr (Commit x), w')"
  shows "only expired_rel d0 (tables w')"
proof -
  have con: "consistent (tables w)" using o by (simp add: only_def)
  show ?thesis
    by (rule expire_step[OF b consistentD(6)[OF con]])
       (rule only_step[OF expired_rel_trans _ o _ explains_expire],
        auto simp: expired_rel_def)
qed

interpretation settle_only_op: tx_operation "settle_body i m" "only settled_rel d0" for i m d0
  by unfold_locales (simp add: keeps_settle_body, rule settle_only)

interpretation expire_only_op: tx_operation "expire_body i m" "only expired_rel d0" for i m d0
  by unfold_locales (simp add: keeps_expire_body, rule expire_only)

interpretation settle_only_sweep: swept settleOne "only settled_rel d0" for d0
  by unfold_locales
     (simp_all add: settleOne_def settle_only_op.op_good settle_only_op.op_closed
        settle_only_op.op_clock)

interpretation expire_only_sweep: swept expireOne "only expired_rel d0" for d0
  by unfold_locales
     (simp_all add: expireOne_def expire_only_op.op_good expire_only_op.op_closed
        expire_only_op.op_clock)

section \<open>What a sweep does\<close>

lemma listed_rows:
  "ListCapturedBefore c sweepBatch u now d = Inr (rows, d') \<Longrightarrow> length rows \<le> 100 \<and> d' = d"
  "ListStaleBefore c sweepBatch u now d = Inr (rows, d') \<Longrightarrow> length rows \<le> 100 \<and> d' = d"
  by (auto simp: ListCapturedBefore_def ListStaleBefore_def limit_rows_def sweepBatch_def
      split: if_splits)

lemma only_refl: "(\<And>p. R p p) \<Longrightarrow> consistent d \<Longrightarrow> only R d d"
  by (simp add: only_def list.rel_refl)

text \<open>The settle sweep settles at most one batch of 100 intents; each intent is either left as it
  was or went from captured to settled (direct) or held in escrow (escrow), even when the sweep
  stops half way with an error.\<close>

theorem settle_sweep_effect:
  assumes "reachable w" and "SettleDueIntents olderThan w = ((n, e), w')"
  shows "n \<le> 100 \<and> list_all2 (\<lambda>p p'. p' = p \<or> pi_status p = StatusCaptured \<and>
      (\<exists>t. p' = set_status (if pi_mode p = SettlementEscrow then StatusHeldInEscrow
                            else StatusSettled) t p))
    (t_intents (tables w)) (t_intents (tables w'))"
proof -
  obtain r w1 where r: "run (ListCapturedBefore (clock w - olderThan) sweepBatch) w = (r, w1)"
    by (cases "run (ListCapturedBefore (clock w - olderThan) sweepBatch) w")
  have w1: "tables w1 = tables w" "tx_open w1 = None"
    using run_reads[where f = "ListCapturedBefore (clock w - olderThan) sweepBatch" and w = w]
      list_reads(1) r reachable_closed[OF assms(1)] by (metis snd_conv)+
  have "n \<le> 100 \<and> only settled_rel (tables w) (tables w')"
  proof (cases r)
    case (Inl x)
    then show ?thesis
      using assms r w1 only_refl[of settled_rel] reachable_consistent
      by (auto simp: SettleDueIntents_def settled_rel_def)
  next
    case (Inr rows)
    then have s: "sweep_rows settleOne rows 0 w1 = ((n, e), w')"
      using assms(2) r by (simp add: SettleDueIntents_def)
    have "length rows \<le> 100" using r Inr listed_rows(1) by (auto elim!: run_success)
    moreover have "n \<le> length rows" using settle_only_sweep.rows_count[OF s] by simp
    moreover have "only settled_rel (tables w) (tables w1)"
      using w1 only_refl[of settled_rel] reachable_consistent[OF assms(1)]
      by (simp add: settled_rel_def)
    then have "only settled_rel (tables w) (tables w')"
      using settle_only_sweep.rows_good[OF w1(2), of "tables w" rows 0] s by simp
    ultimately show ?thesis by simp
  qed
  then show ?thesis
    unfolding only_def settled_rel_def settle_target_def by blast
qed

theorem settle_sweep_effect_witness:
  "fst (fst (SettleDueIntents 1 demo_captured)) \<le> 100"
  using settle_sweep_effect[OF reachable_demos(3), of 1 "fst (fst (SettleDueIntents 1 demo_captured))"
      "snd (fst (SettleDueIntents 1 demo_captured))" "snd (SettleDueIntents 1 demo_captured)"] by simp

text \<open>The expiry sweep fails at most one batch of 100 intents; each intent is either left as it
  was or went to failed from created, requires confirmation or authorized.\<close>

theorem expire_sweep_effect:
  assumes "reachable w" and "ExpireStaleIntents olderThan w = ((n, e), w')"
  shows "n \<le> 100 \<and> list_all2 (\<lambda>p p'. p' = p \<or>
      pi_status p \<in> {StatusCreated, StatusRequiresConfirmation, StatusAuthorized} \<and>
      (\<exists>t. p' = set_status StatusFailed t p))
    (t_intents (tables w)) (t_intents (tables w'))"
proof -
  obtain r w1 where r: "run (ListStaleBefore (clock w - olderThan) sweepBatch) w = (r, w1)"
    by (cases "run (ListStaleBefore (clock w - olderThan) sweepBatch) w")
  have w1: "tables w1 = tables w" "tx_open w1 = None"
    using run_reads[where f = "ListStaleBefore (clock w - olderThan) sweepBatch" and w = w]
      list_reads(2) r reachable_closed[OF assms(1)] by (metis snd_conv)+
  have "n \<le> 100 \<and> only expired_rel (tables w) (tables w')"
  proof (cases r)
    case (Inl x)
    then show ?thesis
      using assms r w1 only_refl[of expired_rel] reachable_consistent
      by (auto simp: ExpireStaleIntents_def expired_rel_def)
  next
    case (Inr rows)
    then have s: "sweep_rows expireOne rows 0 w1 = ((n, e), w')"
      using assms(2) r by (simp add: ExpireStaleIntents_def)
    have "length rows \<le> 100" using r Inr listed_rows(2) by (auto elim!: run_success)
    moreover have "n \<le> length rows" using expire_only_sweep.rows_count[OF s] by simp
    moreover have "only expired_rel (tables w) (tables w1)"
      using w1 only_refl[of expired_rel] reachable_consistent[OF assms(1)]
      by (simp add: expired_rel_def)
    then have "only expired_rel (tables w) (tables w')"
      using expire_only_sweep.rows_good[OF w1(2), of "tables w" rows 0] s by simp
    ultimately show ?thesis by simp
  qed
  then show ?thesis
    unfolding only_def expired_rel_def can_transition_to
    by (auto elim!: list_all2_mono)
qed

theorem expire_sweep_effect_witness:
  "fst (fst (ExpireStaleIntents 1 demo_created)) \<le> 100"
  using expire_sweep_effect[OF reachable_demos(1), of 1 "fst (fst (ExpireStaleIntents 1 demo_created))"
      "snd (fst (ExpireStaleIntents 1 demo_created))" "snd (ExpireStaleIntents 1 demo_created)"] by simp

text \<open>C38: The re-check under the row lock of the expiry sweep lets authorized intents through: from
  a reachable world, expiring an intent that a confirmation has authorized since it was listed
  succeeds, and the intent, with its hold at the bank, ends up failed.\<close>

theorem expiry_fails_authorized:
  "\<exists>w i m. reachable w \<and> map pi_status (t_intents (tables w)) = [StatusAuthorized] \<and>
     fst (expireOne i m w) = Inr () \<and>
     map pi_status (t_intents (tables (snd (expireOne i m w)))) = [StatusFailed]"
proof (intro exI conjI)
  show "reachable demo_authorized" by (rule reachable_demos(2))
  show "map pi_status (t_intents (tables demo_authorized)) = [StatusAuthorized]" by code_simp
  show "fst (expireOne 2 1 demo_authorized) = Inr ()" by code_simp
  show "map pi_status (t_intents (tables (snd (expireOne 2 1 demo_authorized)))) = [StatusFailed]"
    by code_simp
qed

end
