(* ===== verification/Keys.thy ===== *)
theory Keys
  imports Gateway
begin

text \<open>
  The money operations and the table of idempotency keys: no operation of the service touches a
  key, so no wrapped handler does; and the keys stay unique whatever the gateway does.
\<close>

section \<open>The operations leave the keys alone\<close>

definition same_keys :: "world \<Rightarrow> world \<Rightarrow> bool" where
  "same_keys w w' \<longleftrightarrow> t_idempotency (tables w') = t_idempotency (tables w) \<and>
     t_api_keys (tables w') = t_api_keys (tables w)"

interpretation body_keys: frame same_keys
  by unfold_locales (simp_all add: same_keys_def)

definition keyless :: "'a stmt \<Rightarrow> bool" where
  "keyless f \<longleftrightarrow> (\<forall>u now d x d'. f u now d = Inr (x, d') \<longrightarrow>
     t_idempotency d' = t_idempotency d \<and> t_api_keys d' = t_api_keys d)"

lemma same_keys_run: "keyless f \<Longrightarrow> within same_keys (run f)"
  by (auto simp: within_def same_keys_def keyless_def run_def Let_def split: fault.splits sum.splits)

lemma keyless_statements:
  "keyless (LockIntentForUpdate i m)"
  "keyless (GetOrCreateSingletonAccount m t k c)"
  "keyless (GetOrCreatePerRefAccount m t k c ref)"
  "keyless (InsertTransaction m k r)"
  "keyless (InsertEntry ti ai db cr c)"
  "keyless (UpdateIntentStatus i s)"
  "keyless (InsertOutbox m ev typ load)"
  "keyless (CreateIntent m n c mode payee fee meta)"
  by (auto simp: keyless_def LockIntentForUpdate_def GetOrCreateSingletonAccount_def GetOrCreatePerRefAccount_def
      InsertTransaction_def InsertEntry_def UpdateIntentStatus_def InsertOutbox_def CreateIntent_def
      Let_def dest: one_row_reads split: if_splits option.splits list.splits)

lemmas keyless_runs = keyless_statements[THEN same_keys_run]

lemma helpers_keyless:
  "within same_keys (lock i m)" "within same_keys (get_account m t k c)"
  "within same_keys (perRefAccount m t k c ref)" "within same_keys (advance i s)"
  "within same_keys (payee_legs p m payee n)" "within same_keys (fee_legs p m n)"
  unfolding lock_def get_account_def perRefAccount_def advance_def emit_def EmitEvent_def
    payee_legs_def fee_legs_def
  by (intro body_keys.closed body_keys.within_uuid keyless_runs)+

lemma PostTransaction_keyless: "within same_keys (PostTransaction m k r legs)"
proof -
  have "within same_keys (insert_legs t legs)" for t legs
    by (induction legs) (auto intro!: body_keys.closed keyless_runs)
  then show ?thesis
    unfolding PostTransaction_def Let_def
    by (auto split: list.splits sum.splits prod.splits intro!: body_keys.closed keyless_runs)
qed

lemmas keyless_calls = body_keys.closed helpers_keyless PostTransaction_keyless

lemma bodies_keyless:
  "within same_keys (confirm_body bank i m token)" "within same_keys (capture_body bank i m)"
  "within same_keys (refund_body i m amount)" "within same_keys (release_body i m)"
  "within same_keys (settle_body i m)" "within same_keys (expire_body i m)"
  unfolding confirm_body_def capture_body_def refund_body_def refund_escrow_def refund_direct_def
    release_body_def settle_body_def expire_body_def Let_def
  by (intro keyless_calls)+

text \<open>What an operation spares, when no transaction is open before it.\<close>

definition spares :: "world \<Rightarrow> world \<Rightarrow> bool" where
  "spares w w' \<longleftrightarrow> (tx_open w = None \<longrightarrow>
     tx_open w' = None \<and> t_idempotency (tables w') = t_idempotency (tables w) \<and>
     t_api_keys (tables w') = t_api_keys (tables w) \<and> faults w' = faults w)"

lemma in_tx_spares:
  assumes "keeps_tx body" and "within same_keys body"
  shows "within spares (in_tx body)"
  unfolding within_def spares_def
proof (intro allI impI)
  fix w :: world assume none: "tx_open w = None"
  obtain r w' where r: "in_tx body w = (r, w')" by (cases "in_tx body w")
  then have "tx_open w' = None \<and> t_idempotency (tables w') = t_idempotency (tables w) \<and>
      t_api_keys (tables w') = t_api_keys (tables w)"
  proof (cases rule: in_tx_cases[OF r assms(1) none])
    case (2 w0 w1 x)
    then show ?thesis using assms(2) by (metis within_def same_keys_def snd_conv)
  qed simp
  moreover have "faults w1 = faults w0" if "body w0 = (x, w1)" for x w0 w1
    using assms(1) that by (simp add: keeps_tx_def)
  then have "faults w' = faults w"
    using r
    by (auto simp: in_tx_def begin_tx_def commit_tx_def bnd_def ret_def Let_def rollback_open_def
        split: prod.splits sum.splits tx_exit.splits if_splits fault.splits option.splits)
  ultimately show "tx_open (snd (in_tx body w)) = None \<and>
      t_idempotency (tables (snd (in_tx body w))) = t_idempotency (tables w) \<and>
      t_api_keys (tables (snd (in_tx body w))) = t_api_keys (tables w) \<and>
      faults (snd (in_tx body w)) = faults w"
    using r by simp
qed

lemma run_spares: "keyless f \<Longrightarrow> within spares (run f)"
  by (auto simp: within_def spares_def keyless_def run_def Let_def split: fault.splits sum.splits)

lemma spares_still: "tables w' = tables w \<Longrightarrow> tx_open w' = tx_open w \<Longrightarrow> faults w' = faults w \<Longrightarrow> spares w w'"
  by (simp add: spares_def)

lemma spares_trans: "spares u v \<Longrightarrow> spares v w \<Longrightarrow> spares u w"
  by (simp add: spares_def)

interpretation op_spares: frame spares
  using spares_still spares_trans by unfold_locales

lemmas in_tx_spared = in_tx_spares[OF keeps_confirm_body bodies_keyless(1)]
  in_tx_spares[OF keeps_capture_body bodies_keyless(2)]
  in_tx_spares[OF keeps_refund_body bodies_keyless(3)]
  in_tx_spares[OF keeps_release_body bodies_keyless(4)]
  in_tx_spares[OF keeps_settle_body bodies_keyless(5)]
  in_tx_spares[OF keeps_expire_body bodies_keyless(6)]

lemma operations_spare:
  "within spares (Create m inp)" "within spares (Confirm bank i m token)"
  "within spares (CaptureIntent bank i m)" "within spares (Refund i m amount)"
  "within spares (Release i m)" "within spares (settleOne i m)" "within spares (expireOne i m)"
  unfolding Create_def Confirm_def CaptureIntent_def Refund_def Release_def settleOne_def
    expireOne_def Let_def
  by (intro op_spares.closed in_tx_spared run_spares keyless_statements)+

interpretation money_spares: money_frame spares "\<lambda>_. True"
  by unfold_locales (rule operations_spare)+

section \<open>Keys stay unique\<close>

definition keeps_keys :: "world \<Rightarrow> world \<Rightarrow> bool" where
  "keeps_keys w w' \<longleftrightarrow> (tx_open w = None \<and> keys_ok (tables w) \<longrightarrow>
     tx_open w' = None \<and> keys_ok (tables w') \<and> faults w' = faults w)"

lemma spares_keeps: "within spares f \<Longrightarrow> within keeps_keys f"
  by (simp add: within_def spares_def keeps_keys_def keys_ok_def)

lemma keys_run:
  assumes "\<And>u now d x d'. f u now d = Inr (x, d') \<Longrightarrow> keys_ok d \<Longrightarrow> keys_ok d'"
  shows "within keeps_keys (run f)"
  using assms
  by (auto simp: within_def keeps_keys_def run_def Let_def split: fault.splits sum.splits)

lemma key_statements:
  "within keeps_keys (run (InsertInFlight m key hash))" "within keeps_keys (run (MarkCompleted i code b))"
  "within keeps_keys (run (DeleteKey i))" "within keeps_keys (run (ResetOrphans t))"
  "within keeps_keys (run (ExpireCompleted t))"
  by (rule keys_run, erule keys_ok_insert keys_ok_complete keys_ok_delete keys_ok_reset keys_ok_expire,
      assumption)+

lemma keyless_rest:
  "keyless (InsertWebhookEndpoint m url secret)"
  "keyless (DisableEndpoint i m)"
  "keyless (ClaimDueOutbox lease lim)"
  "keyless (MarkOutboxDelivered i)"
  "keyless (MarkOutboxDead i reason)"
  "keyless (MarkOutboxRetry i t reason)"
  "keyless (InsertDelivery i attempt status ok reason)"
  "keyless (CreateMerchant name)" "keyless (UpsertMerchant i name)" "keyless (InsertUser m email hash)"
  by (auto simp: keyless_def InsertWebhookEndpoint_def DisableEndpoint_def ClaimDueOutbox_def CreateMerchant_def
      UpsertMerchant_def InsertUser_def
      MarkOutboxDelivered_def MarkOutboxDead_def MarkOutboxRetry_def InsertDelivery_def Let_def
      split: if_splits sum.splits option.splits)

lemmas rest_spared = keyless_rest[THEN run_spares]

lemma sweeps_spare: "within spares (SettleDueIntents t)" "within spares (ExpireStaleIntents t)"
proof -
  have "within spares (sweep_rows settleOne ps n)" "within spares (sweep_rows expireOne ps n)" for ps n
    using op_spares.within_sweep operations_spare by blast+
  moreover have "within spares (run (ListCapturedBefore c l))" "within spares (run (ListStaleBefore c l))"
    for c l by (rule op_spares.read_closed)+
  ultimately show "within spares (SettleDueIntents t)" "within spares (ExpireStaleIntents t)"
    unfolding SettleDueIntents_def ExpireStaleIntents_def within_def
    by (auto split: prod.split sum.split) (metis snd_conv op_spares.trans)+
qed

interpretation key_server: server_frame keeps_keys
proof unfold_locales
  show "within keeps_keys (wait n)" for n by (simp add: within_def keeps_keys_def wait_def)
  show "keeps_keys w w'" if "tables w' = tables w" "tx_open w' = tx_open w" "faults w' = faults w" for w w'
    using that by (simp add: keeps_keys_def)
  show "keeps_keys u w" if "keeps_keys u v" "keeps_keys v w" for u v w
    using that by (simp add: keeps_keys_def)
qed (rule key_statements operations_spare[THEN spares_keeps] rest_spared[THEN spares_keeps]
      sweeps_spare[THEN spares_keeps])+

lemma InsertAPIKey_keys: "within keeps_keys (run (InsertAPIKey m kind pre hash))"
  by (rule keys_run) (auto simp: InsertAPIKey_def keys_ok_def Let_def split: if_splits)

interpretation key_boot: boot_frame keeps_keys
  by unfold_locales (rule rest_spared[THEN spares_keeps] InsertAPIKey_keys)+

lemma exec_keys: "keeps_keys w (exec operation w)"
proof (cases operation)
  case (Tick n)
  then show ?thesis by (simp add: keeps_keys_def)
next
  case (NewMerchant name)
  then show ?thesis
    using spares_keeps[OF rest_spared(8)] by (simp add: within_def)
qed (use operations_spare[THEN spares_keeps] sweeps_spare[THEN spares_keeps] key_server.serve_within
      key_server.work_within key_server.process_within key_boot.boot_within in \<open>simp_all add: within_def\<close>)

lemma reachable_keys: "reachable w \<Longrightarrow> keys_ok (tables w)"
proof (induction rule: reachable.induct)
  case (start w)
  then show ?case by (simp add: keys_ok_def empty_db_def)
next
  case (after w operation)
  then show ?case using exec_keys[of w operation] reachable_closed[of w] by (simp add: keeps_keys_def)
qed

lemma works_exec: "reachable w \<Longrightarrow> works w \<Longrightarrow> works (exec operation w)"
  using exec_keys[of w operation] reachable_keys[of w] by (simp add: works_def keeps_keys_def)

end
