(* ===== verification/Settling.thy ===== *)
theory Settling
  imports Progress Sweeps Keys
begin

text \<open>
  The settle sweep over a database that works (\<^verbatim>\<open>SettleDueIntents\<close> of \<^verbatim>\<open>internal/service/money.go\<close>):
  it gets through its whole batch and leaves none of it captured. The lemmas count the ids an
  operation draws, so that a stock of fresh ones lasts for all rows.
\<close>

section \<open>Draws\<close>

text \<open>\<open>draws k m\<close>: \<open>m\<close> draws at most \<open>k\<close> ids, and only drawn ids are new in the tables.\<close>

definition drawn :: "nat \<Rightarrow> world \<Rightarrow> world \<Rightarrow> bool" where
  "drawn k w w' \<longleftrightarrow> rng w' = rng w \<and> rpos w \<le> rpos w' \<and> rpos w' \<le> rpos w + k \<and>
     ids_of (tables w') \<subseteq> ids_of (tables w) \<union> rng w ` {rpos w..<rpos w'}"

definition draws :: "nat \<Rightarrow> 'a io \<Rightarrow> bool" where
  "draws k m \<longleftrightarrow> (\<forall>w. drawn k w (snd (m w)))"

lemma drawn_trans:
  assumes "drawn a u v" and "drawn b v w"
  shows "drawn (a + b) u w"
proof -
  have "rng u ` {rpos u..<rpos v} \<union> rng u ` {rpos v..<rpos w} \<subseteq> rng u ` {rpos u..<rpos w}"
    using assms by (auto simp: drawn_def)
  with assms show ?thesis unfolding drawn_def by (auto dest!: subsetD)
qed

lemma drawn_refl: "tables w' = tables w \<Longrightarrow> rng w' = rng w \<Longrightarrow> rpos w' = rpos w \<Longrightarrow> drawn k w w'"
  by (simp add: drawn_def)

lemma draws_mono: "draws k m \<Longrightarrow> k \<le> n \<Longrightarrow> draws n m"
  unfolding draws_def drawn_def by (meson add_left_mono le_trans)

lemma draws_ret: "draws k (ret x)"
  by (simp add: draws_def ret_def drawn_refl)

lemma draws_fail: "draws k (fail e)"
  by (simp add: draws_def fail_def drawn_refl)

lemma draws_bnd:
  assumes "draws a m" and "\<And>x. draws b (k x)"
  shows "draws (a + b) (bnd m k)"
  unfolding draws_def
proof
  fix w
  obtain r v where m: "m w = (r, v)" by (cases "m w")
  have v: "drawn a w v" using assms(1) m unfolding draws_def by (metis snd_conv)
  show "drawn (a + b) w (snd (bnd m k w))"
  proof (cases r)
    case (Inl e)
    have "drawn b v v" by (simp add: drawn_refl)
    with v Inl m show ?thesis using drawn_trans by (auto simp: bnd_def)
  next
    case (Inr x)
    have "drawn b v (snd (k x v))" using assms(2) by (simp add: draws_def)
    with v Inr m show ?thesis using drawn_trans by (auto simp: bnd_def)
  qed
qed

lemma draws_map_err: "draws k m \<Longrightarrow> draws k (map_err f m)"
  unfolding draws_def map_err_def by (auto split: prod.split sum.split) (metis snd_conv)+

lemma draws_if: "draws k f \<Longrightarrow> draws k g \<Longrightarrow> draws k (if b then f else g)"
  by simp

lemma draws_run:
  assumes "\<And>u now d x d'. f u now d = Inr (x, d') \<Longrightarrow> ids_of d' \<subseteq> insert u (ids_of d)"
  shows "draws 1 (run f)"
  unfolding draws_def drawn_def
  using assms by (fastforce simp: run_def Let_def split: fault.splits sum.splits)

lemma ids_of_statements:
  "LockIntentForUpdate i m u now d = Inr (p, d') \<Longrightarrow> ids_of d' \<subseteq> insert u (ids_of d)"
  "GetOrCreateSingletonAccount m t k c u now d = Inr (a, d') \<Longrightarrow> ids_of d' \<subseteq> insert u (ids_of d)"
  "InsertTransaction m kind r u now d = Inr (x, d') \<Longrightarrow> ids_of d' \<subseteq> insert u (ids_of d)"
  "InsertEntry i j dr cr c u now d = Inr (e, d') \<Longrightarrow> ids_of d' \<subseteq> insert u (ids_of d)"
  "UpdateIntentStatus i s u now d = Inr (p, d') \<Longrightarrow> ids_of d' \<subseteq> insert u (ids_of d)"
  by (auto simp: LockIntentForUpdate_def one_row_def GetOrCreateSingletonAccount_def InsertTransaction_def
      InsertEntry_def UpdateIntentStatus_def ids_of_def update_where_def set_status_def Let_def
      split: list.splits option.splits if_splits)

lemma draws_parts:
  "draws 1 (lock i m)" "draws 1 (get_account m t k c)" "draws (Suc (length legs)) (PostTransaction m kind r legs)"
  "draws 3 (advance i s)"
proof -
  show "draws 1 (lock i m)"
    unfolding lock_def by (intro draws_map_err draws_run ids_of_statements(1))
  have "draws (1 + 0) (get_account m t k c)"
    unfolding get_account_def
    by (intro draws_bnd draws_run ids_of_statements(2) draws_ret)
  then show "draws 1 (get_account m t k c)" by simp
  have entry: "draws 1 (run (InsertEntry x a dr cr c))" for x a dr cr c
    by (intro draws_run ids_of_statements(4))
  have legs: "draws (length legs) (insert_legs x legs)" for x legs
  proof (induction legs)
    case Nil
    then show ?case by (simp add: draws_ret)
  next
    case (Cons l legs)
    have "draws (1 + length legs) (insert_legs x (l # legs))"
      unfolding insert_legs.simps by (intro draws_bnd entry Cons.IH)
    then show ?case by simp
  qed
  have tx: "draws 1 (run (InsertTransaction m kind r))"
    by (intro draws_run ids_of_statements(3))
  have "draws (1 + (length legs + 0)) (bnd (run (InsertTransaction m kind r)) (\<lambda>tx.
      bnd (insert_legs (tx_id tx) legs) (\<lambda>_. ret (tx_id tx))))"
    by (intro draws_bnd tx legs draws_ret)
  then show "draws (Suc (length legs)) (PostTransaction m kind r legs)"
    by (cases legs) (auto simp: PostTransaction_def draws_fail split: sum.split)
  have "draws 2 (emit p)" for p
    unfolding draws_def drawn_def
    by (auto simp: emit_def EmitEvent_def bnd_def ret_def uuid_New_def run_def Let_def InsertOutbox_def
        ids_of_def split: fault.splits sum.splits if_splits)
  then have "draws (1 + (2 + 0)) (advance i s)"
    unfolding advance_def
    by (intro draws_bnd draws_run ids_of_statements(5) draws_ret)
  then show "draws 3 (advance i s)" by (simp add: eval_nat_numeral)
qed

lemma draws_settle: "draws 9 (settle_body i m)"
proof -
  have "draws (1 + (1 + (1 + (3 + (3 + 0))))) (settle_body i m)"
    unfolding settle_body_def Let_def
    by (intro draws_bnd draws_if draws_parts draws_ret draws_fail
        draws_mono[OF draws_parts(3)]) simp
  then show ?thesis by simp
qed

section \<open>One intent\<close>

text \<open>A stock of \<open>n\<close> fresh ids.\<close>

definition stocked :: "nat \<Rightarrow> world \<Rightarrow> bool" where
  "stocked n w \<longleftrightarrow> inj_on (rng w) {rpos w..<rpos w + n} \<and>
     (\<forall>j. rpos w \<le> j \<longrightarrow> j < rpos w + n \<longrightarrow> rng w j \<notin> ids_of (tables w))"

lemma stocked_lucky: "works w \<Longrightarrow> stocked n w \<Longrightarrow> lucky n w"
  by (auto simp: works_def stocked_def lucky_def calm_def distinct_map intro!: inj_onI dest: inj_onD)

lemma stocked_mono: "stocked n w \<Longrightarrow> k \<le> n \<Longrightarrow> stocked k w"
  unfolding stocked_def by (auto intro: inj_on_subset)

lemma stocked_after:
  assumes "stocked (k + n) w" and "drawn k w w'"
  shows "stocked n w'"
proof -
  note d = assms(2)[unfolded drawn_def]
  have sub: "{rpos w'..<rpos w' + n} \<subseteq> {rpos w..<rpos w + (k + n)}" using d by auto
  have inj: "inj_on (rng w) {rpos w..<rpos w + (k + n)}" using assms(1) by (simp add: stocked_def)
  have "rng w j \<notin> ids_of (tables w')" if "j \<in> {rpos w'..<rpos w' + n}" for j
  proof -
    have "rng w j \<notin> ids_of (tables w)" using assms(1) that sub by (auto simp: stocked_def)
    moreover have "rng w j \<notin> rng w ` {rpos w..<rpos w'}"
    proof
      assume "rng w j \<in> rng w ` {rpos w..<rpos w'}"
      then obtain i where i: "rng w j = rng w i" "i \<in> {rpos w..<rpos w'}" by blast
      have "i \<in> {rpos w..<rpos w + (k + n)}" using i(2) d by auto
      then have "j = i" using inj_onD[OF inj i(1)] that sub by blast
      with that i(2) show False by auto
    qed
    ultimately show ?thesis using d by blast
  qed
  moreover have "inj_on (rng w) {rpos w'..<rpos w' + n}" by (rule inj_on_subset[OF inj sub])
  ultimately show ?thesis using d by (auto simp: stocked_def)
qed

lemma bnd_assoc: "bnd (bnd m f) g = bnd m (\<lambda>x. bnd (f x) g)"
  by (auto simp: bnd_def fun_eq_iff split: prod.split sum.split)

lemma tx_draws:
  assumes "works w" and "keeps_tx body" and "draws k body"
  shows "works (snd (in_tx body w)) \<and> drawn k w (snd (in_tx body w)) \<and>
    clock (snd (in_tx body w)) = clock w"
proof -
  have calm: "calm (Suc 0) w" using assms(1) by (simp add: calm_def works_def)
  obtain r w1 where b: "body (begun w) = (r, w1)" by (cases "body (begun w)")
  have t: "tx_open w1 = Some (tables w)" "clock w1 = clock w" "faults w1 = faults w"
    using assms(2) b by (auto simp: keeps_tx_def begun_def)
  have "drawn k (begun w) w1" using assms(3) b unfolding draws_def by (metis snd_conv)
  then have d: "drawn k w w1" by (simp add: drawn_def begun_def)
  have nofault: "faults w1 n = NoFault" for n using t(3) assms(1) by (simp add: works_def)
  show ?thesis
    using b t d nofault assms(1)
    by (auto simp: in_tx_begun[OF calm] bnd_def ret_def commit_tx_def rollback_open_def works_def drawn_def
        split: sum.split tx_exit.split)
qed

lemma settle_answers:
  assumes p: "p \<in> set (t_intents (tables w))" "intent_wf p" "pi_status p = StatusCaptured"
    and l: "lucky 18 w" and snd: "sound (tables w)" and s: "s \<in> set all_statuses"
  shows "answers (bnd (get_account m TypeAsset kind (pi_currency p)) (\<lambda>cash.
       bnd (get_account m TypeAsset KindAcquirerReceivable (pi_currency p)) (\<lambda>recv.
       bnd (PostTransaction m ''settle'' (Some (pi_id p))
              [debit_leg cash (pi_amount p) (pi_currency p),
               credit_leg recv (pi_amount p) (pi_currency p)]) (\<lambda>_.
       bnd (advance (pi_id p) s) (\<lambda>_. ret (Commit ())))))) w (Inr ())"
proof -
  have n: "0 < sint (pi_amount p)" using p(2) by (simp add: intent_wf_def)
  have l1: "lucky (Suc 17) w" using l by simp
  obtain a w2 where g1: "gives (get_account m TypeAsset kind (pi_currency p)) 17 w a w2"
    by (rule next_account[OF l1 asset_liability(1)])
  have l2: "lucky (Suc 16) w2" using gives_lucky[OF g1] by simp
  obtain b w3 where g2: "gives (get_account m TypeAsset KindAcquirerReceivable (pi_currency p)) 16 w2 b w3"
    by (rule next_account[OF l2 asset_liability(1)])
  have "answers (bnd (bnd (get_account m TypeAsset kind (pi_currency p)) (\<lambda>cash.
       bnd (get_account m TypeAsset KindAcquirerReceivable (pi_currency p)) (\<lambda>recv.
       bnd (PostTransaction m ''settle'' (Some (pi_id p))
              [debit_leg cash (pi_amount p) (pi_currency p),
               credit_leg recv (pi_amount p) (pi_currency p)]) (\<lambda>_.
       advance (pi_id p) s)))) (\<lambda>_. ret (Commit ()))) w (Inr ())"
    using two_legs[OF g1 g2 snd p(1) s n, of m "''settle''" "Some (pi_id p)" "pi_currency p"]
    by (auto simp: answers_def bnd_Inr ret_def)
  then show ?thesis by (simp only: bnd_assoc)
qed

lemma settle_once:
  assumes w: "works w" "consistent (tables w)" "stocked (9 + n) w" and n: "11 \<le> n"
    and p: "p \<in> set (t_intents (tables w))" "pi_status p = StatusCaptured"
  obtains w' where "settleOne (pi_id p) (pi_merchant p) w = (Inr (), w')" and "works w'"
    and "consistent (tables w')" and "stocked n w'" and "clock w' = clock w"
    and "t_intents (tables w') = update_where (\<lambda>x. pi_id x = pi_id p)
      (set_status (settle_target p) (clock w)) (t_intents (tables w))"
proof -
  let ?body = "settle_body (pi_id p) (pi_merchant p)"
  note con = consistentD[OF w(2)]
  have wf: "intent_wf p" using con(8) p(1) .
  have lucky: "lucky 20 w" by (rule lucky_mono[OF stocked_lucky[OF w(1) w(3)]]) (use n in simp)
  then have l18: "lucky (Suc (Suc 18)) w" by simp
  obtain w1 where lk: "lock (pi_id p) (pi_merchant p) (begun w) = (Inr p, w1)" and w1: "lucky 18 w1"
      "tables w1 = tables w" "clock w1 = clock w"
    by (rule locked[OF l18 con(6) p(1)])
  have md: "pi_mode p = SettlementDirect \<or> pi_mode p = SettlementEscrow"
    using wf by (simp add: intent_wf_def)
  have tr: "CanTransition (pi_mode p) (pi_status p) (settle_target p)"
    using md p(2) by (auto simp: settle_target_def can_transition_to)
  have s: "settle_target p \<in> set all_statuses" by (simp add: settle_target_def all_statuses_def)
  have "answers ?body (begun w) (Inr ())"
    unfolding settle_body_def Let_def answers_bnd[where m = "lock (pi_id p) (pi_merchant p)", OF lk]
    using settle_answers[of p w1 "settle_target p"] p wf w1 con(6) s tr
    by (simp add: settle_target_def)
  then obtain w2 where b: "?body (begun w) = (Inr (Commit ()), w2)" and c2: "calm 1 w2"
    by (auto simp: answers_def)
  have calm: "calm (Suc 0) w" using w(1) by (simp add: calm_def works_def)
  have r: "fst (settleOne (pi_id p) (pi_merchant p) w) = Inr ()"
    using in_tx_commits[where body = ?body and k = 0, OF calm b] c2 by (simp add: settleOne_def)
  obtain w' where w': "settleOne (pi_id p) (pi_merchant p) w = (Inr (), w')"
    using r by (cases "settleOne (pi_id p) (pi_merchant p) w") auto
  have tabs: "tables w' = tables w2"
    using w' b c2 calm_first[of 0 w2]
    by (auto simp: settleOne_def in_tx_begun[OF calm] bnd_def ret_def commit_tx_def rollback_open_def
        split: option.splits)
  have after: "works w'" "drawn 9 w w'" "clock w' = clock w"
    using tx_draws[OF w(1) keeps_settle_body draws_settle, of "pi_id p" "pi_merchant p"] w'
    by (simp_all add: settleOne_def)
  have step: "money_step p (settle_target p) (clock w) (Some (''settle'', settle_moves p)) (tables w) (tables w2)"
  proof (rule settle_step[OF b])
    show "sound (tables (begun w))" using con(6) by simp
    fix q assume q: "q \<in> set (t_intents (tables (begun w)))" "pi_id q = pi_id p"
      "money_step q (settle_target q) (clock (begun w)) (Some (''settle'', settle_moves q))
        (tables (begun w)) (tables w2)"
    have "q = p" using distinct_key_eq[OF con(7), of q p] q(1,2) p(1) by simp
    with q(3) show ?thesis by simp
  qed
  have "consistent (tables w')"
    unfolding tabs by (rule consistent_step[OF w(2) step explains_settle]) (use tr wf p in auto)
  moreover have "t_intents (tables w') = update_where (\<lambda>x. pi_id x = pi_id p)
      (set_status (settle_target p) (clock w)) (t_intents (tables w))"
    using step unfolding tabs money_step_def by force
  ultimately show thesis using that w' after stocked_after[OF w(3) after(2)] by blast
qed

section \<open>The batch\<close>

text \<open>The intents \<open>ps\<close> settled at one instant.\<close>

definition settled_at :: "time \<Rightarrow> payment_intent list \<Rightarrow> payment_intent list \<Rightarrow> payment_intent list" where
  "settled_at now ps xs = map (\<lambda>x. if x \<in> set ps then set_status (settle_target x) now x else x) xs"

lemma settle_batch:
  assumes "works w" and "consistent (tables w)" and "stocked (9 * length ps + 11) w"
    and "distinct (map pi_id ps)" and "\<forall>p \<in> set ps. p \<in> set (t_intents (tables w)) \<and> pi_status p = StatusCaptured"
  shows "fst (sweep_rows settleOne ps n w) = (n + length ps, None) \<and>
    t_intents (tables (snd (sweep_rows settleOne ps n w))) = settled_at (clock w) ps (t_intents (tables w))"
  using assms
proof (induction ps arbitrary: n w)
  case Nil
  then show ?case by (simp add: settled_at_def)
next
  case (Cons p ps)
  have st: "stocked (9 + (9 * length ps + 11)) w" using Cons.prems(3) by (simp add: algebra_simps)
  obtain w1 where w1: "settleOne (pi_id p) (pi_merchant p) w = (Inr (), w1)" "works w1"
      "consistent (tables w1)" "stocked (9 * length ps + 11) w1" "clock w1 = clock w"
      "t_intents (tables w1) = update_where (\<lambda>x. pi_id x = pi_id p)
        (set_status (settle_target p) (clock w)) (t_intents (tables w))"
    by (rule settle_once[OF Cons.prems(1,2) st]) (use Cons.prems in auto)
  have key: "x = y" if "x \<in> set (t_intents (tables w))" "y \<in> set (t_intents (tables w))" "pi_id x = pi_id y"
    for x y using distinct_key_eq[OF consistentD(7)[OF Cons.prems(2)] that] .
  have one: "t_intents (tables w1) = map (\<lambda>x. if x = p then set_status (settle_target p) (clock w) x else x)
      (t_intents (tables w))"
    unfolding w1(6) update_where_def using Cons.prems(5) key by (auto intro!: map_cong)
  have "\<forall>q \<in> set ps. q \<in> set (t_intents (tables w1)) \<and> pi_status q = StatusCaptured"
    using Cons.prems(4,5) unfolding one by force
  from Cons.IH[OF w1(2-4) _ this, of "Suc n"] Cons.prems(4)
  have ih: "fst (sweep_rows settleOne ps (Suc n) w1) = (Suc n + length ps, None)"
    "t_intents (tables (snd (sweep_rows settleOne ps (Suc n) w1))) =
      settled_at (clock w) ps (t_intents (tables w1))" using w1(5) by simp_all
  have moved: "set_status (settle_target p) (clock w) p \<notin> set ps"
    using Cons.prems(5) by (auto simp: settle_target_def)
  have "settled_at (clock w) ps (t_intents (tables w1)) = settled_at (clock w) (p # ps) (t_intents (tables w))"
    unfolding one settled_at_def using moved Cons.prems(4) by auto
  with ih w1(1) show ?case by simp
qed

text \<open>C18: Captured money does not stay with the acquirer: over a database that works, one sweep gets
  through its whole batch without an error, and that batch is the oldest hundred of the intents
  that have been captured for long enough (all of them, if there are no more); each ends up
  settled, or held in escrow, and no other intent changes.\<close>

theorem settle_sweep_complete:
  fixes olderThan w
  defines "due \<equiv> filter (\<lambda>p. pi_status p = StatusCaptured \<and> pi_updated p < clock w - olderThan)
    (t_intents (tables w))"
  assumes "reachable w" and "works w" and "stocked 912 w"
  shows "fst (SettleDueIntents olderThan w) = (min 100 (length due), None) \<and>
    t_intents (tables (snd (SettleDueIntents olderThan w))) =
      settled_at (clock w) (take 100 (sort_key pi_updated due)) (t_intents (tables w))"
proof -
  let ?ps = "take 100 (sort_key pi_updated due)"
  let ?list = "ListCapturedBefore (clock w - olderThan) sweepBatch"
  define w1 where "w1 = w\<lparr>fpos := Suc (fpos w), rpos := Suc (rpos w)\<rparr>"
  have run: "run ?list w = (Inr ?ps, w1)"
    using assms(3) by (simp add: run_works ListCapturedBefore_def limit_rows_def sweepBatch_def due_def w1_def)
  have con: "consistent (tables w)" using assms(2) by (rule reachable_consistent)
  have "drawn 1 w w1" by (auto simp: drawn_def w1_def)
  then have st: "stocked 911 w1" using stocked_after[of 1 911 w w1] assms(4) by simp
  have len: "length ?ps = min 100 (length due)" by simp
  have "distinct (map pi_id due)"
    using consistentD(7)[OF con] unfolding due_def by (rule distinct_map_filter)
  then have "distinct (map pi_id (sort_key pi_updated due))"
    by (simp add: distinct_map)
  then have dist: "distinct (map pi_id ?ps)" by (simp add: distinct_take flip: take_map)
  have mem: "\<forall>p \<in> set ?ps. p \<in> set (t_intents (tables w1)) \<and> pi_status p = StatusCaptured"
    by (auto simp: due_def w1_def dest: in_set_takeD)
  have "stocked (9 * length ?ps + 11) w1" by (rule stocked_mono[OF st]) simp
  from settle_batch[OF _ _ this dist mem, of 0]
  have "fst (sweep_rows settleOne ?ps 0 w1) = (length ?ps, None) \<and>
      t_intents (tables (snd (sweep_rows settleOne ?ps 0 w1))) = settled_at (clock w) ?ps (t_intents (tables w))"
    using con assms(3) by (simp add: w1_def works_def)
  then show ?thesis using run by (simp add: SettleDueIntents_def del: set_take_subset)
qed

text \<open>The demo's ids are counted up, so its stock lasts.\<close>

lemma counted_stock:
  assumes "rng w = (\<lambda>n. word_of_nat (Suc n))" and "\<forall>i \<in> ids_of (tables w). unat i \<le> rpos w"
    and "rpos w + n < 2 ^ 128"
  shows "stocked n w"
proof -
  have "unat (rng w j) = Suc j" if "j < rpos w + n" for j
    using that assms(1,3) by (simp add: unat_of_nat take_bit_nat_eq_self del: of_nat_Suc)
  then show ?thesis
    using assms(2) unfolding stocked_def inj_on_def
    by (metis Suc_inject atLeastLessThan_iff not_less_eq_eq)
qed

definition demo_late :: world where
  "demo_late = exec (Tick 5) demo_captured"

lemma reachable_late: "reachable demo_late"
  unfolding demo_late_def by (rule reachable.after[OF reachable_demos(3)])

lemma run_rng: "rng (snd (run f w)) = rng w"
  by (auto simp: run_def Let_def split: fault.split sum.split)

lemma in_tx_rng:
  assumes "keeps_tx body"
  shows "rng (snd (in_tx body w)) = rng w"
proof -
  obtain r v where b: "body (begun w) = (r, v)" by (cases "body (begun w)")
  then have "rng v = rng w" using assms by (auto simp: keeps_tx_def begun_def)
  with b show ?thesis
    by (cases "faults w (fpos w) = NoFault")
       (auto simp: in_tx_def begin_tx_def bnd_def ret_def commit_tx_def rollback_open_def Let_def
         simp flip: begun_def split: sum.split tx_exit.split fault.split option.split)
qed

lemma create_rng: "rng (snd (Create m inp w)) = rng w"
  by (auto simp: Create_def fail_def run_rng Let_def split: option.split)

lemma late_rng: "rng demo_late = (\<lambda>n. word_of_nat (Suc n))"
  by (simp add: demo_late_def demo_captured_def demo_authorized_def demo_created_def demo_start_def
      Confirm_def CaptureIntent_def in_tx_rng keeps_bodies create_rng run_rng)

lemma late_due:
  "length (filter (\<lambda>p. pi_status p = StatusCaptured \<and> pi_updated p < clock demo_late - 1)
     (t_intents (tables demo_late))) = 1"
  by code_simp

definition counted :: "world \<Rightarrow> bool" where
  "counted w \<longleftrightarrow> rpos w < 100 \<and> list_all (\<lambda>i. unat i \<le> rpos w)
     (map ac_id (t_accounts (tables w)) @ map tx_id (t_transactions (tables w)) @
      map en_id (t_entries (tables w)) @ map pi_id (t_intents (tables w)) @
      map ob_id (t_outbox (tables w)) @ map ob_event_id (t_outbox (tables w)))"

lemma late_counted: "counted demo_late"
  by code_simp

lemma late_stocked: "stocked 912 demo_late"
  using late_counted by (intro counted_stock[OF late_rng]) (auto simp: counted_def ids_of_list list_all_iff)

lemma late_works: "works demo_late"
proof -
  have "works demo_start" by (simp add: works_def demo_start_def)
  then have "works (fold exec ops demo_start)" for ops
  proof (induction ops rule: rev_induct)
    case (snoc a ops)
    then show ?case using works_exec[OF reachable_fold[OF reachable_demo_start]] by simp
  qed simp
  from this[of "[NewMerchant ''shop'', CreateOp 1 demo_direct, ConfirmOp demo_bank 2 1 ''tok_visa'',
      CaptureOp demo_bank 2 1, Tick 5]"]
  show ?thesis by (simp add: demo_late_def demo_captured_def demo_authorized_def demo_created_def)
qed

theorem settle_sweep_complete_witness: "fst (SettleDueIntents 1 demo_late) = (1, None)"
  using settle_sweep_complete[OF reachable_late late_works late_stocked, of 1] late_due by simp

end
