(* ===== verification/Reconcile.thy ===== *)
theory Reconcile
  imports Gateway
begin

text \<open>
  What the books say of each kind of account, in terms of the intents alone, and what the
  checks of \<^verbatim>\<open>internal/ledger/reconcile.go\<close> therefore answer. The lemmas read the sum of
  positions kind by kind.
\<close>

section \<open>Amounts by status\<close>

text \<open>The amounts of a merchant's intents in one currency that satisfy a condition.\<close>

definition amount_where :: "uuid \<Rightarrow> string \<Rightarrow> (payment_intent \<Rightarrow> bool) \<Rightarrow> db \<Rightarrow> int" where
  "amount_where m c P d =
     (\<Sum>p\<leftarrow>filter (\<lambda>p. pi_merchant p = m \<and> pi_currency p = c \<and> P p) (t_intents d). sint (pi_amount p))"

definition fees_where :: "uuid \<Rightarrow> string \<Rightarrow> (payment_intent \<Rightarrow> bool) \<Rightarrow> db \<Rightarrow> int" where
  "fees_where m c P d =
     (\<Sum>p\<leftarrow>filter (\<lambda>p. pi_merchant p = m \<and> pi_currency p = c \<and> P p) (t_intents d). sint (fee_of p))"

lemma sum_filter_if: "(\<Sum>x\<leftarrow>filter P xs. f x) = (\<Sum>x\<leftarrow>xs. if P x then f x else (0::int))"
  by (induction xs) auto

lemma amount_where_nonneg:
  assumes "consistent d"
  shows "0 \<le> amount_where m c P d"
  unfolding amount_where_def
  using consistentD(8)[OF assms] by (intro sum_list_nonneg) (auto simp: intent_wf_def less_imp_le)

lemma amount_where_zero:
  assumes "consistent d"
  shows "amount_where m c P d = 0 \<longleftrightarrow>
         \<not> (\<exists>p \<in> set (t_intents d). pi_merchant p = m \<and> pi_currency p = c \<and> P p)"
proof -
  have "0 \<le> x" if "x \<in> set (map (\<lambda>p. sint (pi_amount p))
      (filter (\<lambda>p. pi_merchant p = m \<and> pi_currency p = c \<and> P p) (t_intents d)))" for x
    using that consistentD(8)[OF assms] by (auto simp: intent_wf_def less_imp_le)
  then have "amount_where m c P d = 0 \<longleftrightarrow>
      (\<forall>x \<in> set (map (\<lambda>p. sint (pi_amount p))
        (filter (\<lambda>p. pi_merchant p = m \<and> pi_currency p = c \<and> P p) (t_intents d))). x = 0)"
    unfolding amount_where_def by (rule sum_list_nonneg_eq_0_iff)
  moreover have "sint (pi_amount p) \<noteq> 0" if "p \<in> set (t_intents d)" for p
    using consistentD(8)[OF assms that] by (auto simp: intent_wf_def)
  ultimately show ?thesis by auto
qed

section \<open>Kinds of accounts\<close>

lemma kind_sum_positions:
  assumes "books_with left d"
  shows "kind_sum m k c d = (\<Sum>p\<leftarrow>t_intents d.
           effect (position (left (pi_id p)) p) (\<lambda>(m', k', c', r). m' = m \<and> k' = k \<and> c' = c))"
  using assms by (simp add: kind_sum_key_sum books_with_def)

lemma kind_sum_by_status:
  assumes "consistent d"
    and "\<And>p left. p \<in> set (t_intents d) \<Longrightarrow> intent_wf p \<Longrightarrow>
      effect (position left p) (\<lambda>(m', k', c', r). m' = m \<and> k' = k \<and> c' = c) = f p"
  shows "kind_sum m k c d = (\<Sum>p\<leftarrow>t_intents d. f p)"
proof -
  obtain left where "books_with left d" using consistentD(5)[OF assms(1)] by (auto simp: books_def)
  note sum = kind_sum_positions[OF this, of m k c]
  show ?thesis
    unfolding sum
    by (rule sum_list_map_cong) (rule assms(2)[OF _ consistentD(8)[OF assms(1)]])
qed

lemmas key_defs = receivable_key_def payable_key_def cash_key_def platform_cash_key_def
  payee_key_def revenue_key_def

lemma receivable_sum:
  "consistent d \<Longrightarrow>
   kind_sum m KindAcquirerReceivable c d = amount_where m c (\<lambda>p. pi_status p = StatusCaptured) d"
  unfolding amount_where_def sum_filter_if
  by (rule kind_sum_by_status) (auto simp: position_def key_defs)

lemma mode_of_status:
  assumes "intent_wf p"
  shows "pi_status p = StatusHeldInEscrow \<or> pi_status p = StatusReleased \<Longrightarrow>
         pi_mode p = SettlementEscrow"
    and "pi_status p = StatusSettled \<or> pi_status p = StatusPartiallyRefunded \<Longrightarrow>
         pi_mode p = SettlementDirect"
  using assms by (auto simp: intent_wf_def mode_status_def)

lemma segregated_sum:
  "consistent d \<Longrightarrow>
   kind_sum m KindSegregatedCash c d = amount_where m c (\<lambda>p. pi_status p = StatusHeldInEscrow) d"
  unfolding amount_where_def sum_filter_if
  by (rule kind_sum_by_status) (auto simp: position_def key_defs dest: mode_of_status)

lemma sum_list_split2:
  "(\<And>p. p \<in> set xs \<Longrightarrow> f p = - g p - h p) \<Longrightarrow>
   (\<Sum>p\<leftarrow>xs. f p) = - (\<Sum>p\<leftarrow>xs. g p) - (\<Sum>p\<leftarrow>xs. h p :: int)"
  by (induction xs) auto

lemma escrow_liability_sum:
  assumes "consistent d"
  shows "kind_sum m KindEscrowLiability c d =
     - amount_where m c (\<lambda>p. pi_status p = StatusHeldInEscrow) d
     - amount_where m c (\<lambda>p. pi_mode p = SettlementEscrow \<and> pi_status p = StatusCaptured) d"
proof -
  define own where "own p \<longleftrightarrow> pi_merchant p = m \<and> pi_currency p = c" for p :: payment_intent
  define f where "f p = (if own p \<and> (pi_status p = StatusHeldInEscrow \<or>
      pi_mode p = SettlementEscrow \<and> pi_status p = StatusCaptured)
    then - sint (pi_amount p) else 0)" for p :: payment_intent
  have "kind_sum m KindEscrowLiability c d = (\<Sum>p\<leftarrow>t_intents d. f p)"
    by (rule kind_sum_by_status[OF assms])
       (auto simp: position_def key_defs f_def own_def dest: mode_of_status)
  then show ?thesis
    unfolding amount_where_def sum_filter_if
    by (simp only:) (rule sum_list_split2, auto simp: f_def own_def)
qed

lemma revenue_sum:
  "consistent d \<Longrightarrow>
   kind_sum m KindPlatformRevenue c d = - fees_where m c (\<lambda>p. pi_status p = StatusReleased) d"
  unfolding fees_where_def sum_filter_if uminus_sum_list_map
  by (rule kind_sum_by_status) (auto simp: position_def key_defs o_def)

text \<open>The escrow account of one intent holds its amount from capture until release or refund.\<close>

lemma sum_list_pick:
  assumes "distinct (map key xs)" and "x \<in> set xs"
    and "\<And>y. y \<in> set xs \<Longrightarrow> key y \<noteq> key x \<Longrightarrow> f y = (0::int)"
  shows "(\<Sum>y\<leftarrow>xs. f y) = f x"
  using assms
proof (induction xs)
  case Nil
  then show ?case by simp
next
  case (Cons a xs)
  show ?case
  proof (cases "a = x")
    case True
    have "(\<Sum>y\<leftarrow>xs. f y) = 0"
      using Cons.prems True by (intro sum_list_map_zero Cons.prems(3)) (auto simp: image_iff)
    with True show ?thesis by simp
  next
    case False
    with Cons.prems have "key a \<noteq> key x" by (auto simp: image_iff)
    with Cons False show ?thesis by auto
  qed
qed

lemma intent_escrow_sum:
  assumes con: "consistent d" and p: "p \<in> set (t_intents d)"
  shows "key_sum (\<lambda>k. k = (pi_merchant p, KindEscrowLiability, pi_currency p, Some (pi_id p))) d =
    (if pi_mode p = SettlementEscrow \<and> pi_status p \<in> {StatusCaptured, StatusHeldInEscrow}
     then - sint (pi_amount p) else 0)"
proof -
  let ?Q = "\<lambda>k. k = (pi_merchant p, KindEscrowLiability, pi_currency p, Some (pi_id p))"
  obtain left where b: "books_with left d" using consistentD(5)[OF con] by (auto simp: books_def)
  have "key_sum ?Q d = (\<Sum>q\<leftarrow>t_intents d. effect (position (left (pi_id q)) q) ?Q)"
    using b by (simp add: books_with_def)
  also have "\<dots> = effect (position (left (pi_id p)) p) ?Q"
    by (rule sum_list_pick[OF consistentD(7)[OF con] p])
       (auto simp: position_def key_defs)
  also have "\<dots> = (if pi_mode p = SettlementEscrow \<and> pi_status p \<in> {StatusCaptured, StatusHeldInEscrow}
     then - sint (pi_amount p) else 0)"
    using mode_of_status[OF consistentD(8)[OF con p]]
    by (auto simp: position_def key_defs)
  finally show ?thesis .
qed

text \<open>The trial balance: over all accounts the ledger sums to zero.\<close>

lemma position_balanced:
  assumes "intent_wf p"
  shows "effect (position left p) (\<lambda>_. True) = 0"
  by (simp add: position_def)

lemma trial_balance:
  assumes "consistent d"
  shows "account_sum (\<lambda>_. True) d = 0"
proof -
  obtain left where "books_with left d" using consistentD(5)[OF assms] by (auto simp: books_def)
  then have "key_sum (\<lambda>_. True) d =
      (\<Sum>p\<leftarrow>t_intents d. effect (position (left (pi_id p)) p) (\<lambda>_. True))"
    by (simp add: books_with_def)
  also have "\<dots> = 0"
    by (rule sum_list_map_zero) (simp add: position_balanced consistentD(8)[OF assms])
  finally show ?thesis by (simp add: key_sum_def)
qed

text \<open>
  Solvency: what a merchant's cash account holds beyond what is owed (to the merchant, to
  payees, and as revenue) is minus what the acquirer still owes on direct captures.
\<close>

lemma sum_list_minus2:
  "(\<And>p. p \<in> set xs \<Longrightarrow> a p + b p + c p + e p = - f p) \<Longrightarrow>
   (\<Sum>p\<leftarrow>xs. a p) + (\<Sum>p\<leftarrow>xs. b p) + (\<Sum>p\<leftarrow>xs. c p) + (\<Sum>p\<leftarrow>xs. e p) =
   - (\<Sum>p\<leftarrow>xs. f p :: int)"
  by (induction xs) fastforce+

lemma solvency:
  assumes con: "consistent d"
  shows "kind_sum m KindPlatformCash c d + kind_sum m KindMerchantPayable c d +
     kind_sum m KindPayableToPayee c d + kind_sum m KindPlatformRevenue c d =
     - amount_where m c (\<lambda>p. pi_mode p = SettlementDirect \<and> pi_status p = StatusCaptured) d"
proof -
  obtain left where b: "books_with left d" using consistentD(5)[OF con] by (auto simp: books_def)
  show ?thesis
    unfolding kind_sum_positions[OF b] amount_where_def sum_filter_if
  proof (rule sum_list_minus2)
    fix p assume "p \<in> set (t_intents d)"
    then have wf: "intent_wf p" by (rule consistentD(8)[OF con])
    then have m: "pi_mode p = SettlementDirect \<or> pi_mode p = SettlementEscrow"
      by (simp add: intent_wf_def)
    show "effect (position (left (pi_id p)) p) (\<lambda>(m', k', c', r). m' = m \<and> k' = KindPlatformCash \<and> c' = c) +
      effect (position (left (pi_id p)) p) (\<lambda>(m', k', c', r). m' = m \<and> k' = KindMerchantPayable \<and> c' = c) +
      effect (position (left (pi_id p)) p) (\<lambda>(m', k', c', r). m' = m \<and> k' = KindPayableToPayee \<and> c' = c) +
      effect (position (left (pi_id p)) p) (\<lambda>(m', k', c', r). m' = m \<and> k' = KindPlatformRevenue \<and> c' = c) =
      - (if pi_merchant p = m \<and> pi_currency p = c \<and>
            pi_mode p = SettlementDirect \<and> pi_status p = StatusCaptured
         then sint (pi_amount p) else 0)"
      using mode_of_status[OF wf] m
      by (auto simp: position_def key_defs)
  qed
qed

section \<open>The reported numbers\<close>

lemma SumByKind_success:
  assumes "SumByKind dec m k c w = (Inr b, w')" and "exact_codec dec"
  shows "sint b = kind_sum m k c (tables w) \<and> tables w' = tables w"
proof -
  from assms(1) obtain n w1 where r: "run (SumAccountBalanceByKind m k c) w = (Inr n, w1)"
    and rest: "(case numericToInt64 (dec n) of Inl e \<Rightarrow> fail e | Inr b \<Rightarrow> ret b) w1 = (Inr b, w')"
    unfolding SumByKind_def by (rule bnd_success)
  from r have n: "n = kind_sum m k c (tables w)" "tables w1 = tables w"
    by (auto simp: SumAccountBalanceByKind_eq elim!: run_success)
  from rest have "- (2 ^ 63) \<le> n \<and> n < 2 ^ 63" "b = word_of_int n" "w' = w1"
    using assms(2)
    by (auto simp: numericToInt64_exact ret_def fail_def split: if_splits)
  with n show ?thesis using sint_of_bounded[of n] by simp
qed

lemma Balance_success:
  assumes "Balance dec a w = (Inr b, w')" and "exact_codec dec"
  shows "sint b = debit_minus_credit (filter (\<lambda>e. en_account e = a) (t_entries (tables w))) \<and>
         tables w' = tables w"
proof -
  from assms(1) obtain n w1 where r: "run (GetAccountBalance a) w = (Inr n, w1)"
    and rest: "(case numericToInt64 (dec n) of Inl e \<Rightarrow> fail e | Inr b \<Rightarrow> ret b) w1 = (Inr b, w')"
    unfolding Balance_def by (rule bnd_success)
  from r have n: "n = debit_minus_credit (filter (\<lambda>e. en_account e = a) (t_entries (tables w)))"
      "tables w1 = tables w"
    by (auto simp: GetAccountBalance_def elim!: run_success)
  from rest have "- (2 ^ 63) \<le> n \<and> n < 2 ^ 63" "b = word_of_int n" "w' = w1"
    using assms(2)
    by (auto simp: numericToInt64_exact ret_def fail_def split: if_splits)
  with n show ?thesis using sint_of_bounded[of n] by simp
qed

text \<open>The comparison in 64 bits is the comparison of the exact sums.\<close>

lemma segregation_word:
  fixes s l :: int64
  assumes "sint s = h" and "sint l = - h - c" and "0 \<le> h" and "0 \<le> c"
  shows "s + l = 0 \<longleftrightarrow> c = 0"
proof
  assume "s + l = 0"
  then have "l = - s" by (simp add: eq_neg_iff_add_eq_0 add.commute)
  moreover have "sint (word_of_int (- sint s) :: int64) = - sint s"
    using assms(1,3) int64_bounds[of s] by (intro sint_of_bounded) auto
  then have "sint (- s) = - sint s" by simp
  ultimately show "c = 0" using assms by simp
next
  assume "c = 0"
  with assms have "word_of_int (sint s + sint l) = (0 :: int64)" by simp
  then show "s + l = 0" by simp
qed

lemma EscrowSegregationHolds_success:
  assumes run: "EscrowSegregationHolds dec m c w = (Inr (s, l, ok), w')"
    and dec: "exact_codec dec" and con: "consistent (tables w)"
  shows "sint s = amount_where m c (\<lambda>p. pi_status p = StatusHeldInEscrow) (tables w) \<and>
    sint l = - sint s -
      amount_where m c (\<lambda>p. pi_mode p = SettlementEscrow \<and> pi_status p = StatusCaptured) (tables w) \<and>
    (ok \<longleftrightarrow> \<not> (\<exists>p \<in> set (t_intents (tables w)). pi_merchant p = m \<and> pi_currency p = c \<and>
              pi_mode p = SettlementEscrow \<and> pi_status p = StatusCaptured))"
proof -
  from run obtain w1 w2 where s: "SumByKind dec m KindSegregatedCash c w = (Inr s, w1)"
    and l: "SumByKind dec m KindEscrowLiability c w1 = (Inr l, w2)" and ok: "ok \<longleftrightarrow> s + l = 0"
    unfolding EscrowSegregationHolds_def by (auto elim!: bnd_success ret_success)
  note s' = SumByKind_success[OF s dec]
  note l' = SumByKind_success[OF l dec]
  define h where "h = amount_where m c (\<lambda>p. pi_status p = StatusHeldInEscrow) (tables w)"
  define t where "t = amount_where m c
    (\<lambda>p. pi_mode p = SettlementEscrow \<and> pi_status p = StatusCaptured) (tables w)"
  have sl: "sint s = h" "sint l = - h - t"
    using s' l' segregated_sum[OF con, of m c] escrow_liability_sum[OF con, of m c]
    by (simp_all add: h_def t_def)
  moreover have "ok \<longleftrightarrow> t = 0"
    using segregation_word[OF sl] amount_where_nonneg[OF con]
    by (simp add: ok h_def t_def)
  ultimately show ?thesis
    unfolding h_def t_def amount_where_zero[OF con] by auto
qed

section \<open>What holds of every reachable world\<close>

text \<open>C4: The books reconcile by kind. Whatever operations have run, in whatever order and with
  whatever failures, a merchant's acquirer receivable is the sum of its captured intents, its
  segregated cash the sum of those held in escrow, its escrow liability those plus the captured
  escrow ones, and its platform revenue the fees of the released ones.\<close>

theorem books_by_kind:
  assumes "reachable w"
  shows "kind_sum m KindAcquirerReceivable c (tables w) =
           amount_where m c (\<lambda>p. pi_status p = StatusCaptured) (tables w) \<and>
         kind_sum m KindSegregatedCash c (tables w) =
           amount_where m c (\<lambda>p. pi_status p = StatusHeldInEscrow) (tables w) \<and>
         kind_sum m KindEscrowLiability c (tables w) =
           - amount_where m c (\<lambda>p. pi_status p = StatusHeldInEscrow) (tables w)
           - amount_where m c
               (\<lambda>p. pi_mode p = SettlementEscrow \<and> pi_status p = StatusCaptured) (tables w) \<and>
         kind_sum m KindPlatformRevenue c (tables w) =
           - fees_where m c (\<lambda>p. pi_status p = StatusReleased) (tables w)"
  using reachable_consistent[OF assms] receivable_sum segregated_sum escrow_liability_sum
    revenue_sum by blast

lemma demo_captured_amount:
  "amount_where 1 ''USD'' (\<lambda>p. pi_status p = StatusCaptured) (tables demo_captured) = 500"
  by code_simp

theorem books_by_kind_witness: "kind_sum 1 KindAcquirerReceivable ''USD'' (tables demo_captured) = 500"
  using books_by_kind[OF reachable_demos(3), of 1 "''USD''"] demo_captured_amount by simp

text \<open>The escrow account of an intent holds exactly its amount from capture until release or
  refund, and nothing before or after.\<close>

theorem escrow_per_intent:
  assumes "reachable w" and "p \<in> set (t_intents (tables w))"
  shows "key_sum (\<lambda>k. k = (pi_merchant p, KindEscrowLiability, pi_currency p, Some (pi_id p)))
           (tables w) =
    (if pi_mode p = SettlementEscrow \<and> pi_status p \<in> {StatusCaptured, StatusHeldInEscrow}
     then - sint (pi_amount p) else 0)"
  by (rule intent_escrow_sum[OF reachable_consistent[OF assms(1)] assms(2)])

lemma hold_intents:
  "map (\<lambda>p. (pi_id p, pi_merchant p, pi_currency p, pi_amount p, pi_mode p, pi_status p))
     (t_intents (tables hold_captured)) =
   [(2, 1, ''USD'', 300, SettlementEscrow, StatusCaptured)]"
  by code_simp

theorem escrow_per_intent_witness:
  "key_sum (\<lambda>k. k = (1, KindEscrowLiability, ''USD'', Some 2)) (tables hold_captured) = - 300"
proof -
  obtain p where p: "p \<in> set (t_intents (tables hold_captured))" "pi_id p = 2" "pi_merchant p = 1"
      "pi_currency p = ''USD''" "pi_amount p = 300" "pi_mode p = SettlementEscrow"
      "pi_status p = StatusCaptured"
    using hold_intents by (auto simp: map_eq_Cons_conv)
  show ?thesis using escrow_per_intent[OF reachable_holds(2) p(1)] p by simp
qed

text \<open>C24: Nothing is created or lost: over all accounts together the ledger sums to zero, and a
  merchant's platform cash covers exactly what is owed to the merchant, to payees and as revenue,
  but for the direct captures the acquirer has not settled yet.\<close>

theorem money_conserved:
  assumes "reachable w"
  shows "account_sum (\<lambda>_. True) (tables w) = 0 \<and>
    kind_sum m KindPlatformCash c (tables w) +
      amount_where m c (\<lambda>p. pi_mode p = SettlementDirect \<and> pi_status p = StatusCaptured) (tables w) =
    - (kind_sum m KindMerchantPayable c (tables w) + kind_sum m KindPayableToPayee c (tables w) +
       kind_sum m KindPlatformRevenue c (tables w))"
  using trial_balance[OF reachable_consistent[OF assms]]
    solvency[OF reachable_consistent[OF assms], of m c] by simp

theorem money_conserved_witness: "account_sum (\<lambda>_. True) (tables demo_settled) = 0"
  using money_conserved[OF reachable_demos(4)] by simp

text \<open>C22: The segregation check reports the exact segregated cash and liability, and it holds
  exactly when no escrow intent of that merchant and currency is between capture and settlement.\<close>

theorem segregation_check:
  assumes "reachable w" and "exact_codec dec"
    and "EscrowSegregationHolds dec m c w = (Inr (segregated, liability, holds), w')"
  shows "sint segregated = amount_where m c (\<lambda>p. pi_status p = StatusHeldInEscrow) (tables w) \<and>
    sint liability = - sint segregated - amount_where m c
      (\<lambda>p. pi_mode p = SettlementEscrow \<and> pi_status p = StatusCaptured) (tables w) \<and>
    (holds \<longleftrightarrow> \<not> (\<exists>p \<in> set (t_intents (tables w)). pi_merchant p = m \<and> pi_currency p = c \<and>
              pi_mode p = SettlementEscrow \<and> pi_status p = StatusCaptured)) \<and>
    tables w' = tables w"
proof -
  have "tables w' = tables w"
    using assms(3) SumByKind_success[OF _ assms(2)]
    unfolding EscrowSegregationHolds_def by (auto elim!: bnd_success ret_success)
  then show ?thesis
    using EscrowSegregationHolds_success[OF assms(3,2) reachable_consistent[OF assms(1)]] by blast
qed

lemma hold_check:
  "fst (EscrowSegregationHolds plain_numeric 1 ''USD'' hold_captured) = Inr (0, - 300, False)"
  by code_simp

theorem segregation_check_witness:
  "amount_where 1 ''USD'' (\<lambda>p. pi_status p = StatusHeldInEscrow) (tables hold_captured) = 0"
proof -
  have "EscrowSegregationHolds plain_numeric 1 ''USD'' hold_captured =
      (Inr (0, - 300, False), snd (EscrowSegregationHolds plain_numeric 1 ''USD'' hold_captured))"
    using hold_check by (metis prod.collapse)
  from segregation_check[OF reachable_holds(2) exact_plain_numeric this] show ?thesis by simp
qed

end
