(* ===== verification/History.thy ===== *)
theory History
  imports Gateway
begin

text \<open>
  What the ledger and the outbox tell of an intent's life in every reachable world: each
  transaction balances, each operation is posted once and announced once, and nothing that was
  written is ever rewritten.
\<close>

section \<open>Postings and events\<close>

text \<open>Every transaction of the ledger balances: its debits equal its credits exactly, over
  unbounded integers.\<close>

theorem transactions_balance:
  assumes "reachable w" and "t \<in> set (t_transactions (tables w))"
  shows "(\<Sum>e\<leftarrow>filter (\<lambda>e. en_transaction e = tx_id t) (t_entries (tables w)).
           sint (en_debit e) - sint (en_credit e)) = 0"
  using consistentD(3)[OF reachable_consistent[OF assms(1)]] assms(2)
  by (simp add: balanced_def tx_net_def posted_def)

lemma demo_transactions: "map tx_kind (t_transactions (tables demo_captured)) = [''capture'']"
  by code_simp

theorem transactions_balance_witness:
  "\<exists>t \<in> set (t_transactions (tables demo_captured)). tx_kind t = ''capture'' \<and>
     (\<Sum>e\<leftarrow>filter (\<lambda>e. en_transaction e = tx_id t) (t_entries (tables demo_captured)).
           sint (en_debit e) - sint (en_credit e)) = 0"
proof -
  obtain t where "t \<in> set (t_transactions (tables demo_captured))" "tx_kind t = ''capture''"
    using demo_transactions by (auto simp: map_eq_Cons_conv)
  with transactions_balance[OF reachable_demos(3), of t] show ?thesis by blast
qed

text \<open>C11: Nothing is posted twice, missed, or posted out of order: the transactions that
  reference an intent are, in order, exactly those its status calls for. In particular an intent
  has at most one capture, one settlement, one release and one refund.\<close>

theorem posted_once:
  assumes "reachable w" and "p \<in> set (t_intents (tables w))"
  shows "legal_history (pi_mode p) (pi_status p)
      (map tx_kind (filter (\<lambda>t. tx_reference t = Some (pi_id p)) (t_transactions (tables w)))) \<and>
    distinct (map tx_kind (filter (\<lambda>t. tx_reference t = Some (pi_id p)) (t_transactions (tables w))))"
proof -
  have "legal_history (pi_mode p) (pi_status p) (tx_history (tables w) (pi_id p))"
    using consistentD(9)[OF reachable_consistent[OF assms(1)] assms(2)] by (simp add: story_def)
  then show ?thesis
    unfolding tx_history_def [symmetric]
    by (auto simp: legal_history_def split: if_splits)
qed

lemma demo_settled_row:
  "map (\<lambda>p. (pi_id p, pi_mode p, pi_status p)) (t_intents (tables demo_settled)) =
   [(2, SettlementDirect, StatusSettled)]"
  by code_simp

theorem posted_once_witness:
  "map tx_kind (filter (\<lambda>t. tx_reference t = Some 2) (t_transactions (tables demo_settled))) =
   [''capture'', ''settle'']"
proof -
  obtain p where "p \<in> set (t_intents (tables demo_settled))" "pi_id p = 2"
      "pi_mode p = SettlementDirect" "pi_status p = StatusSettled"
    using demo_settled_row by (auto simp: map_eq_Cons_conv)
  with posted_once[OF reachable_demos(4), of p] show ?thesis
    by (simp add: legal_history_def)
qed

lemma hops_rank: "hops m s ts \<Longrightarrow> length ts \<le> 5 - status_rank s"
proof (induction ts arbitrary: s)
  case Nil
  then show ?case by simp
next
  case (Cons t ts)
  then have "length ts \<le> 5 - status_rank t" and h: "hop m s t" by auto
  moreover have "status_rank s < status_rank t"
    using h by (auto simp: hop_def dest!: CanTransition_rank)
  ultimately show ?case using status_rank_le[of t] by simp
qed

text \<open>C23: The outbox tells the story of every intent, no event lost and none invented: the statuses
  its events announce start from created, follow legal steps, end in its present status; each
  event has the type and the merchant that belong to it, and there are never more than five.\<close>

theorem event_story:
  assumes "reachable w" and "p \<in> set (t_intents (tables w))"
  shows "hops (pi_mode p) StatusCreated (map event_status (events_of (tables w) (pi_id p))) \<and>
    last (StatusCreated # map event_status (events_of (tables w) (pi_id p))) = pi_status p \<and>
    length (events_of (tables w) (pi_id p)) \<le> 5 \<and>
    (\<forall>r \<in> set (events_of (tables w) (pi_id p)).
       ob_type r = eventTypeFor (event_status r) \<and> ob_merchant r = pi_merchant p)"
proof -
  define es where "es = events_of (tables w) (pi_id p)"
  note c = consistentD[OF reachable_consistent[OF assms(1)]]
  have st: "story (tables w) p" by (rule c(9)[OF assms(2)])
  have "ob_merchant r = pi_merchant p" if "r \<in> set es" for r
  proof -
    from that have r: "r \<in> set (t_outbox (tables w))" "event_intent r = Some (pi_id p)"
      by (auto simp: es_def events_of_def)
    then obtain q where "q \<in> set (t_intents (tables w))" "event_intent r = Some (pi_id q)"
        "ob_merchant r = pi_merchant q"
      using c(4) unfolding refs_ok_def by blast
    then show ?thesis using r distinct_key_eq[OF c(7) _ assms(2), of q] by simp
  qed
  moreover have "length es \<le> 5"
    using st hops_rank[of "pi_mode p" StatusCreated "map event_status es"]
    by (simp add: story_def es_def)
  ultimately show ?thesis using st by (simp add: story_def es_def)
qed

theorem event_story_witness:
  "last (StatusCreated # map event_status (events_of (tables demo_settled) 2)) = StatusSettled"
proof -
  obtain p where "p \<in> set (t_intents (tables demo_settled))" "pi_id p = 2"
      "pi_status p = StatusSettled"
    using demo_settled_row by (auto simp: map_eq_Cons_conv)
  with event_story[OF reachable_demos(4), of p] show ?thesis by simp
qed

section \<open>Nothing is rewritten\<close>

text \<open>However the gateway goes on, what was written stays: transactions and entries are only
  appended, and every intent keeps its id, merchant, amount, currency, mode, payee, fee and
  metadata, while its status only moves along legal edges.\<close>

theorem append_only:
  assumes "reachable w"
  shows "(\<exists>ts. t_transactions (tables (fold exec ops w)) = t_transactions (tables w) @ ts) \<and>
    (\<exists>es. t_entries (tables (fold exec ops w)) = t_entries (tables w) @ es) \<and>
    (\<forall>p \<in> set (t_intents (tables w)). \<exists>s t.
       p\<lparr>pi_status := s, pi_updated := t\<rparr> \<in> set (t_intents (tables (fold exec ops w))) \<and>
       walk (pi_mode p) (pi_status p) s)"
proof -
  define d d' where "d = tables w" and "d' = tables (fold exec ops w)"
  have ev: "evolves d d'" using fold_evolves[OF assms(1)] by (simp add: d_def d'_def)
  have "\<exists>s t. p\<lparr>pi_status := s, pi_updated := t\<rparr> \<in> set (t_intents d') \<and>
       walk (pi_mode p) (pi_status p) s" if p: "p \<in> set (t_intents d)" for p
  proof -
    have "grown later (t_intents d) (t_intents d')" using ev by (simp add: evolves_def)
    then obtain q where "q \<in> set (t_intents d')" "later p q" using p by (rule grown_memE)
    then show ?thesis by (auto simp: later_def)
  qed
  then show ?thesis
    using ev unfolding evolves_def d_def d'_def by (auto simp: list.rel_eq elim!: grownE)
qed

theorem append_only_witness:
  "\<exists>ts. t_transactions (tables (fold exec [RefundOp 2 1 200] demo_settled)) =
     t_transactions (tables demo_settled) @ ts"
  using append_only[OF reachable_demos(4), of "[RefundOp 2 1 200]"] by blast

lemma grown_history:
  assumes "grown (=) (t_transactions d) (t_transactions d')"
  shows "\<exists>ks. tx_history d' i = tx_history d i @ ks"
  using assms by (auto simp: tx_history_def list.rel_eq elim!: grownE)

lemma terminal_history:
  assumes "terminal m s" and "m = SettlementDirect \<or> m = SettlementEscrow"
    and "legal_history m s h" and "legal_history m s (h @ ks)"
  shows "ks = []"
proof -
  have "s \<noteq> StatusCaptured" using assms(1,2) by (auto simp: terminal_def)
  with assms(3,4) show ?thesis by (auto simp: legal_history_def split: if_splits)
qed

text \<open>An intent in a terminal status (failed, released, refunded, partially refunded) is finished
  for good: no sequence of operations changes its status again or posts anything for it.\<close>

theorem terminal_is_final:
  assumes reach: "reachable w" and p: "p \<in> set (t_intents (tables w))"
    and fin: "terminal (pi_mode p) (pi_status p)"
  shows "(\<exists>p' \<in> set (t_intents (tables (fold exec ops w))).
       pi_id p' = pi_id p \<and> pi_status p' = pi_status p) \<and>
    tx_history (tables (fold exec ops w)) (pi_id p) = tx_history (tables w) (pi_id p)"
proof -
  define d' where "d' = tables (fold exec ops w)"
  have ev: "evolves (tables w) d'" using fold_evolves[OF reach] by (simp add: d'_def)
  have reach': "reachable (fold exec ops w)" by (rule reachable_fold[OF reach])
  have "grown later (t_intents (tables w)) (t_intents d')" using ev by (simp add: evolves_def)
  then obtain p' where p': "p' \<in> set (t_intents d')" and "later p p'"
    using p by (rule grown_memE)
  then have q: "pi_id p' = pi_id p" "pi_mode p' = pi_mode p" "pi_status p' = pi_status p"
    using walk_terminal[OF _ fin] by (auto simp: later_def)
  obtain ks where ks: "tx_history d' (pi_id p) = tx_history (tables w) (pi_id p) @ ks"
    using grown_history[of "tables w" d' "pi_id p"] ev by (auto simp: evolves_def)
  have "legal_history (pi_mode p) (pi_status p) (tx_history (tables w) (pi_id p))"
    using consistentD(9)[OF reachable_consistent[OF reach] p] by (simp add: story_def)
  moreover have "legal_history (pi_mode p) (pi_status p) (tx_history (tables w) (pi_id p) @ ks)"
    using consistentD(9)[OF reachable_consistent[OF reach'] p'[unfolded d'_def]] q ks
    by (simp add: story_def d'_def)
  moreover have "pi_mode p = SettlementDirect \<or> pi_mode p = SettlementEscrow"
    using consistentD(8)[OF reachable_consistent[OF reach] p] by (simp add: intent_wf_def)
  ultimately have "ks = []" using terminal_history[OF fin] by blast
  with ks p' q show ?thesis unfolding d'_def by auto
qed

definition demo_failed :: world where
  "demo_failed = exec (ConfirmOp demo_bank 2 1 ''tok_declined'') demo_created"

lemma demo_failed_row:
  "map (\<lambda>p. (pi_id p, pi_mode p, pi_status p)) (t_intents (tables demo_failed)) =
   [(2, SettlementDirect, StatusFailed)]"
  by code_simp

theorem terminal_is_final_witness:
  "\<exists>p' \<in> set (t_intents (tables (fold exec [ConfirmOp demo_bank 2 1 ''tok_visa''] demo_failed))).
     pi_id p' = 2 \<and> pi_status p' = StatusFailed"
proof -
  obtain p where p: "p \<in> set (t_intents (tables demo_failed))" "pi_id p = 2"
      "pi_mode p = SettlementDirect" "pi_status p = StatusFailed"
    using demo_failed_row by (auto simp: map_eq_Cons_conv)
  have "reachable demo_failed"
    unfolding demo_failed_def by (rule reachable.after[OF reachable_demos(1)])
  from terminal_is_final[OF this p(1), of "[ConfirmOp demo_bank 2 1 ''tok_visa'']"] p
  show ?thesis by (simp add: terminal_def)
qed

text \<open>C33: The tables keep their integrity: unique keys, every entry on an existing account and
  transaction with exactly one positive side, one account per key, every transaction and event
  of an existing intent of its merchant, and every intent with a positive amount in a status of
  its mode; an escrow intent has a payee and a fee between zero and its amount.\<close>

theorem tables_integrity:
  assumes "reachable w"
  shows "ledger_wf (tables w) \<and> accounts_unique (tables w) \<and> refs_ok (tables w) \<and>
    distinct (map pi_id (t_intents (tables w))) \<and> (\<forall>p \<in> set (t_intents (tables w)). intent_wf p)"
  using consistentD[OF reachable_consistent[OF assms]] by (auto simp: good_ledger_def)

theorem tables_integrity_witness: "accounts_unique (tables hold_held)"
  using tables_integrity[OF reachable_holds(3)] by simp

end
