(* ===== verification/Guards.thy ===== *)
theory Guards
  imports Outcomes Keys
begin

text \<open>
  The server as a whole: what a request may change, by the credential it carries, and what a
  money request with an idempotency key does. The properties speak of \<open>serve\<close>, so they hold of
  every route behind every guard.
\<close>

section \<open>Credentials\<close>

text \<open>An active key that a request presents, and the merchants its credential stands for.\<close>

definition presents :: "lib \<Rightarrow> world \<Rightarrow> request \<Rightarrow> api_key \<Rightarrow> bool" where
  "presents L w rq k \<longleftrightarrow>
     (\<exists>token. bearerToken rq = Some token \<and> k \<in> set (t_api_keys (tables w)) \<and> opens_with L token k)"

definition stands_for :: "lib \<Rightarrow> world \<Rightarrow> request \<Rightarrow> uuid \<Rightarrow> bool" where
  "stands_for L w rq m \<longleftrightarrow> (\<exists>k. presents L w rq k \<and> ak_merchant k = m) \<or>
     (\<exists>token. bearerToken rq = Some token \<and> verifyToken L (newSessionHandler L) (clock w) token = Some m)"

definition untouched :: "world \<Rightarrow> world \<Rightarrow> bool" where
  "untouched w w' \<longleftrightarrow> tables w' = tables w \<and> tx_open w' = tx_open w \<and> clock w' = clock w \<and>
     rng w' = rng w \<and> faults w' = faults w"

interpretation reading: frame untouched
  by unfold_locales (simp_all add: untouched_def)

lemma key_auth_admits:
  assumes "key_auth L token c w = (Inr c', w')" and "bearerToken rq = Some token"
  obtains k where "presents L w rq k" and "c' = setAuth c (ak_merchant k) (ak_kind k)"
proof -
  have "\<exists>m kind. fst (lookupAPIKey L token w) = Inr (Some (m, kind)) \<and> c' = setAuth c m kind"
    using assms(1)
    by (auto simp: key_auth_def and_then_def say_def split: prod.splits sum.splits option.splits)
  then obtain k where "find (opens_with L token) (t_api_keys (tables w)) = Some k"
      "c' = setAuth c (ak_merchant k) (ak_kind k)"
    by (auto simp: lookup_exact split: if_splits)
  with assms(2) that show thesis
    by (auto simp: presents_def dest!: find_SomeD)
qed

lemma authAny_admits:
  assumes "authAny L (newSessionHandler L) c rq w = (Inr c', w')"
  obtains m where "MerchantID c' = Some m" and "stands_for L w rq m"
proof -
  obtain token where b: "bearerToken rq = Some token"
    using assms by (auto simp: authAny_def split: option.splits)
  show thesis
  proof (cases "HasPrefix token ''pk_'' \<or> HasPrefix token ''sk_''")
    case True
    with assms b have "key_auth L token c w = (Inr c', w')" by (simp add: authAny_def)
    from key_auth_admits[OF this b] obtain k where
      "presents L w rq k" "c' = setAuth c (ak_merchant k) (ak_kind k)" .
    then show thesis
      by (intro that[of "ak_merchant k"]) (auto simp: setAuth_def MerchantID_def stands_for_def)
  next
    case False
    with assms b obtain m where
      "verifyToken L (newSessionHandler L) (clock w) token = Some m" "c' = setAuth c m ''session''"
      by (auto simp: authAny_def split: option.splits)
    with b show thesis
      by (intro that[of m]) (auto simp: setAuth_def MerchantID_def stands_for_def)
  qed
qed

section \<open>What a request may change\<close>

text \<open>The settings of one merchant: its endpoints, and nothing else.\<close>

definition settings_of :: "uuid \<Rightarrow> world \<Rightarrow> world \<Rightarrow> bool" where
  "settings_of m w w' \<longleftrightarrow>
     (\<exists>es. tables w' = (tables w)\<lparr>t_endpoints := es\<rparr> \<and>
       (\<forall>m'. m' \<noteq> m \<longrightarrow>
          filter (\<lambda>e. we_merchant e = m') es = filter (\<lambda>e. we_merchant e = m') (t_endpoints (tables w))))"

lemma settings_same: "tables w' = tables w \<Longrightarrow> settings_of m w w'"
  unfolding settings_of_def by (rule exI[of _ "t_endpoints (tables w)"]) simp

interpretation settings: frame "settings_of m" for m
  by unfold_locales (simp add: settings_same, auto simp: settings_of_def)

lemma settings_run:
  assumes "\<And>u now d x d'. f u now d = Inr (x, d') \<Longrightarrow> \<exists>es. d' = d\<lparr>t_endpoints := es\<rparr> \<and>
    (\<forall>m'. m' \<noteq> m \<longrightarrow> filter (\<lambda>e. we_merchant e = m') es = filter (\<lambda>e. we_merchant e = m') (t_endpoints d))"
  shows "within (settings_of m) (run f)"
  unfolding within_def
proof
  fix w
  obtain r w' where r: "run f w = (r, w')" by (cases "run f w")
  then show "settings_of m w (snd (run f w))"
  proof (cases rule: run_cases[OF r])
    case 1
    with r show ?thesis by (simp add: settings_same)
  next
    case (2 x)
    with r assms show ?thesis by (auto simp: settings_of_def)
  qed
qed

lemma endpoint_settings:
  "within (settings_of m) (run (InsertWebhookEndpoint m url secret))"
  "within (settings_of m) (run (DisableEndpoint i m))"
proof -
  show "within (settings_of m) (run (InsertWebhookEndpoint m url secret))"
    by (rule settings_run, rule exI, rule conjI)
       (auto simp: InsertWebhookEndpoint_def Let_def split: if_splits)
  show "within (settings_of m) (run (DisableEndpoint i m))"
    by (rule settings_run, rule exI, rule conjI)
       (auto simp: DisableEndpoint_def disable_row_def Let_def split: option.splits
         intro!: filter_update_where)
qed

lemma read_handlers_settings:
  assumes "(meth, path, h) \<in> set (read_handlers L)" and "MerchantID c = Some m"
  shows "within (settings_of m) (h c rq)"
proof -
  have "within (settings_of m) (portal_createEndpoint L c rq)"
    "within (settings_of m) (portal_disableEndpoint L c rq)"
    unfolding portal_createEndpoint_def portal_disableEndpoint_def
    using assms(2) endpoint_settings
    by (auto intro!: settings.within_merchant settings.closed)
  with assms(1) settings.views_within show ?thesis by (auto simp: read_handlers_def)
qed

text \<open>
  The three ways a request can go: nothing is written; an active secret key lets a money handler
  run behind its idempotency key; or the settings of a merchant the credential stands for change.
\<close>

lemma dispatch_cases:
  assumes "dispatch rs rq w = (out, w')"
  obtains (missed) "w' = w"
    | (hit) r c where "r \<in> set rs" and "rt_handler r c rq w = (out, w')"
        and "\<And>v. dispatch rs rq v = rt_handler r c rq v"
  using assms by (auto simp: dispatch_def split: option.splits if_splits dest!: find_SomeD)

lemma serve_cases:
  assumes "serve L bank rq w = (out, w')"
  obtains (reads) "untouched w w'"
    | (money) k c c0 path h w1 out1 where "presents L w rq k" and "ak_kind k = ''secret''"
        and "MerchantID c = Some (ak_merchant k)" and "KeyKind c = Some ''secret''" and "(path, h) \<in> set (money_handlers L bank)"
        and "untouched w w1" and "WithIdempotency L h c rq w1 = (out1, w')"
        and "out = with_headers (cors_headers L rq) out1"
        and "fst (apiKeyAuth L c0 rq w) = Inr c"
        and "\<And>v. serve L bank rq v =
          (case write_route L h c0 rq v of (o1, v') \<Rightarrow> (with_headers (cors_headers L rq) o1, v'))"
    | (settings) m c meth path h w1 out1 where "stands_for L w rq m" and "settings_of m w w'"
        and "(meth, path, h) \<in> set (read_handlers L)" and "MerchantID c = Some m"
        and "untouched w w1" and "h c rq w1 = (out1, w')"
        and "out = with_headers (cors_headers L rq) out1"
proof -
  let ?sn = "newSessionHandler L"
  have same: "untouched w w" by (rule reading.same)
  consider "w' = w" | out1 where "dispatch (routes L bank ?sn) rq w = (out1, w')"
      "out = with_headers (cors_headers L rq) out1" "rq_method rq \<noteq> ''OPTIONS''"
      "\<not> slash_redirects (routes L bank ?sn) rq"
    using assms by (auto simp: serve_def Let_def split: if_splits prod.splits)
  then show thesis
  proof cases
    case 1
    with same reads show thesis by simp
  next
    case (2 out1)
    from 2(1) show thesis
    proof (cases rule: dispatch_cases)
      case missed
      with same reads show thesis by simp
    next
      case (hit r c)
      from hit(1) consider (plain) "r \<in> set (public_routes L ?sn) \<union> set (token_routes L)"
        | (wrapped) path h where "(path, h) \<in> set (money_handlers L bank)" "rt_handler r = write_route L h"
        | (viewed) meth path h where "(meth, path, h) \<in> set (read_handlers L)"
            "rt_handler r = read_route L ?sn h"
        unfolding routes_def by (fastforce simp: write_routes_def read_routes_def)
      then show thesis
      proof cases
        case plain
        have "within untouched (token_route L (create_token L) c rq)"
          unfolding token_route_def publishableOnly_def
          by (intro reading.within_guarded reading.apiKeyAuth_within reading.require_kind_within
              reading.public_within)
        with plain have "within untouched (rt_handler r c rq)"
          using reading.public_within reading.login_within
          by (auto simp: public_routes_def token_routes_def)
        from withinD[OF this hit(2)] show thesis by (rule reads)
      next
        case (wrapped path h)
        obtain a w1 where a: "apiKeyAuth L c rq w = (a, w1)" by (cases "apiKeyAuth L c rq w")
        then have w1: "untouched w w1" by (rule withinD[OF reading.apiKeyAuth_within])
        show thesis
        proof (cases "\<exists>c'. a = Inr c' \<and> KeyKind c' = Some ''secret''")
          case True
          then obtain c' where c': "a = Inr c'" "KeyKind c' = Some ''secret''" by blast
          obtain token where b: "bearerToken rq = Some token"
            using a c' by (auto simp: apiKeyAuth_def split: option.splits)
          with a c' have "key_auth L token c w = (Inr c', w1)" by (simp add: apiKeyAuth_def)
          from key_auth_admits[OF this b] obtain k where
            k: "presents L w rq k" "c' = setAuth c (ak_merchant k) (ak_kind k)" .
          have "WithIdempotency L h c' rq w1 = (out1, w')"
            using hit(2) wrapped(2) a c'
            by (simp add: write_route_def guarded_def secretOnly_def require_kind_def)
          moreover have "serve L bank rq v = (case write_route L h c rq v of
              (o1, v') \<Rightarrow> (with_headers (cors_headers L rq) o1, v'))" for v
            using 2(3,4) hit(3) wrapped(2) by (simp add: serve_def Let_def)
          moreover have "fst (apiKeyAuth L c rq w) = Inr c'" using a c' by simp
          ultimately show thesis
            using k c' w1 wrapped(1) 2(2) money[of k c' path h w1 out1 c]
            by (auto simp: setAuth_def KeyKind_def MerchantID_def)
        next
          case False
          have "w' = w1"
            using hit(2) wrapped(2) a False
            by (auto simp: write_route_def guarded_def secretOnly_def require_kind_def
                split: sum.splits option.splits if_splits)
          with w1 reads show thesis by simp
        qed
      next
        case (viewed meth path h)
        obtain a w1 where a: "authAny L ?sn c rq w = (a, w1)" by (cases "authAny L ?sn c rq w")
        then have w1: "untouched w w1" by (rule withinD[OF reading.authAny_within])
        show thesis
        proof (cases a)
          case (Inl e)
          with hit(2) viewed(2) a have "w' = w1" by (simp add: read_route_def guarded_def)
          with w1 reads show thesis by simp
        next
          case (Inr c')
          with a obtain m where m: "MerchantID c' = Some m" "stands_for L w rq m"
            by (auto elim: authAny_admits)
          have h: "h c' rq w1 = (out1, w')"
            using hit(2) viewed(2) a Inr by (simp add: read_route_def guarded_def)
          have "settings_of m w1 w'" by (rule withinD[OF read_handlers_settings[OF viewed(1) m(1)] h])
          with w1 have "settings_of m w w'" by (simp add: settings_of_def untouched_def)
          from settings[OF m(2) this viewed(1) m(1) w1 h 2(2)] show thesis .
        qed
      qed
    qed
  qed
qed

text \<open>C10: Only an active secret key moves money: whatever the request, either nothing at all is
  written, or an active secret key came with it, or what changed are webhook endpoints of a
  merchant for whom its key (of any kind) or its session stands.\<close>

theorem guarded_writes:
  "(let w' = snd (serve L bank rq w) in
    tables w' = tables w \<or>
    (\<exists>k. presents L w rq k \<and> ak_kind k = ''secret'') \<or>
    (\<exists>m. stands_for L w rq m \<and> settings_of m w w'))"
proof -
  obtain out w' where s: "serve L bank rq w = (out, w')" by (cases "serve L bank rq w")
  then have "snd (serve L bank rq w) = w'" by simp
  with s show ?thesis
    by (cases rule: serve_cases) (auto simp: untouched_def)
qed

section \<open>Tenants\<close>

text \<open>A money handler, on behalf of one merchant, seen by another.\<close>

definition isolates :: "uuid \<Rightarrow> world \<Rightarrow> world \<Rightarrow> bool" where
  "isolates m w w' \<longleftrightarrow> (tx_open w = None \<and> consistent (tables w) \<longrightarrow>
     tx_open w' = None \<and> consistent (tables w') \<and> same_tenant m (tables w) (tables w'))"

lemma same_tenant_trans: "same_tenant m a b \<Longrightarrow> same_tenant m b c \<Longrightarrow> same_tenant m a c"
  by (simp add: same_tenant_def)

lemma isolates_exec:
  assumes "requests operation m \<or> (\<exists>inp. operation = CreateOp m inp)" and "m' \<noteq> m"
  shows "isolates m' w (exec operation w)"
  using operation_isolated[OF _ _ assms]
    steady_exec(1)[OF growth.money_invariant_axioms, of "tables w" w operation]
  by (simp add: isolates_def steady_def grows_def)

interpretation tenant: money_frame "isolates m'" "\<lambda>m. m \<noteq> m'" for m'
proof unfold_locales
  show "isolates m' w w'" if "tables w' = tables w" "tx_open w' = tx_open w" for w w'
    using that by (simp add: isolates_def same_tenant_def)
  show "isolates m' u w" if "isolates m' u v" "isolates m' v w" for u v w
    using that by (auto simp: isolates_def intro: same_tenant_trans)
  show "within (isolates m') (Create m inp)" if "m \<noteq> m'" for m inp
    using that isolates_exec[of "CreateOp m inp" m m'] by (simp add: within_def)
  show "within (isolates m') (Confirm bank i m token)" if "m \<noteq> m'" for bank i m token
    using that isolates_exec[of "ConfirmOp bank i m token" m m'] by (simp add: within_def)
  show "within (isolates m') (CaptureIntent bank i m)" if "m \<noteq> m'" for bank i m
    using that isolates_exec[of "CaptureOp bank i m" m m'] by (simp add: within_def)
  show "within (isolates m') (Refund i m amount)" if "m \<noteq> m'" for i m amount
    using that isolates_exec[of "RefundOp i m amount" m m'] by (simp add: within_def)
  show "within (isolates m') (Release i m)" if "m \<noteq> m'" for i m
    using that isolates_exec[of "ReleaseOp i m" m m'] by (simp add: within_def)
qed

lemma finish_isolated:
  assumes "\<forall>r \<in> set (t_idempotency (tables w)). ik_id r = ik_id row \<longrightarrow> ik_merchant r \<noteq> m"
  shows "same_tenant m (tables w) (tables (finish_phase L row out w))"
proof -
  have "filter (\<lambda>k. ik_merchant k = m) (filter (\<lambda>r. ik_id r \<noteq> ik_id row) (t_idempotency (tables w))) =
      filter (\<lambda>k. ik_merchant k = m) (t_idempotency (tables w))"
    using assms by (auto simp: filter_filter intro: filter_cong)
  then have del: "same_tenant m (tables w) (tables (snd (run (DeleteKey (ik_id row)) w)))"
    by (auto simp: run_def Let_def DeleteKey_def same_tenant_def split: fault.splits
        intro!: key_sum_cong)
  have "filter (\<lambda>k. ik_merchant k = m)
      (update_where (\<lambda>r. ik_id r = ik_id row) (complete_key code b) (t_idempotency (tables w))) =
      filter (\<lambda>k. ik_merchant k = m) (t_idempotency (tables w))" for code b
    using assms by (intro filter_update_where) (simp add: complete_key_def)
  then have mark: "same_tenant m (tables w) (tables (snd (run (MarkCompleted (ik_id row) code b) w)))"
    for code b
    by (auto simp: run_def Let_def MarkCompleted_def same_tenant_def split: fault.splits
        intro!: key_sum_cong)
  show ?thesis using del mark by (auto simp: finish_phase_def Let_def split: outcome.split)
qed

lemma wrapped_isolated:
  assumes none: "tx_open w = None" and con: "consistent (tables w)" and keys: "keys_ok (tables w)"
    and h: "(path, h) \<in> set (money_handlers L bank)" and c: "MerchantID c = Some m" and ne: "m \<noteq> m'"
    and run: "WithIdempotency L h c rq w = (out, w')"
  shows "same_tenant m' (tables w) (tables w')"
proof -
  obtain res w1 where cl: "claim_phase L c rq w = (res, w1)" by (cases "claim_phase L c rq w")
  have w1: "tx_open w1 = None" "consistent (tables w1)"
    using withinD[OF steady_server.claim_within cl, of "grows (tables w)"] none con
      growth.money_invariant_axioms
    by (simp_all add: keeps_steady_def steady_def grows_def)
  from cl show ?thesis
  proof (cases rule: claim_cases)
    case same
    with run cl have "w' = w1" by (simp add: WithIdempotency_def)
    with same show ?thesis by (simp add: same_tenant_def)
  next
    case (inserted m0 key hash row)
    note ins = keys_ok_insert[OF inserted(2) keys]
    have row: "ik_merchant row = m" using ins(3) inserted(1) c by (simp add: slot_def)
    have "tables w1 = (tables w)\<lparr>t_idempotency := t_idempotency (tables w) @ [row]\<rparr>"
      using inserted(2) by (auto simp: InsertInFlight_def Let_def split: if_splits)
    then have s1: "same_tenant m' (tables w) (tables w1)"
      using row ne by (auto simp: same_tenant_def intro!: key_sum_cong)
    from inserted(3) show ?thesis
    proof (elim disjE exE)
      fix o1 assume "res = Inl o1"
      with run cl have "w' = w1" by (simp add: WithIdempotency_def)
      with s1 show ?thesis by simp
    next
      fix b assume res: "res = Inr (row, b)"
      obtain o2 w2 where h2: "h c (restored rq b) w1 = (o2, w2)" by (cases "h c (restored rq b) w1")
      have "within (isolates m') (h c (restored rq b))"
        using tenant.money_within[OF h, of c m'] c ne by simp
      from withinD[OF this h2] w1 have s2: "same_tenant m' (tables w1) (tables w2)"
        by (simp add: isolates_def)
      have t2: "t_idempotency (tables w2) = t_idempotency (tables w1)"
        using withinD[OF money_spares.money_within[OF h TrueI] h2] w1(1) by (simp add: spares_def)
      have "row \<in> set (t_idempotency (tables w1))" by (simp add: ins(2))
      then have "same_tenant m' (tables w2) (tables (finish_phase L row o2 w2))"
        using keys_ok_id[OF ins(1)] row ne by (intro finish_isolated) (auto simp: t2)
      moreover have "w' = finish_phase L row o2 w2"
        using run cl res h2 by (auto simp: WithIdempotency_def)
      ultimately show ?thesis using s1 s2 by (blast intro: same_tenant_trans)
    qed
  qed
qed

text \<open>C9: A request never touches a merchant for whom its credential does not stand: whatever route,
  intent id, idempotency key or endpoint id it names, that merchant's intents, transactions,
  events, balances, idempotency keys and endpoints are as before.\<close>

theorem tenant_isolation:
  assumes "reachable w" and "\<not> stands_for L w rq m"
  shows "same_tenant m (tables w) (tables (snd (serve L bank rq w)))"
proof -
  obtain out w' where s: "serve L bank rq w = (out, w')" by (cases "serve L bank rq w")
  then have "same_tenant m (tables w) (tables w')"
  proof (cases rule: serve_cases)
    case reads
    then show ?thesis by (simp add: untouched_def same_tenant_def)
  next
    case (money k c c0 path h w1 out1)
    have "ak_merchant k \<noteq> m" using money(1) assms(2) by (auto simp: stands_for_def)
    with money wrapped_isolated[of w1 path h L bank c "ak_merchant k" m rq out1 w']
      reachable_closed[OF assms(1)] reachable_consistent[OF assms(1)] reachable_keys[OF assms(1)]
    show ?thesis by (simp add: untouched_def)
  next
    case (settings m0 c meth path h w1 out1)
    have "m0 \<noteq> m" using settings(1) assms(2) by auto
    with settings(2) show ?thesis
      by (auto simp: settings_of_def same_tenant_def intro!: key_sum_cong)
  qed
  with s show ?thesis by simp
qed

section \<open>A server with credentials\<close>

text \<open>A freshly booted development server, and a request with its secret key that creates an intent.\<close>

definition shop_lib :: lib where
  "shop_lib = dev_lib\<lparr>lb_create := \<lambda>b. Some \<lparr>cq_amount = 500, cq_currency = ''usd'',
     cq_metadata = [], cq_escrow = False, cq_payee = [], cq_fee = None\<rparr>\<rparr>"

definition shop_request :: request where
  "shop_request = \<lparr>rq_method = ''POST'', rq_path = [''v1'', ''payment_intents''],
     rq_uri = ''/v1/payment_intents'',
     rq_header = (\<lambda>h. if h = ''Authorization'' then ''Bearer sk_test_nempay_secret''
       else if h = ''Idempotency-Key'' then ''key-1'' else []),
     rq_query = (\<lambda>k. []), rq_body = Body [] False\<rparr>"

definition shop_start :: world where
  "shop_start = exec (BootOp shop_lib) demo_start"

definition shop_served :: world where
  "shop_served = exec (ServeOp shop_lib demo_bank shop_request) shop_start"

lemma reachable_shop: "reachable shop_start" "reachable shop_served"
  unfolding shop_served_def shop_start_def by (intro reachable.after reachable_demo_start)+

lemma shop_bearer: "bearerToken shop_request = Some devSecretKey"
  by code_simp

lemma shop_keys: "\<forall>k \<in> set (t_api_keys (tables shop_start)). ak_merchant k = fixedMerchant"
  by code_simp

lemma shop_stands_for: "stands_for shop_lib shop_start shop_request m \<Longrightarrow> m = fixedMerchant"
  using shop_keys
  by (auto simp: stands_for_def presents_def shop_bearer verifyToken_def verify_typ_def parseToken_def
      shop_lib_def dev_lib_def plain_lib_def split: option.splits)

theorem tenant_isolation_witness:
  "same_tenant fixedMerchantB (tables shop_start) (tables shop_served)"
  using tenant_isolation[OF reachable_shop(1), of shop_lib shop_request fixedMerchantB demo_bank]
    shop_stands_for[of fixedMerchantB]
  by (auto simp: shop_served_def fixedMerchant_def fixedMerchantB_def)

end
