(* ===== verification/Requests.thy ===== *)
theory Requests
  imports Guards
begin

text \<open>
  What an answer of the server says about the database, when the database works: an error leaves
  nothing behind, and a money request that was answered is answered the same way when it is sent
  again.
\<close>

section \<open>An operation that fails writes nothing\<close>

lemma in_tx_failed:
  assumes "works w" and "keeps_tx body" and "in_tx body w = (Inl e, w')"
  shows "tables w' = tables w"
proof -
  define w0 where "w0 = w\<lparr>fpos := Suc (fpos w), tx_open := Some (tables w)\<rparr>"
  have b: "begin_tx w = (Inr (), w0)"
    using assms(1) by (simp add: begin_tx_def Let_def w0_def works_def)
  obtain r1 w1 where r1: "body w0 = (r1, w1)" by (cases "body w0")
  have k: "tx_open w1 = Some (tables w)" "faults w1 = faults w"
    using assms(2) r1 by (auto simp: keeps_tx_def w0_def)
  have nf: "faults w n = NoFault" for n using assms(1) by (simp add: works_def)
  show ?thesis
  proof (cases r1)
    case (Inl e')
    with assms(3) b r1 k show ?thesis
      by (auto simp: in_tx_def bnd_def Let_def rollback_open_def)
  next
    case (Inr x)
    with assms(3) b r1 k nf show ?thesis
      by (auto simp: in_tx_def bnd_def Let_def ret_def commit_tx_def split: tx_exit.splits)
  qed
qed

lemma operations_failed:
  assumes "works w"
  shows "fst (Create m inp w) = Inl e \<Longrightarrow> tables (snd (Create m inp w)) = tables w"
    and "fst (Confirm bank i m token w) = Inl e \<Longrightarrow> tables (snd (Confirm bank i m token w)) = tables w"
    and "fst (CaptureIntent bank i m w) = Inl e \<Longrightarrow> tables (snd (CaptureIntent bank i m w)) = tables w"
    and "fst (Refund i m amount w) = Inl e \<Longrightarrow> tables (snd (Refund i m amount w)) = tables w"
    and "fst (Release i m w) = Inl e \<Longrightarrow> tables (snd (Release i m w)) = tables w"
proof -
  have tx: "fst (in_tx body w) = Inl e \<Longrightarrow> tables (snd (in_tx body w)) = tables w"
    if "keeps_tx body" for body :: "payment_intent tx_exit io"
    using in_tx_failed[OF assms that, of e "snd (in_tx body w)"] by (metis prod.collapse)
  show "fst (Confirm bank i m token w) = Inl e \<Longrightarrow> tables (snd (Confirm bank i m token w)) = tables w"
    "fst (CaptureIntent bank i m w) = Inl e \<Longrightarrow> tables (snd (CaptureIntent bank i m w)) = tables w"
    "fst (Refund i m amount w) = Inl e \<Longrightarrow> tables (snd (Refund i m amount w)) = tables w"
    "fst (Release i m w) = Inl e \<Longrightarrow> tables (snd (Release i m w)) = tables w"
    using tx[OF keeps_confirm_body] tx[OF keeps_capture_body] tx[OF keeps_refund_body]
      tx[OF keeps_release_body]
    by (simp_all add: Confirm_def CaptureIntent_def Refund_def Release_def fail_def split: if_splits)
  show "fst (Create m inp w) = Inl e \<Longrightarrow> tables (snd (Create m inp w)) = tables w"
    using assms
    by (auto simp: Create_def Let_def fail_def run_works split: sum.splits if_splits option.splits)
qed

text \<open>Every answer of a wrapped or a reading handler but 200 comes with unchanged tables.\<close>

definition accepted :: "outcome \<Rightarrow> bool" where
  "accepted out \<longleftrightarrow> (\<exists>resp. out = Answer resp \<and> rs_status resp = 200)"

definition refused :: "outcome \<Rightarrow> bool" where
  "refused out \<longleftrightarrow> (\<exists>resp. out = Answer resp \<and> 400 \<le> rs_status resp)"

lemma verdicts [simp]:
  "accepted (respond s b) \<longleftrightarrow> s = 200" "refused (respond s b) \<longleftrightarrow> 400 \<le> s"
  "accepted (respondError s t c msg p) \<longleftrightarrow> s = 200" "refused (respondError s t c msg p) \<longleftrightarrow> 400 \<le> s"
  by (auto simp: accepted_def refused_def respond_def respondError_def)

lemma error_verdicts [simp]:
  "refused (money_answer (Inl e))" "accepted (money_answer (Inr x))" "refused (create_error e)"
  "refused (failed code msg)" "refused bad_id"
  by (auto simp: money_answer_def mapMoneyError_def create_error_def failed_def bad_id_def
      split: error.split)

definition answers :: "world \<Rightarrow> outcome \<times> world \<Rightarrow> bool" where
  "answers w r \<longleftrightarrow> accepted (fst r) \<or> refused (fst r) \<and> tables (snd r) = tables w"

lemma answers_say: "refused out \<Longrightarrow> answers w (say out w)"
  by (simp add: answers_def say_def)

lemma answers_op:
  assumes "\<And>e. fst (m w) = Inl e \<Longrightarrow> tables (snd (m w)) = tables w"
    and "\<And>e. refused (out (Inl e))" and "\<And>x. accepted (out (Inr x))"
  shows "answers w (and_then m (\<lambda>r. say (out r)) w)"
  using assms
  by (cases "m w"; cases "fst (m w)") (auto simp: answers_def and_then_def say_def)

lemma answers_run:
  assumes "works w" and "\<And>e. refused (out (Inl e))" and "\<And>x. accepted (out (Inr x))"
  shows "answers w (and_then (run f) (\<lambda>r. say (out r)) w)"
  by (rule answers_op) (use assms in \<open>auto simp: run_works split: sum.splits\<close>)

lemma answers_merchant:
  "(\<And>m. answers w (k m w)) \<Longrightarrow> answers w (with_merchant msg c k w)"
  by (auto simp: with_merchant_def answers_def split: option.split)

lemma answers_option:
  "answers w (f w) \<Longrightarrow> (\<And>x. answers w (g x w)) \<Longrightarrow>
   answers w ((case s of None \<Rightarrow> f | Some x \<Rightarrow> g x) w)"
  by (cases s) auto

lemma answers_if: "answers w (f w) \<Longrightarrow> answers w (g w) \<Longrightarrow> answers w ((if b then f else g) w)"
  by simp

lemma answers_prod: "(\<And>x y. answers w (g x y w)) \<Longrightarrow> answers w ((case s of (x, y) \<Rightarrow> g x y) w)"
  by (cases s) auto

lemma answers_id: "(\<And>m i. answers w (k m i w)) \<Longrightarrow> answers w (authAndID L c k w)"
  unfolding authAndID_def by (intro answers_merchant answers_option answers_say) simp_all

lemmas answered = answers_say answers_merchant answers_option answers_if answers_prod answers_id

lemma money_answers:
  assumes "(path, h) \<in> set (money_handlers L bank)" and "works w"
  shows "answers w (h c rq w)"
proof -
  have "answers w (intents_create L c rq w)"
    unfolding intents_create_def
    by (intro answered answers_op operations_failed assms(2)) (auto split: sum.split)
  moreover have "answers w (intents_confirm L bank c rq w)"
    unfolding intents_confirm_def Let_def
    by (intro answered answers_op operations_failed assms(2)) auto
  moreover have "answers w (intents_capture L bank c rq w)"
    unfolding intents_capture_def
    by (intro answered answers_op operations_failed assms(2)) auto
  moreover have "answers w (intents_refund L c rq w)"
    unfolding intents_refund_def
    by (intro answered answers_op operations_failed assms(2)) auto
  moreover have "answers w (intents_release L c rq w)"
    unfolding intents_release_def
    by (intro answered answers_op operations_failed assms(2)) auto
  ultimately show ?thesis using assms(1) by (auto simp: money_handlers_def)
qed

lemma view_answers:
  assumes "(meth, path, h) \<in> set (read_handlers L)" and "works w"
  shows "answers w (h c rq w)"
proof -
  note split = sum.split if_split
  have get: "fst (Get i m w) = Inl e \<Longrightarrow> tables (snd (Get i m w)) = tables w" for i m e
    using assms(2) by (auto simp: Get_def map_err_def run_works split: sum.splits prod.splits)
  have "answers w (intents_list L c rq w)"
    unfolding intents_list_def Intents.List_def Let_def
    by (intro answered answers_run assms(2)) (auto split: split)
  moreover have "answers w (intents_get L c rq w)"
    unfolding intents_get_def
    by (intro answered answers_op get) (auto split: split)
  moreover have "answers w (portal_ledger L c rq w)"
  proof -
    have "accepted (fst (portal_ledger L c rq w)) \<or> refused (fst (portal_ledger L c rq w))"
      by (auto simp: portal_ledger_def with_merchant_def and_then_def say_def
          split: option.split prod.split sum.split)
    moreover have "untouched w (snd (portal_ledger L c rq w))"
      using reading.views_within(6) by (simp add: within_def)
    ultimately show ?thesis by (auto simp: answers_def untouched_def)
  qed
  moreover have "answers w (portal_balances c rq w)" "answers w (portal_webhookEvents c rq w)"
    "answers w (portal_apiKeys c rq w)" "answers w (portal_listEndpoints c rq w)"
    "answers w (portal_createEndpoint L c rq w)" "answers w (portal_disableEndpoint L c rq w)"
    unfolding portal_balances_def portal_webhookEvents_def portal_apiKeys_def portal_listEndpoints_def
      portal_createEndpoint_def portal_disableEndpoint_def
    by (intro answered answers_run assms(2); auto split: split)+
  ultimately show ?thesis using assms(1) by (auto simp: read_handlers_def)
qed

section \<open>Behind an idempotency key\<close>

text \<open>
  A request that adds a key, over a database that works: it names a key, it was the first to
  use it, and its answer, below 500, is stored; every other request leaves the keys as they are.
\<close>

lemma wrapped_fresh:
  assumes w: "works w" "keys_ok (tables w)" and h: "(path, h) \<in> set (money_handlers L bank)"
    and run: "WithIdempotency L h c rq w = (out, w')"
  obtains (kept) "tables w' = tables w"
    | (stored) m b r resp where "MerchantID c = Some m" and "rq_header rq ''Idempotency-Key'' \<noteq> []"
      and "read_body rq = Inr b" and "out = Answer resp" and "200 \<le> rs_status resp" and "rs_status resp < 500"
      and "t_idempotency (tables w') = t_idempotency (tables w) @ [r]"
      and "slot r = (m, rq_header rq ''Idempotency-Key'')"
      and "ik_hash r = Fingerprint L (rq_method rq) (rq_uri rq) b" and "ik_status r = ''completed''"
      and "ik_code r = Some (word_of_int (rs_status resp))"
      and "(case ik_body r of None \<Rightarrow> [] | Some x \<Rightarrow> x) = payload_bytes L (rs_body resp)"
      and "t_api_keys (tables w') = t_api_keys (tables w)"
      and "rs_status resp = 200 \<or> tables w' = (tables w)\<lparr>t_idempotency := t_idempotency (tables w) @ [r]\<rparr>"
proof (cases "\<exists>m b. MerchantID c = Some m \<and> rq_header rq ''Idempotency-Key'' \<noteq> [] \<and> read_body rq = Inr b")
  case False
  with run have "tables w' = tables w"
    by (auto simp: WithIdempotency_def claim_phase_def Let_def
        split: option.splits sum.splits if_splits)
  then show thesis by (rule kept)
next
  case True
  let ?key = "rq_header rq ''Idempotency-Key''"
  from True obtain m b where c: "MerchantID c = Some m" "?key \<noteq> []" "read_body rq = Inr b" by blast
  show thesis
  proof (cases "(m, ?key) \<in> slot ` set (t_idempotency (tables w)) \<or>
      rng w (rpos w) \<in> ik_id ` set (t_idempotency (tables w))")
    case True
    then have ins: "InsertInFlight m ?key hash (rng w (rpos w)) (clock w) (tables w) = Inl PgUniqueViolation"
      for hash by (auto simp: InsertInFlight_def slot_def)
    let ?hash = "Fingerprint L (rq_method rq) (rq_uri rq) b"
    let ?w1 = "w\<lparr>fpos := Suc (fpos w), rpos := Suc (rpos w)\<rparr>"
    obtain o3 w3 where rep: "replayOrConflict m ?key ?hash ?w1 = (o3, w3)"
      by (cases "replayOrConflict m ?key ?hash ?w1")
    with run c ins w(1) have "w' = w3"
      by (simp add: WithIdempotency_def claim_phase_def Let_def and_then_def run_works)
    with rep replay_reads[of m ?key ?hash ?w1] have "tables w' = tables w" by simp
    then show thesis by (rule kept)
  next
    case False
    then have fresh: "(m, ?key) \<notin> slot ` set (t_idempotency (tables w))"
      "rng w (rpos w) \<notin> ik_id ` set (t_idempotency (tables w))" by simp_all
    show thesis
    proof (rule first_run[OF w c(1) refl c(2,3) fresh])
      fix row w1 assume cl: "claim_phase L c rq w = (Inr (row, b), w1)" and w1: "works w1"
        and row: "slot row = (m, ?key)" "ik_hash row = Fingerprint L (rq_method rq) (rq_uri rq) b"
          "ik_id row \<notin> ik_id ` set (t_idempotency (tables w))"
        and t1: "tables w1 = (tables w)\<lparr>t_idempotency := t_idempotency (tables w) @ [row]\<rparr>"
      obtain o2 w2 where h2: "h c (restored rq b) w1 = (o2, w2)" by (cases "h c (restored rq b) w1")
      have sp: "spares w1 w2"
        using money_spares.money_within[OF h TrueI] h2 by (rule withinD)
      then have w2: "works w2" "t_idempotency (tables w2) = t_idempotency (tables w) @ [row]"
        "t_api_keys (tables w2) = t_api_keys (tables w)"
        using w1 by (auto simp: spares_def works_def t1)
      have out: "o2 = out" "w' = finish_phase L row out w2"
        using run cl h2 by (auto simp: WithIdempotency_def)
      have ne: "\<forall>x \<in> set (t_idempotency (tables w)). ik_id x \<noteq> ik_id row"
        using row(3) by (metis image_eqI)
      have other: "update_where (\<lambda>r. ik_id r = ik_id row) f (t_idempotency (tables w)) =
          t_idempotency (tables w)" for f
        using ne by (auto simp: update_where_def intro!: map_idI)
      have mark: "tables (snd (run (MarkCompleted (ik_id row) code bd) w2)) = (tables w2)\<lparr>t_idempotency :=
          t_idempotency (tables w) @ [complete_key code bd row]\<rparr>" for code bd
        using w2 other by (simp add: run_works MarkCompleted_def) (simp add: update_where_def)
      have del: "tables (snd (run (DeleteKey (ik_id row)) w2)) =
          (tables w2)\<lparr>t_idempotency := t_idempotency (tables w)\<rparr>"
        using w2 ne by (auto simp: run_works DeleteKey_def filter_id_conv)
      have "answers w1 (o2, w2)" using money_answers[OF h w1] h2 by metis
      then obtain resp where resp: "out = Answer resp" "200 \<le> rs_status resp"
          "rs_status resp = 200 \<or> tables w2 = tables w1"
        by (auto simp: answers_def accepted_def refused_def out)
      show thesis
      proof (cases "500 \<le> rs_status resp")
        case True
        with resp del t1 out show thesis by (intro kept) (simp add: finish_phase_def)
      next
        case False
        let ?body = "payload_bytes L (rs_body resp)"
        let ?r = "complete_key (Some (word_of_int (rs_status resp))) (if ?body = [] then None else Some ?body) row"
        have t': "tables w' = (tables w2)\<lparr>t_idempotency := t_idempotency (tables w) @ [?r]\<rparr>"
          using False resp out mark by (simp add: finish_phase_def Let_def)
        show thesis
          by (rule stored[of m b resp ?r])
             (use c resp False row t' t1 w2 in \<open>auto simp: slot_def complete_key_def\<close>)
      qed
    qed
  qed
qed

section \<open>Answers of the server\<close>

lemma with_headers_answer:
  "with_headers hs out = Answer resp \<Longrightarrow> out = Answer r1 \<Longrightarrow>
   resp = r1\<lparr>rs_headers := hs @ rs_headers r1\<rparr>"
  by (simp add: with_headers_def)

lemma untouched_works: "untouched w w1 \<Longrightarrow> works w \<Longrightarrow> works w1"
  by (simp add: untouched_def works_def)

text \<open>C13: Over a database that works an error leaves no trace: a request that is answered with an
  internal error or a timeout (500 and above) has changed nothing at all, and one that is refused
  (400 and above) nothing or has added one idempotency record, behind those there were: completed,
  under the key the request names, for the merchant whose key came with it and for the fingerprint
  of just this request, with the status and the bytes of the refusal.\<close>

theorem errors_leave_no_trace:
  assumes "reachable w" and "works w" and "serve L bank rq w = (Answer resp, w')"
  shows "(500 \<le> rs_status resp \<longrightarrow> tables w' = tables w) \<and>
    (400 \<le> rs_status resp \<longrightarrow> tables w' = tables w \<or>
      (\<exists>r k b. tables w' = (tables w)\<lparr>t_idempotency := t_idempotency (tables w) @ [r]\<rparr> \<and>
         presents L w rq k \<and> ik_merchant r = ak_merchant k \<and>
         rq_header rq ''Idempotency-Key'' \<noteq> [] \<and> ik_key r = rq_header rq ''Idempotency-Key'' \<and>
         read_body rq = Inr b \<and> ik_hash r = Fingerprint L (rq_method rq) (rq_uri rq) b \<and>
         ik_status r = ''completed'' \<and> map_option sint (ik_code r) = Some (rs_status resp) \<and>
         (case ik_body r of None \<Rightarrow> [] | Some x \<Rightarrow> x) = payload_bytes L (rs_body resp)))"
  using assms(3)
proof (cases rule: serve_cases)
  case reads
  then show ?thesis by (simp add: untouched_def)
next
  case (money k c c0 path h w1 out1)
  have t: "tables w1 = tables w" using money(6) by (simp add: untouched_def)
  have w1: "works w1" "keys_ok (tables w1)"
    using untouched_works[OF money(6) assms(2)] reachable_keys[OF assms(1)] t by simp_all
  show ?thesis
  proof (cases rule: wrapped_fresh[OF w1 money(5,7)])
    case 1
    with t show ?thesis by simp
  next
    case (2 m b r r1)
    have resp: "rs_status resp = rs_status r1" "rs_body resp = rs_body r1"
      using with_headers_answer[OF money(8)[symmetric] 2(4)] by simp_all
    have "m = ak_merchant k" using 2(1) money(3) by simp
    moreover have "sint (word_of_int (rs_status r1) :: int32) = rs_status r1"
      using 2(5,6) by (simp add: signed_of_int signed_take_bit_int_eq_self)
    moreover have "tables w' = (tables w)\<lparr>t_idempotency := t_idempotency (tables w) @ [r]\<rparr>"
      if "400 \<le> rs_status r1" using 2(14) t that by auto
    ultimately show ?thesis
      using 2(2,3,6,8,9,10,11,12) money(1) resp by (auto simp: slot_def)
  qed
next
  case (settings m c meth path h w1 out1)
  have t: "tables w1 = tables w" using settings(5) by (simp add: untouched_def)
  have "answers w1 (out1, w')"
    using view_answers[OF settings(3) untouched_works[OF settings(5) assms(2)]] settings(6) by metis
  then obtain r1 where r1: "out1 = Answer r1" "rs_status r1 = 200 \<or> tables w' = tables w1"
    by (auto simp: answers_def accepted_def refused_def)
  have "rs_status resp = rs_status r1"
    using with_headers_answer[OF settings(7)[symmetric] r1(1)] by simp
  with r1(2) t show ?thesis by auto
qed

lemma fst_and_then: "fst (and_then m (\<lambda>r. say (f r)) u) = f (fst (m u))"
  by (simp add: and_then_def say_def split: prod.split)

lemma apiKeyAuth_again:
  assumes "works w" and "works v"
    and "\<And>token. bearerToken rq = Some token \<Longrightarrow> find (opens_with L token) (t_api_keys (tables v)) =
      find (opens_with L token) (t_api_keys (tables w))"
  shows "fst (apiKeyAuth L c rq v) = fst (apiKeyAuth L c rq w)"
proof -
  have "fst (lookupAPIKey L token v) = fst (lookupAPIKey L token w)" if "bearerToken rq = Some token" for token
    using assms(1,2) assms(3)[OF that] by (simp add: lookup_exact works_def)
  then have "fst (key_auth L token c v) = fst (key_auth L token c w)" if "bearerToken rq = Some token" for token
    using that by (simp add: key_auth_def fst_and_then)
  then show ?thesis by (simp add: apiKeyAuth_def split: option.split)
qed

text \<open>C8: A client may retry: if a request, over a database that works, left an idempotency record, then
  the same request, sent again over a database that works, at any later time and whatever has
  happened to the tables in between, gets the same status and the same bytes, marked as a replay,
  and writes nothing then, as long as its record is still there (it is swept a day after it was
  made) and its bearer token still opens the same key row.\<close>

theorem retry_replays:
  assumes "reachable w" and "works w" and "serve L bank rq w = (Answer resp, w')"
    and "t_idempotency (tables w') \<noteq> t_idempotency (tables w)"
    and "reachable v" and "works v"
    and "set (t_idempotency (tables w')) - set (t_idempotency (tables w)) \<subseteq> set (t_idempotency (tables v))"
    and "\<And>token. bearerToken rq = Some token \<Longrightarrow> find (opens_with L token) (t_api_keys (tables v)) =
      find (opens_with L token) (t_api_keys (tables w'))"
  shows "tables (snd (serve L bank rq v)) = tables v \<and>
    (\<exists>again. fst (serve L bank rq v) = Answer again \<and> rs_status again = rs_status resp \<and>
       (''Idempotent-Replayed'', ''true'') \<in> set (rs_headers again) \<and>
       payload_bytes L (rs_body again) = payload_bytes L (rs_body resp))"
  using assms(3)
proof (cases rule: serve_cases)
  case reads
  with assms(4) show ?thesis by (simp add: untouched_def)
next
  case (settings m c meth path h w1 out1)
  with assms(4) show ?thesis by (auto simp: settings_of_def)
next
  case (money k c c0 path h w1 out1)
  have t: "tables w1 = tables w" using money(6) by (simp add: untouched_def)
  have w1: "works w1" "keys_ok (tables w1)"
    using untouched_works[OF money(6) assms(2)] reachable_keys[OF assms(1)] t by simp_all
  show ?thesis
  proof (cases rule: wrapped_fresh[OF w1 money(5,7)])
    case 1
    with t assms(4) show ?thesis by simp
  next
    case (2 m b r r1)
    obtain a v1 where a: "apiKeyAuth L c0 rq v = (a, v1)" by (cases "apiKeyAuth L c0 rq v")
    have "a = Inr c"
      using apiKeyAuth_again[OF assms(2,6), of rq L c0] assms(8) 2(13) t money(9) a by simp
    have v1: "untouched v v1" by (rule withinD[OF reading.apiKeyAuth_within a])
    then have tv: "tables v1 = tables v" "works v1" "keys_ok (tables v1)"
      using untouched_works[OF v1 assms(6)] reachable_keys[OF assms(5)] by (simp_all add: untouched_def)
    have serve: "serve L bank rq v =
        (case WithIdempotency L h c rq v1 of (o1, v') \<Rightarrow> (with_headers (cors_headers L rq) o1, v'))"
      using money(10)[of v] a \<open>a = Inr c\<close> money(4)
      by (simp add: write_route_def guarded_def secretOnly_def require_kind_def)
    have "keys_ok (tables w')"
      using reachable_keys[OF reachable.after[OF assms(1), of "ServeOp L bank rq"]] assms(3) by simp
    then have "r \<notin> set (t_idempotency (tables w))" using 2(7) t by (auto simp: keys_ok_def)
    then have "r \<in> set (t_idempotency (tables v1))" using 2(7) tv(1) t assms(7) by auto
    note dup = duplicate_answer[OF tv(2,3) 2(1) refl 2(2,3) this 2(8), of L h]
    have "sint (word_of_int (rs_status r1) :: int32) = rs_status r1"
      using 2(5,6) by (simp add: signed_of_int signed_take_bit_int_eq_self)
    with dup 2(9-12) have d: "tables (snd (WithIdempotency L h c rq v1)) = tables v1"
      "\<exists>again. fst (WithIdempotency L h c rq v1) = Answer again \<and> rs_status again = rs_status r1 \<and>
         rs_headers again = [(''Idempotent-Replayed'', ''true'')] \<and>
         payload_bytes L (rs_body again) = payload_bytes L (rs_body r1)"
      by (auto simp: replay_def payload_bytes_def split: option.splits)
    have resp: "resp = r1\<lparr>rs_headers := cors_headers L rq @ rs_headers r1\<rparr>"
      using with_headers_answer[OF money(8)[symmetric] 2(4)] .
    obtain o1 v' where o1: "WithIdempotency L h c rq v1 = (o1, v')" by (cases "WithIdempotency L h c rq v1")
    with d serve tv(1) resp show ?thesis by (auto simp: with_headers_def)
  qed
qed

section \<open>The demo request\<close>

lemma shop_works: "works shop_start"
proof -
  have "works demo_start" by (simp add: works_def demo_start_def)
  from works_exec[OF reachable_demo_start this] show ?thesis unfolding shop_start_def .
qed

definition shop_ctx :: ctx where
  "shop_ctx = setAuth no_ctx fixedMerchant ''secret''"

definition shop_admitted :: world where
  "shop_admitted = snd (apiKeyAuth shop_lib no_ctx shop_request shop_start)"

lemma shop_auth: "apiKeyAuth shop_lib no_ctx shop_request shop_start = (Inr shop_ctx, shop_admitted)"
proof -
  have "fst (apiKeyAuth shop_lib no_ctx shop_request shop_start) = Inr shop_ctx" by code_simp
  then show ?thesis by (simp add: shop_admitted_def prod_eq_iff)
qed

lemma shop_body: "read_body shop_request = Inr []"
  by (simp add: read_body_def shop_request_def)

definition shop_wrapped :: "outcome \<times> world" where
  "shop_wrapped = WithIdempotency shop_lib (intents_create shop_lib) shop_ctx shop_request shop_admitted"

lemma shop_answer: "status_of (fst shop_wrapped) = 200"
  unfolding shop_wrapped_def WithIdempotency_def claim_phase_def shop_body by code_simp

lemma shop_stored: "length (t_idempotency (tables (snd shop_wrapped))) = 1"
  unfolding shop_wrapped_def WithIdempotency_def claim_phase_def shop_body by code_simp

lemma shop_empty: "t_idempotency (tables shop_start) = []"
  by code_simp

lemma shop_route:
  assumes "hs ''Origin'' = []"
  shows "serve shop_lib demo_bank (shop_request\<lparr>rq_header := hs\<rparr>) w =
     (case write_route shop_lib (intents_create shop_lib) no_ctx (shop_request\<lparr>rq_header := hs\<rparr>) w of
        (out, w') \<Rightarrow> (with_headers [] out, w'))"
proof -
  have "cors_headers shop_lib (shop_request\<lparr>rq_header := hs\<rparr>) = []"
    by (simp add: cors_headers_def assms)
  moreover have "\<not> slash_redirects rs (shop_request\<lparr>rq_header := hs\<rparr>)" for rs
    by (simp add: slash_redirects_def shop_request_def)
  ultimately show ?thesis
    by (simp add: serve_def Let_def)
       (simp add: shop_request_def dispatch_def routes_def public_routes_def token_routes_def
         write_routes_def money_handlers_def hits_def no_ctx_def)
qed

lemma shop_own_route:
  "serve shop_lib demo_bank shop_request w =
     (case write_route shop_lib (intents_create shop_lib) no_ctx shop_request w of
        (out, w') \<Rightarrow> (with_headers [] out, w'))"
proof -
  have "shop_request = shop_request\<lparr>rq_header := rq_header shop_request\<rparr>" by simp
  moreover have "rq_header shop_request ''Origin'' = []" by (simp add: shop_request_def)
  ultimately show ?thesis using shop_route by metis
qed

lemma shop_serve: "serve shop_lib demo_bank shop_request shop_start =
    (with_headers [] (fst shop_wrapped), snd shop_wrapped)"
  by (simp add: shop_own_route write_route_def guarded_def shop_auth secretOnly_def require_kind_def
      shop_wrapped_def split: prod.split)
     (simp add: shop_ctx_def setAuth_def KeyKind_def no_ctx_def)

lemma shop_replays: "\<exists>resp. serve shop_lib demo_bank shop_request shop_start = (Answer resp, shop_served)"
  using shop_serve by (cases "fst shop_wrapped") (auto simp: shop_served_def with_headers_def)

definition bare_request :: request where
  "bare_request = shop_request\<lparr>rq_header := \<lambda>h. []\<rparr>"

lemma bare_answer: "\<exists>resp. serve shop_lib demo_bank bare_request shop_start = (Answer resp, shop_start) \<and>
    rs_status resp = 401"
  by (simp add: bare_request_def shop_route write_route_def guarded_def apiKeyAuth_def bearerToken_def
      respondError_def respond_def with_headers_def)

theorem errors_leave_no_trace_witness:
  "\<exists>resp w'. serve shop_lib demo_bank bare_request shop_start = (Answer resp, w') \<and>
     rs_status resp = 401 \<and> tables w' = tables shop_start"
proof -
  obtain resp where r: "serve shop_lib demo_bank bare_request shop_start = (Answer resp, shop_start)"
      "rs_status resp = 401" using bare_answer by blast
  have "rq_header bare_request ''Idempotency-Key'' = []" by (simp add: bare_request_def)
  with errors_leave_no_trace[OF reachable_shop(1) shop_works r(1)] r show ?thesis by fastforce
qed

text \<open>The shop asks again seven microseconds later, when another merchant has joined.\<close>

definition shop_later :: world where
  "shop_later = exec (NewMerchant ''other'') (exec (Tick 7) shop_served)"

theorem retry_replays_witness:
  "tables (snd (serve shop_lib demo_bank shop_request shop_later)) = tables shop_later \<and>
   t_idempotency (tables shop_later) \<noteq> []"
proof -
  obtain resp where resp: "serve shop_lib demo_bank shop_request shop_start = (Answer resp, shop_served)"
    using shop_replays by blast
  have new: "t_idempotency (tables shop_served) \<noteq> t_idempotency (tables shop_start)"
    using shop_stored shop_empty by (auto simp: shop_served_def shop_serve)
  have r: "reachable shop_later" unfolding shop_later_def by (intro reachable.after reachable_shop(2))
  have w: "works shop_later"
    unfolding shop_later_def shop_served_def
    by (intro works_exec reachable.after reachable_shop(1) shop_works)
  have t: "t_idempotency (tables shop_later) = t_idempotency (tables shop_served)"
      "t_api_keys (tables shop_later) = t_api_keys (tables shop_served)"
    by (auto simp: shop_later_def run_def CreateMerchant_def Let_def split: fault.splits sum.splits if_splits)
  show ?thesis
    using retry_replays[OF reachable_shop(1) shop_works resp new r w] t new shop_empty by auto
qed

end
