(* ===== verification/Hazards.thy ===== *)
theory Hazards
  imports Requests
begin

text \<open>
  Two runs of the server that its comments do not lead one to expect: a create whose answer could
  not be stored is carried out again after the sweep over orphaned keys, and a publishable key
  reaches a route that writes. Both start from a freshly booted development server.
\<close>

section \<open>An answer that is not stored\<close>

text \<open>The database fails once, in the thirteenth exchange: the one that would store the answer.\<close>

definition lost_start :: world where
  "lost_start = exec (BootOp shop_lib) (demo_start\<lparr>faults := \<lambda>n. if n = 12 then Fault else NoFault\<rparr>)"

lemma reachable_lost: "reachable lost_start"
  unfolding lost_start_def by (intro reachable.after reachable.start) (simp_all add: demo_start_def)

lemma lost_empty: "t_intents (tables lost_start) = []"
  by code_simp

lemma shop_steps: "serve shop_lib demo_bank shop_request w =
   (case apiKeyAuth shop_lib no_ctx shop_request w of
      (Inl out, w1) \<Rightarrow> (with_headers [] out, w1)
    | (Inr c, w1) \<Rightarrow>
        (case secretOnly c shop_request w1 of
           (Inl out, w2) \<Rightarrow> (with_headers [] out, w2)
         | (Inr c', w2) \<Rightarrow>
             (case WithIdempotency shop_lib (intents_create shop_lib) c' shop_request w2 of
                (out, w3) \<Rightarrow> (with_headers [] out, w3))))"
  unfolding shop_own_route write_route_def guarded_def by (auto split: prod.split sum.split)

lemmas shop_run = shop_steps WithIdempotency_def claim_phase_def shop_body

definition lost_first :: "outcome \<times> world" where
  "lost_first = serve shop_lib demo_bank shop_request lost_start"

definition lost_retry :: "outcome \<times> world" where
  "lost_retry = serve shop_lib demo_bank shop_request (snd lost_first)"

definition lost_later :: "outcome \<times> world" where
  "lost_later = serve shop_lib demo_bank shop_request
     (work IdemTick ((snd lost_retry)\<lparr>clock := clock (snd lost_retry) + seconds 301\<rparr>))"

lemmas lost_defs = lost_later_def lost_retry_def lost_first_def

lemma lost_first_answer: "status_of (fst lost_first) = 200"
  unfolding lost_defs shop_run by code_simp

lemma lost_retry_answer: "status_of (fst lost_retry) = 409"
  unfolding lost_defs shop_run by code_simp

lemma lost_later_result:
  "case lost_later of (out, w) \<Rightarrow> status_of out = 200 \<and> length (t_intents (tables w)) = 2"
  unfolding lost_defs shop_run by code_simp

text \<open>C36: The error of storing an answer is ignored, and then the key does not protect: a create that
  was answered 200 is refused as still in flight until the sweep takes its key for an orphan, and
  after that the same request, with the same idempotency key, creates a second intent.\<close>

theorem lost_bookkeeping_runs_twice:
  "\<exists>L bank rq w. reachable w \<and> t_intents (tables w) = [] \<and>
     (let (first, w1) = serve L bank rq w;
          (retry, w2) = serve L bank rq w1;
          (later, w3) = serve L bank rq (work IdemTick (w2\<lparr>clock := clock w2 + seconds 301\<rparr>))
      in status_of first = 200 \<and> status_of retry = 409 \<and> status_of later = 200 \<and>
         length (t_intents (tables w3)) = 2)"
proof (intro exI conjI)
  show "reachable lost_start" by (rule reachable_lost)
  show "t_intents (tables lost_start) = []" by (rule lost_empty)
  show "let (first, w1) = serve shop_lib demo_bank shop_request lost_start;
      (retry, w2) = serve shop_lib demo_bank shop_request w1;
      (later, w3) = serve shop_lib demo_bank shop_request
        (work IdemTick (w2\<lparr>clock := clock w2 + seconds 301\<rparr>))
    in status_of first = 200 \<and> status_of retry = 409 \<and> status_of later = 200 \<and>
       length (t_intents (tables w3)) = 2"
    using lost_first_answer lost_retry_answer lost_later_result
    unfolding lost_defs Let_def case_prod_beta by blast
qed

section \<open>A publishable key that writes\<close>

definition hook_lib :: lib where
  "hook_lib = shop_lib\<lparr>lb_endpoint := \<lambda>b. Some (''http://m'', ''s''), lb_url := \<lambda>u. Some (''http'', ''m'')\<rparr>"

definition hook_request :: request where
  "hook_request = shop_request\<lparr>rq_path := [''v1'', ''webhook_endpoints''],
     rq_uri := ''/v1/webhook_endpoints'',
     rq_header := (\<lambda>h. if h = ''Authorization'' then ''Bearer '' @ devPublishKey else [])\<rparr>"

lemma hook_served: "case serve hook_lib demo_bank hook_request shop_start of (out, w) \<Rightarrow>
   status_of out = 200 \<and> length (t_endpoints (tables w)) = 1"
  by code_simp

lemma hook_not_secret: "\<not> (\<exists>k. presents hook_lib shop_start hook_request k \<and> ak_kind k \<noteq> ''publishable'')"
proof -
  have "bearerToken hook_request = Some devPublishKey" by code_simp
  moreover have "list_all (\<lambda>k. \<not> opens_with hook_lib devPublishKey k \<or> ak_kind k = ''publishable'')
      (t_api_keys (tables shop_start))"
    by code_simp
  ultimately show ?thesis by (auto simp: presents_def list_all_iff)
qed

lemma hook_no_session: "verifyToken hook_lib (newSessionHandler hook_lib) now token = None"
  by (simp add: hook_lib_def shop_lib_def dev_lib_def plain_lib_def verifyToken_def verify_typ_def
      parseToken_def)

text \<open>C37: A publishable key, which is made to be seen by every browser, may register a webhook endpoint
  of its merchant: a request that carries no secret key and no session, only such a key, is
  accepted and writes one.\<close>

theorem publishable_key_adds_endpoint:
  "\<exists>L bank rq w. reachable w \<and> t_endpoints (tables w) = [] \<and>
     (\<forall>k. \<not> (presents L w rq k \<and> ak_kind k \<noteq> ''publishable'')) \<and>
     (\<forall>token. verifyToken L (newSessionHandler L) (clock w) token = None) \<and>
     (let (out, w') = serve L bank rq w in status_of out = 200 \<and> length (t_endpoints (tables w')) = 1)"
proof (intro exI conjI)
  show "reachable shop_start" by (rule reachable_shop)
  show "t_endpoints (tables shop_start) = []" by code_simp
  show "\<forall>k. \<not> (presents hook_lib shop_start hook_request k \<and> ak_kind k \<noteq> ''publishable'')"
    using hook_not_secret by blast
  show "\<forall>token. verifyToken hook_lib (newSessionHandler hook_lib) (clock shop_start) token = None"
    using hook_no_session by blast
  show "let (out, w') = serve hook_lib demo_bank hook_request shop_start
    in status_of out = 200 \<and> length (t_endpoints (tables w')) = 1"
    using hook_served unfolding Let_def .
qed

end
