(* ===== verification/Contract_Book.thy ===== *)
theory Contract_Book
  imports Prelude
begin

text \<open>
  What the gateway promises, without tables, locks, transactions, faults, requests or a bank: a
  book of contracts, each in a phase, the purses of the merchants, and the news told of it. A
  contract is signed once and then moves by deeds; a deed is refused unless the contract's phase
  calls for it, and moves exactly the amounts written here. \<^verbatim>\<open>Refinement\<close> shows that the gateway
  implements this book.
\<close>

section \<open>Contracts and deeds\<close>

datatype purse =
    Receivable
  | PlatformCash
  | SegregatedCash
  | Owed
  | Escrow uuid
  | OwedTo uuid
  | Revenue

text \<open>An escrow contract names its payee and the platform's fee.\<close>

record contract =
  ct_merchant :: uuid
  ct_currency :: string
  ct_amount :: int
  ct_escrow :: "(uuid \<times> int) option"

datatype phase = Open | Authorised | Taken | Settled | Kept | PaidOut | Void | Returned | PartReturned

datatype deed = Authorise | Decline | Abandon | Take | SettleUp | GiveBack int | PayOut

text \<open>The purse that owes the money of contract \<open>u\<close>, and the one that holds it once settled.\<close>

definition owing :: "uuid \<Rightarrow> contract \<Rightarrow> purse" where
  "owing u c = (if ct_escrow c = None then Owed else Escrow u)"

definition holding :: "contract \<Rightarrow> purse" where
  "holding c = (if ct_escrow c = None then PlatformCash else SegregatedCash)"

text \<open>
  The whole of the rules: the phase a deed leads to and what it moves, debits positive. Part of
  the money is given back only by a direct contract that has been settled.
\<close>

fun perform :: "uuid \<Rightarrow> contract \<Rightarrow> phase \<Rightarrow> deed \<Rightarrow> (phase \<times> (purse \<times> int) list) option" where
  "perform u c Open Authorise = Some (Authorised, [])"
| "perform u c Open Decline = Some (Void, [])"
| "perform u c Open Abandon = Some (Void, [])"
| "perform u c Authorised Abandon = Some (Void, [])"
| "perform u c Authorised Take =
     Some (Taken, [(Receivable, ct_amount c), (owing u c, - ct_amount c)])"
| "perform u c Taken SettleUp =
     Some (if ct_escrow c = None then Settled else Kept,
       [(holding c, ct_amount c), (Receivable, - ct_amount c)])"
| "perform u c Taken (GiveBack n) =
     (if ct_escrow c = None \<and> n = ct_amount c
      then Some (Returned, [(Owed, n), (Receivable, - n)]) else None)"
| "perform u c Settled (GiveBack n) =
     (if 0 < n \<and> n \<le> ct_amount c
      then Some (if n = ct_amount c then Returned else PartReturned,
             [(Owed, n), (PlatformCash, - n)])
      else None)"
| "perform u c Kept (GiveBack n) =
     (if n = ct_amount c then Some (Returned, [(Escrow u, n), (SegregatedCash, - n)]) else None)"
| "perform u c Kept PayOut =
     (case ct_escrow c of
        None \<Rightarrow> None
      | Some (payee, fee) \<Rightarrow>
          Some (PaidOut, [(Escrow u, ct_amount c), (SegregatedCash, - ct_amount c),
             (PlatformCash, ct_amount c), (OwedTo payee, - (ct_amount c - fee)), (Revenue, - fee)]))"
| "perform u c _ _ = None"

section \<open>The book\<close>

record book =
  bk_contracts :: "uuid \<Rightarrow> (contract \<times> phase) option"
  bk_purses :: "uuid \<Rightarrow> string \<Rightarrow> purse \<Rightarrow> int"
  bk_news :: "(uuid \<times> phase) list"

definition blank :: book where
  "blank = \<lparr>bk_contracts = (\<lambda>_. None), bk_purses = (\<lambda>_ _ _. 0), bk_news = []\<rparr>"

definition fair :: "contract \<Rightarrow> bool" where
  "fair c \<longleftrightarrow> 0 < ct_amount c \<and>
     (case ct_escrow c of None \<Rightarrow> True | Some (payee, fee) \<Rightarrow> 0 \<le> fee \<and> fee \<le> ct_amount c)"

definition paid :: "(purse \<times> int) list \<Rightarrow> purse \<Rightarrow> int" where
  "paid moves q = (\<Sum>(p, n)\<leftarrow>moves. if p = q then n else 0)"

datatype act = Agree contract | Do deed

fun act_on :: "uuid \<times> act \<Rightarrow> book \<Rightarrow> book option" where
  "act_on (u, Agree c) b =
     (if bk_contracts b u = None \<and> fair c
      then Some (b\<lparr>bk_contracts := (bk_contracts b)(u \<mapsto> (c, Open))\<rparr>) else None)"
| "act_on (u, Do d) b =
     (case bk_contracts b u of
        None \<Rightarrow> None
      | Some (c, ph) \<Rightarrow>
          (case perform u c ph d of
             None \<Rightarrow> None
           | Some (ph', moves) \<Rightarrow> Some
               \<lparr>bk_contracts = (bk_contracts b)(u \<mapsto> (c, ph')),
                bk_purses = (\<lambda>m cur q. bk_purses b m cur q +
                  (if m = ct_merchant c \<and> cur = ct_currency c then paid moves q else 0)),
                bk_news = bk_news b @ [(u, ph')]\<rparr>))"

fun play :: "(uuid \<times> act) list \<Rightarrow> book \<Rightarrow> book option" where
  "play [] b = Some b"
| "play (a # as) b = (case act_on a b of None \<Rightarrow> None | Some b' \<Rightarrow> play as b')"

lemma play_append: "play (as @ bs) b = (case play as b of None \<Rightarrow> None | Some b' \<Rightarrow> play bs b')"
  by (induction as arbitrary: b) (auto split: option.splits)

lemma play_trans: "play as b = Some b' \<Longrightarrow> play bs b' = Some b'' \<Longrightarrow> play (as @ bs) b = Some b''"
  by (simp add: play_append)

section \<open>What the rules guarantee\<close>

text \<open>An invariant of the book holds however it is played; \<open>act_on\<close> is the only step.\<close>

locale book_invariant =
  fixes good :: "book \<Rightarrow> bool"
  assumes good_blank: "good blank"
    and good_act: "good b \<Longrightarrow> act_on a b = Some b' \<Longrightarrow> good b'"
begin

lemma good_play: "good b \<Longrightarrow> play as b = Some b' \<Longrightarrow> good b'"
  by (induction as arbitrary: b) (auto split: option.splits dest: good_act)

lemma good_reached: "play as blank = Some b \<Longrightarrow> good b"
  using good_play[OF good_blank] by simp

end

lemma act_on_cases:
  assumes "act_on a b = Some b'"
  obtains (sign) u c where "a = (u, Agree c)" and "bk_contracts b u = None" and "fair c"
      and "b' = b\<lparr>bk_contracts := (bk_contracts b)(u \<mapsto> (c, Open))\<rparr>"
    | (perform) u d c ph ph' moves where "a = (u, Do d)" and "bk_contracts b u = Some (c, ph)"
      and "perform u c ph d = Some (ph', moves)"
      and "b' = \<lparr>bk_contracts = (bk_contracts b)(u \<mapsto> (c, ph')),
                bk_purses = (\<lambda>m cur q. bk_purses b m cur q +
                  (if m = ct_merchant c \<and> cur = ct_currency c then paid moves q else 0)),
                bk_news = bk_news b @ [(u, ph')]\<rparr>"
proof -
  obtain u x where a: "a = (u, x)" by (cases a)
  show thesis
  proof (cases x)
    case (Agree c)
    with assms a show thesis by (intro sign) (auto split: if_splits)
  next
    case (Do d)
    with assms a show thesis by (auto split: option.splits intro: perform)
  qed
qed

text \<open>How far a contract has come; every deed takes it further, so there are at most four.\<close>

definition stage :: "phase \<Rightarrow> nat" where
  "stage ph = (case ph of Open \<Rightarrow> 0 | Authorised \<Rightarrow> 1 | Taken \<Rightarrow> 2 | Settled \<Rightarrow> 3 | Kept \<Rightarrow> 3 | _ \<Rightarrow> 4)"

lemma stage_le: "stage ph \<le> 4"
  by (simp add: stage_def split: phase.split)

lemma perform_stage: "perform u c ph d = Some (ph', moves) \<Longrightarrow> stage ph < stage ph'"
  by (cases "(u, c, ph, d)" rule: perform.cases)
     (auto simp: stage_def split: if_splits option.splits)

lemma perform_balanced: "perform u c ph d = Some (ph', moves) \<Longrightarrow> sum_list (map snd moves) = 0"
  by (cases "(u, c, ph, d)" rule: perform.cases) (auto split: if_splits option.splits)

definition told :: "book \<Rightarrow> uuid \<Rightarrow> phase list" where
  "told b u = map snd (filter (\<lambda>(v, _). v = u) (bk_news b))"

text \<open>The news of a contract are in order of its stages and end in its phase.\<close>

definition in_order :: "phase list \<Rightarrow> phase \<Rightarrow> bool" where
  "in_order ts ph \<longleftrightarrow> sorted_wrt (<) (map stage (Open # ts)) \<and> last (Open # ts) = ph"

definition well_told :: "book \<Rightarrow> bool" where
  "well_told b \<longleftrightarrow> (\<forall>u. bk_contracts b u = None \<longrightarrow> told b u = []) \<and>
     (\<forall>u c ph. bk_contracts b u = Some (c, ph) \<longrightarrow> in_order (told b u) ph)"

lemma well_told_at: "well_told b \<Longrightarrow> bk_contracts b u = Some (c, ph) \<Longrightarrow> in_order (told b u) ph"
  unfolding well_told_def by blast

lemma le_last_sorted:
  fixes f :: "'a \<Rightarrow> nat"
  shows "sorted_wrt (<) (map f xs) \<Longrightarrow> x \<in> set xs \<Longrightarrow> f x \<le> f (last xs)"
  by (induction xs rule: rev_induct) (auto simp: sorted_wrt_append less_imp_le)

lemma in_order_Nil: "in_order [] Open"
  by (simp add: in_order_def)

lemma in_order_snoc:
  assumes "in_order ts ph" and "stage ph < stage ph'"
  shows "in_order (ts @ [ph']) ph'"
proof -
  have "stage x < stage ph'" if "x \<in> set (Open # ts)" for x
    using le_last_sorted[OF _ that, of stage] assms by (simp add: in_order_def)
  with assms(1) show ?thesis by (simp add: in_order_def sorted_wrt_append)
qed

lemma in_order_length:
  assumes "in_order ts ph"
  shows "length ts \<le> 4"
proof -
  have s: "sorted_wrt (<) (map stage (Open # ts))" using assms by (simp add: in_order_def)
  then have "distinct (map stage ts)" by (simp add: strict_sorted_iff)
  then have "length ts = card (set (map stage ts))" by (metis distinct_card length_map)
  also have "\<dots> \<le> card {1..4::nat}"
    using s stage_le by (intro card_mono) (auto simp: Suc_le_eq intro: le_less_trans)
  finally show ?thesis by simp
qed

interpretation telling: book_invariant well_told
proof
  show "well_told blank" by (simp add: well_told_def blank_def told_def)
  fix b a b' assume good: "well_told b" and "act_on a b = Some b'"
  from this(2) show "well_told b'"
  proof (cases rule: act_on_cases)
    case (sign u c)
    have "told b' v = told b v" for v by (simp add: told_def sign(4))
    moreover have "bk_contracts b' = (bk_contracts b)(u \<mapsto> (c, Open))" by (simp add: sign(4))
    ultimately show ?thesis using good sign(2) in_order_Nil by (auto simp: well_told_def)
  next
    case (perform u d c ph ph' moves)
    have told: "told b' v = told b v @ (if v = u then [ph'] else [])" for v
      by (simp add: told_def perform(4))
    have "in_order (told b u @ [ph']) ph'"
      by (rule in_order_snoc[OF well_told_at[OF good perform(2)] perform_stage[OF perform(3)]])
    moreover have "bk_contracts b' = (bk_contracts b)(u \<mapsto> (c, ph'))" by (simp add: perform(4))
    ultimately show ?thesis using good by (auto simp: well_told_def told)
  qed
qed

lemma told_bounded:
  assumes "well_told b"
  shows "length (told b u) \<le> 4"
proof (cases "bk_contracts b u")
  case None
  then have "told b u = []" using assms unfolding well_told_def by blast
  then show ?thesis by simp
next
  case (Some cp)
  then show ?thesis
    using well_told_at[OF assms, of u "fst cp" "snd cp"] in_order_length by simp
qed

end
