(* ===== verification/Refinement.thy ===== *)
theory Refinement
  imports Outcomes Contract_Book
begin

text \<open>
  The gateway implements the book of contracts. \<open>book_of\<close> reads the book off the tables: the
  contracts and their phases from the intents, the purses from the ledger, the news from the
  outbox. Every lawful step of an intent is one deed of its contract, a new intent is a signature,
  and nothing else shows in the book; so \<open>follows\<close> is an invariant of the books like any other.
\<close>

section \<open>Reading the book off the tables\<close>

definition purse_account :: "purse \<Rightarrow> string \<times> uuid option" where
  "purse_account q = (case q of
       Receivable \<Rightarrow> (KindAcquirerReceivable, None)
     | PlatformCash \<Rightarrow> (KindPlatformCash, None)
     | SegregatedCash \<Rightarrow> (KindSegregatedCash, None)
     | Owed \<Rightarrow> (KindMerchantPayable, None)
     | Escrow u \<Rightarrow> (KindEscrowLiability, Some u)
     | OwedTo u \<Rightarrow> (KindPayableToPayee, Some u)
     | Revenue \<Rightarrow> (KindPlatformRevenue, None))"

definition purse_key :: "uuid \<Rightarrow> string \<Rightarrow> purse \<Rightarrow> akey" where
  "purse_key m cur q = (m, fst (purse_account q), cur, snd (purse_account q))"

definition phase_of :: "string \<Rightarrow> phase" where
  "phase_of s =
     (if s = StatusAuthorized then Authorised
      else if s = StatusCaptured then Taken
      else if s = StatusSettled then Settled
      else if s = StatusHeldInEscrow then Kept
      else if s = StatusReleased then PaidOut
      else if s = StatusFailed then Void
      else if s = StatusRefunded then Returned
      else if s = StatusPartiallyRefunded then PartReturned
      else Open)"

definition contract_of :: "payment_intent \<Rightarrow> contract" where
  "contract_of p = \<lparr>ct_merchant = pi_merchant p, ct_currency = pi_currency p,
     ct_amount = sint (pi_amount p),
     ct_escrow = (if pi_mode p = SettlementEscrow
       then map_option (\<lambda>payee. (payee, sint (fee_of p))) (pi_payee p) else None)\<rparr>"

definition book_of :: "db \<Rightarrow> book" where
  "book_of d =
     \<lparr>bk_contracts = (\<lambda>u. map_option (\<lambda>p. (contract_of p, phase_of (pi_status p)))
        (find (\<lambda>p. pi_id p = u) (t_intents d))),
      bk_purses = (\<lambda>m cur q. key_sum (\<lambda>k. k = purse_key m cur q) d),
      bk_news = List.map_filter (\<lambda>r. map_option (\<lambda>u. (u, phase_of (event_status r)))
        (event_intent r)) (t_outbox d)\<rparr>"

section \<open>A lawful step is a deed\<close>

lemma purse_key_eq [simp]: "purse_key m cur q = purse_key m' cur' q' \<longleftrightarrow> m = m' \<and> cur = cur' \<and> q = q'"
  by (cases q; cases q') (auto simp: purse_key_def purse_account_def)

definition purse_moves :: "contract \<Rightarrow> (purse \<times> int) list \<Rightarrow> (akey \<times> int) list" where
  "purse_moves c moves = map (\<lambda>(q, n). (purse_key (ct_merchant c) (ct_currency c) q, n)) moves"

lemma effect_purse_moves:
  "effect (purse_moves c moves) (\<lambda>k. k = purse_key m cur q) =
   (if m = ct_merchant c \<and> cur = ct_currency c then paid moves q else 0)"
  by (induction moves) (auto simp: purse_moves_def paid_def effect_def)

text \<open>The keys of an intent, as purses of its contract.\<close>

lemma intent_purses:
  assumes "intent_wf p"
  shows "receivable_key p = purse_key (pi_merchant p) (pi_currency p) Receivable"
    and "payable_key p = purse_key (pi_merchant p) (pi_currency p) (owing (pi_id p) (contract_of p))"
    and "cash_key p = purse_key (pi_merchant p) (pi_currency p) (holding (contract_of p))"
    and "platform_cash_key p = purse_key (pi_merchant p) (pi_currency p) PlatformCash"
    and "revenue_key p = purse_key (pi_merchant p) (pi_currency p) Revenue"
    and "pi_payee p = Some u \<Longrightarrow> payee_key p = purse_key (pi_merchant p) (pi_currency p) (OwedTo u)"
  using assms
  by (auto simp: purse_key_def purse_account_def receivable_key_def payable_key_def cash_key_def
      platform_cash_key_def revenue_key_def payee_key_def owing_def holding_def contract_of_def
      intent_wf_def)

lemma contract_sel [simp]:
  "ct_merchant (contract_of p) = pi_merchant p" "ct_currency (contract_of p) = pi_currency p"
  "ct_amount (contract_of p) = sint (pi_amount p)"
  by (simp_all add: contract_of_def)

lemma direct_contract: "pi_mode p = SettlementDirect \<Longrightarrow> ct_escrow (contract_of p) = None"
  by (simp add: contract_of_def)

lemma escrow_contract:
  assumes "intent_wf p" and "pi_mode p = SettlementEscrow"
  obtains payee where "ct_escrow (contract_of p) = Some (payee, sint (fee_of p))"
    and "pi_payee p = Some payee" and "0 \<le> sint (fee_of p)" and "sint (fee_of p) \<le> sint (pi_amount p)"
  using assms by (auto simp: contract_of_def intent_wf_def fee_of_def)

lemma fair_contract: "intent_wf p \<Longrightarrow> fair (contract_of p)"
  by (auto simp: fair_def contract_of_def intent_wf_def fee_of_def)

lemma phase_of_simps [simp]:
  "phase_of StatusCreated = Open" "phase_of StatusRequiresConfirmation = Open"
  "phase_of StatusAuthorized = Authorised" "phase_of StatusCaptured = Taken"
  "phase_of StatusSettled = Settled" "phase_of StatusHeldInEscrow = Kept"
  "phase_of StatusReleased = PaidOut" "phase_of StatusFailed = Void"
  "phase_of StatusRefunded = Returned" "phase_of StatusPartiallyRefunded = PartReturned"
  by (simp_all add: phase_of_def)

text \<open>Leaves out the legs of zero, which the ledger would reject.\<close>

lemma effect_positive:
  "0 \<le> sint n \<Longrightarrow> effect (positive_move k n) Q = effect [(k, - sint n)] Q"
  by (simp add: effect_positive_move)

lemma contract_mode:
  "intent_wf p \<Longrightarrow> pi_mode p = SettlementDirect \<and> ct_escrow (contract_of p) = None \<or>
     pi_mode p = SettlementEscrow \<and> (\<exists>x. ct_escrow (contract_of p) = Some x)"
  by (auto simp: intent_wf_def contract_of_def)

text \<open>
  \<open>realizes p deed s posting\<close>: the step of the intent is that deed of its contract, with its
  amounts. The lemmas are the commuting squares of the six operations.
\<close>

definition realizes ::
    "payment_intent \<Rightarrow> deed \<Rightarrow> string \<Rightarrow> (string \<times> (akey \<times> int) list) option \<Rightarrow> bool" where
  "realizes p deed s posting \<longleftrightarrow> (\<exists>moves.
     perform (pi_id p) (contract_of p) (phase_of (pi_status p)) deed = Some (phase_of s, moves) \<and>
     (\<forall>Q. effect (posting_moves posting) Q = effect (purse_moves (contract_of p) moves) Q))"

lemmas realizes_simps = realizes_def posting_moves_def purse_moves_def owing_def holding_def

lemma realizes_confirm:
  "pi_status p = StatusCreated \<or> pi_status p = StatusRequiresConfirmation \<Longrightarrow>
   realizes p Authorise StatusAuthorized None"
  "pi_status p = StatusCreated \<or> pi_status p = StatusRequiresConfirmation \<Longrightarrow>
   realizes p Decline StatusFailed None"
  by (auto simp: realizes_simps)

lemma realizes_expire:
  "CanTransition (pi_mode p) (pi_status p) StatusFailed \<Longrightarrow> realizes p Abandon StatusFailed None"
  by (auto simp: realizes_simps can_transition_to)

lemma realizes_capture:
  "intent_wf p \<Longrightarrow> CanTransition (pi_mode p) (pi_status p) StatusCaptured \<Longrightarrow>
   realizes p Take StatusCaptured (Some (''capture'', capture_moves p))"
  using intent_purses[of p]
  by (simp add: realizes_def posting_moves_def purse_moves_def can_transition_to capture_moves_def)

lemma realizes_settle:
  "intent_wf p \<Longrightarrow> pi_status p = StatusCaptured \<Longrightarrow>
   realizes p SettleUp (settle_target p) (Some (''settle'', settle_moves p))"
  using intent_purses[of p] contract_mode[of p]
  by (auto simp: realizes_def posting_moves_def purse_moves_def settle_moves_def settle_target_def)

lemma realizes_refund:
  assumes wf: "intent_wf p"
    and "CanTransition (pi_mode p) (pi_status p) (refund_target p amount)"
    and "0 < sint amount" and "sint amount \<le> sint (pi_amount p)"
    and "pi_mode p = SettlementEscrow \<or> pi_status p = StatusCaptured \<Longrightarrow> amount = pi_amount p"
  shows "realizes p (GiveBack (sint amount)) (refund_target p amount)
           (Some (''refund'', refund_moves p amount))"
proof (cases "amount = pi_amount p")
  case True
  then have "refund_target p amount = StatusRefunded" by (simp add: refund_target_def)
  then show ?thesis
    using assms True intent_purses[OF wf] contract_mode[OF wf]
    by (auto simp: realizes_simps can_transition_to refund_moves_def)
next
  case False
  then have "sint amount \<noteq> sint (pi_amount p)" and "refund_target p amount = StatusPartiallyRefunded"
    using sint_inj by (auto simp: refund_target_def)
  then show ?thesis
    using assms False intent_purses[OF wf] contract_mode[OF wf]
    by (auto simp: realizes_simps can_transition_to refund_moves_def)
qed

lemma realizes_release:
  assumes wf: "intent_wf p" and "CanTransition (pi_mode p) (pi_status p) StatusReleased"
  shows "realizes p PayOut StatusReleased (Some (''release'', release_moves p))"
proof -
  have st: "pi_mode p = SettlementEscrow" "pi_status p = StatusHeldInEscrow"
    using assms(2) by (auto simp: can_transition_to)
  obtain payee where c: "ct_escrow (contract_of p) = Some (payee, sint (fee_of p))"
      "pi_payee p = Some payee" "0 \<le> sint (fee_of p)" "sint (fee_of p) \<le> sint (pi_amount p)"
    by (rule escrow_contract[OF wf st(1)])
  then have "sint (pi_amount p - fee_of p) = sint (pi_amount p) - sint (fee_of p)"
    by (intro sint_diff_le)
  with c st show ?thesis
    using intent_purses[OF wf]
    by (simp add: realizes_simps release_moves_def effect_positive_move)
qed

lemma lawful_realizes:
  "lawful p s posting \<Longrightarrow> intent_wf p \<Longrightarrow> \<exists>deed. realizes p deed s posting"
  by (induction rule: lawful.induct)
     (blast intro: realizes_confirm realizes_expire realizes_capture realizes_settle
       realizes_refund realizes_release)+

section \<open>One step of the tables is one step of the book\<close>

lemma map_filter_append: "List.map_filter f (xs @ ys) = List.map_filter f xs @ List.map_filter f ys"
  by (simp add: List.map_filter_def)

lemma realizes_step:
  assumes real: "realizes p deed s posting" and step: "money_step p s now posting d d'"
    and dist: "distinct (map pi_id (t_intents d))"
  shows "act_on (pi_id p, Do deed) (book_of d) = Some (book_of d')"
proof -
  from step obtain accts txs es r where p: "p \<in> set (t_intents d)"
    and sums: "\<And>Q. key_sum Q d' = key_sum Q d + effect (posting_moves posting) Q"
    and ev: "event_row (set_status s now p) r"
    and d': "d' = d\<lparr>t_accounts := t_accounts d @ accts,
               t_transactions := t_transactions d @ txs,
               t_entries := t_entries d @ es,
               t_intents := update_where (\<lambda>x. pi_id x = pi_id p) (set_status s now) (t_intents d),
               t_outbox := t_outbox d @ [r]\<rparr>"
    unfolding money_step_def by blast
  from real obtain moves where
      pf: "perform (pi_id p) (contract_of p) (phase_of (pi_status p)) deed = Some (phase_of s, moves)"
    and eff: "\<And>Q. effect (posting_moves posting) Q = effect (purse_moves (contract_of p) moves) Q"
    unfolding realizes_def by blast
  have f: "find (\<lambda>x. pi_id x = pi_id p) (t_intents d) = Some p"
    using find_key_iff[OF dist] p by simp
  have "contract_of (set_status s now p) = contract_of p"
    by (simp add: contract_of_def fee_of_def)
  then have "bk_contracts (book_of d') =
      (bk_contracts (book_of d))(pi_id p \<mapsto> (contract_of p, phase_of s))"
    using f by (auto simp: book_of_def d' intent_status.find_update_same
        intent_status.find_update_other)
  moreover have "bk_purses (book_of d') = (\<lambda>m cur q. bk_purses (book_of d) m cur q +
      (if m = ct_merchant (contract_of p) \<and> cur = ct_currency (contract_of p)
       then paid moves q else 0))"
    by (intro ext) (simp add: book_of_def sums eff effect_purse_moves)
  moreover have "bk_news (book_of d') = bk_news (book_of d) @ [(pi_id p, phase_of s)]"
    using event_row_fields[OF ev]
    by (simp add: book_of_def d' map_filter_append List.map_filter_simps)
  moreover have "bk_contracts (book_of d) (pi_id p) = Some (contract_of p, phase_of (pi_status p))"
    using f by (simp add: book_of_def)
  ultimately show ?thesis using pf by simp
qed

lemma find_snoc: "find P (xs @ [x]) = (case find P xs of None \<Rightarrow> if P x then Some x else None | y \<Rightarrow> y)"
  by (induction xs) auto

lemma new_contract:
  assumes new: "pi_id p \<notin> pi_id ` set (t_intents d)" and wf: "intent_wf p"
    and st: "pi_status p = StatusCreated"
  shows "act_on (pi_id p, Agree (contract_of p)) (book_of d) =
         Some (book_of (d\<lparr>t_intents := t_intents d @ [p]\<rparr>))"
proof -
  let ?d = "d\<lparr>t_intents := t_intents d @ [p]\<rparr>"
  have none: "find (\<lambda>x. pi_id x = pi_id p) (t_intents d) = None"
    using new by (auto simp: find_None_iff) (metis imageI)
  have "find (\<lambda>x. pi_id x = u) (t_intents d @ [p]) =
      (if u = pi_id p then Some p else find (\<lambda>x. pi_id x = u) (t_intents d))" for u
    using none by (auto simp: find_snoc split: option.split)
  then have "bk_contracts (book_of ?d) = (bk_contracts (book_of d))(pi_id p \<mapsto> (contract_of p, Open))"
    using st by (auto simp: book_of_def)
  moreover have "bk_purses (book_of ?d) = bk_purses (book_of d)"
    by (intro ext) (simp add: book_of_def key_sum_cong[of ?d d])
  moreover have "bk_news (book_of ?d) = bk_news (book_of d)" by (simp add: book_of_def)
  moreover have "bk_contracts (book_of d) (pi_id p) = None" using none by (simp add: book_of_def)
  ultimately show ?thesis using fair_contract[OF wf] by simp
qed

lemma quiet_book:
  assumes "same_money d d'"
  shows "book_of d' = book_of d"
proof -
  have "list_all2 same_event (t_outbox d) (t_outbox d')" using assms by (simp add: same_money_def)
  then have "bk_news (book_of d') = bk_news (book_of d)"
    unfolding book_of_def
    by (induction rule: list_all2_induct)
       (auto simp: List.map_filter_def same_event_def event_intent_def event_status_def)
  moreover have "key_sum Q d' = key_sum Q d" for Q
    using assms by (intro key_sum_cong) (simp_all add: same_money_def)
  ultimately show ?thesis
    using assms by (simp add: book_of_def same_money_def)
qed

section \<open>The simulation\<close>

definition follows :: "book \<Rightarrow> db \<Rightarrow> bool" where
  "follows b0 d \<longleftrightarrow> consistent d \<and> (\<exists>acts. play acts b0 = Some (book_of d))"

lemma follows_act:
  assumes "follows b0 d" and "act_on a (book_of d) = Some (book_of d')" and "consistent d'"
  shows "follows b0 d'"
proof -
  from assms(1) obtain acts where "play acts b0 = Some (book_of d)" by (auto simp: follows_def)
  then have "play (acts @ [a]) b0 = Some (book_of d')" using assms(2) by (simp add: play_append)
  then show ?thesis using assms(3) by (auto simp: follows_def)
qed

interpretation simulation: money_invariant "follows b0" for b0
proof unfold_locales
  fix p d s now posting d'
  assume f: "follows b0 d" and step: "money_step p s now posting d d'" and law: "lawful p s posting"
  have con: "consistent d" and p: "p \<in> set (t_intents d)"
    using f step by (simp_all add: follows_def money_step_def)
  note wf = consistentD(8)[OF con p]
  obtain deed where "realizes p deed s posting" using lawful_realizes[OF law wf] by blast
  then show "follows b0 d'"
    by (intro follows_act[OF f realizes_step[OF _ step consistentD(7)[OF con]]]
        consistent_step[OF con step lawful_explains[OF law wf]])
next
  fix d p
  assume f: "follows b0 d" and new: "pi_id p \<notin> pi_id ` set (t_intents d)" "intent_wf p"
    "pi_status p = StatusCreated"
  then have "consistent d" by (simp add: follows_def)
  then show "follows b0 (d\<lparr>t_intents := t_intents d @ [p]\<rparr>)"
    by (intro follows_act[OF f new_contract[OF new]] consistent_new_intent new)
qed (auto simp: follows_def quiet_book intro: consistent_same_money)

lemma book_empty: "book_of empty_db = blank"
  by (simp add: book_of_def blank_def empty_db_def key_sum_def account_sum_def
      entries_of_accounts_def List.map_filter_def)

lemma reachable_played:
  assumes "reachable w"
  obtains acts where "play acts blank = Some (book_of (tables w))"
proof -
  have "play [] blank = Some (book_of empty_db)" by (simp add: book_empty)
  then have "follows blank empty_db" using consistent_empty unfolding follows_def by blast
  from steady_reachable[OF simulation.money_invariant_axioms this assms] that show thesis
    by (auto simp: steady_def follows_def)
qed

end
