(* ===== verification/Acts.thy ===== *)
theory Acts
  imports Refinement
begin

text \<open>
  What each part of the gateway does in the book of contracts: the acts an operation may make, and
  that it makes no others. The calls of the service are exactly one act each; for requests, ticks
  and boots the contracts of \<^verbatim>\<open>Frame\<close> carry the acts of the calls and the sweeps to the whole.
\<close>

section \<open>Who may do what\<close>

text \<open>
  The acts an operation of the gateway may make: a call only its own, a request those of the calls,
  the settle sweep only \<open>SettleUp\<close>, the expiry sweep only \<open>Abandon\<close>, everything else none.
\<close>

fun requestable :: "act \<Rightarrow> bool" where
  "requestable (Agree c) = True"
| "requestable (Do d) = (d \<noteq> SettleUp \<and> d \<noteq> Abandon)"

fun may :: "op \<Rightarrow> act \<Rightarrow> bool" where
  "may (CreateOp m inp) a = (\<exists>c. a = Agree c)"
| "may (ConfirmOp bank i m token) a = (a = Do Authorise \<or> a = Do Decline)"
| "may (CaptureOp bank i m) a = (a = Do Take)"
| "may (RefundOp i m amount) a = (a = Do (GiveBack (sint amount)))"
| "may (ReleaseOp i m) a = (a = Do PayOut)"
| "may (ServeOp L bank rq) a = requestable a"
| "may (SettleSweep t) a = (a = Do SettleUp)"
| "may (ExpireSweep t) a = (a = Do Abandon)"
| "may (WorkOp SettleTick) a = (a = Do SettleUp)"
| "may (WorkOp ExpireTick) a = (a = Do Abandon)"
| "may _ a = False"

definition played :: "(act \<Rightarrow> bool) \<Rightarrow> book \<Rightarrow> db \<Rightarrow> bool" where
  "played S b0 d \<longleftrightarrow> consistent d \<and>
     (\<exists>acts. play acts b0 = Some (book_of d) \<and> (\<forall>x \<in> set acts. S (snd x)))"

lemma played_act:
  assumes "played S b0 d" and "act_on a (book_of d) = Some (book_of d')" and "consistent d'"
    and "S (snd a)"
  shows "played S b0 d'"
proof -
  from assms(1) obtain acts where "play acts b0 = Some (book_of d)" "\<forall>x \<in> set acts. S (snd x)"
    by (auto simp: played_def)
  then have "play (acts @ [a]) b0 = Some (book_of d') \<and> (\<forall>x \<in> set (acts @ [a]). S (snd x))"
    using assms(2,4) by (simp add: play_append)
  then show ?thesis using assms(3) unfolding played_def by blast
qed

text \<open>\<open>once m S d d'\<close>: one act, allowed by \<open>S\<close>, on a contract of merchant \<open>m\<close>.\<close>

definition once :: "uuid \<Rightarrow> (act \<Rightarrow> bool) \<Rightarrow> db \<Rightarrow> db \<Rightarrow> bool" where
  "once m S d d' \<longleftrightarrow> consistent d' \<and>
     (\<exists>u a c ph. S a \<and> act_on (u, a) (book_of d) = Some (book_of d') \<and>
        bk_contracts (book_of d') u = Some (c, ph) \<and> ct_merchant c = m)"

lemma once_step:
  assumes con: "consistent d" and step: "money_step p s now posting d d'" and law: "lawful p s posting"
    and real: "intent_wf p \<Longrightarrow> realizes p deed s posting" and "S (Do deed)" and m: "pi_merchant p = m"
  shows "once m S d d'"
proof -
  have p: "p \<in> set (t_intents d)" using step by (simp add: money_step_def)
  note wf = consistentD(8)[OF con p]
  have "find (\<lambda>x. pi_id x = pi_id p) (t_intents d) = Some p"
    using find_key_iff[OF consistentD(7)[OF con]] p by simp
  then have c: "bk_contracts (book_of d) (pi_id p) = Some (contract_of p, phase_of (pi_status p))"
    by (simp add: book_of_def)
  have act: "act_on (pi_id p, Do deed) (book_of d) = Some (book_of d')"
    by (rule realizes_step[OF real[OF wf] step consistentD(7)[OF con]])
  then have "\<exists>ph. bk_contracts (book_of d') (pi_id p) = Some (contract_of p, ph)"
    by (cases rule: act_on_cases) (use c in auto)
  with act assms(5) m have "\<exists>u a c ph. S a \<and> act_on (u, a) (book_of d) = Some (book_of d') \<and>
        bk_contracts (book_of d') u = Some (c, ph) \<and> ct_merchant c = m"
    by (metis contract_sel(1))
  moreover have "consistent d'" by (rule consistent_step[OF con step lawful_explains[OF law wf]])
  ultimately show ?thesis by (simp add: once_def)
qed

lemma confirm_one_act:
  assumes con: "consistent (tables w)" and run: "confirm_body bank i m token w = (Inr (Commit x), w')"
  shows "once m (\<lambda>a. a = Do Authorise \<or> a = Do Decline) (tables w) (tables w')"
proof (rule confirm_step[OF run consistentD(6)[OF con]])
  fix p s
  assume st: "pi_status p = StatusCreated \<or> pi_status p = StatusRequiresConfirmation"
    and m: "pi_merchant p = m"
    and ans: "Authorize bank \<lparr>ar_intent = i, ar_amount = pi_amount p,
            ar_currency = pi_currency p, ar_token = token\<rparr> = Inr Approved \<and> s = StatusAuthorized \<or>
         Authorize bank \<lparr>ar_intent = i, ar_amount = pi_amount p,
            ar_currency = pi_currency p, ar_token = token\<rparr> = Inr Declined \<and> s = StatusFailed"
    and step: "money_step p s (clock w) None (tables w) (tables w')"
  have s: "s = StatusAuthorized \<or> s = StatusFailed" using ans by blast
  show ?thesis
    by (rule once_step[OF con step lawful.confirm[OF st s],
          of "if s = StatusAuthorized then Authorise else Decline"])
       (use s realizes_confirm[OF st] m in auto)
qed

lemma capture_one_act:
  assumes con: "consistent (tables w)" and run: "capture_body bank i m w = (Inr (Commit x), w')"
  shows "once m (\<lambda>a. a = Do Take) (tables w) (tables w')"
  by (rule capture_step[OF run consistentD(6)[OF con]])
     (rule once_step[OF con _ lawful.capture realizes_capture refl])

lemma refund_one_act:
  assumes con: "consistent (tables w)" and run: "refund_body i m amount w = (Inr (Commit x), w')"
  shows "once m (\<lambda>a. a = Do (GiveBack (sint amount))) (tables w) (tables w')"
  by (rule refund_step[OF run consistentD(6)[OF con]])
     (rule once_step[OF con _ lawful.refund realizes_refund refl])

lemma release_one_act:
  assumes con: "consistent (tables w)" and run: "release_body i m w = (Inr (Commit x), w')"
  shows "once m (\<lambda>a. a = Do PayOut) (tables w) (tables w')"
  by (rule release_step[OF run consistentD(6)[OF con]])
     (rule once_step[OF con _ lawful.release realizes_release refl])

lemma settle_one_act:
  assumes con: "consistent (tables w)" and run: "settle_body i m w = (Inr (Commit x), w')"
  shows "once m (\<lambda>a. a = Do SettleUp) (tables w) (tables w')"
  by (rule settle_step[OF run consistentD(6)[OF con]])
     (rule once_step[OF con _ lawful.settle realizes_settle refl])

lemma expire_one_act:
  assumes con: "consistent (tables w)" and run: "expire_body i m w = (Inr (Commit x), w')"
  shows "once m (\<lambda>a. a = Do Abandon) (tables w) (tables w')"
  by (rule expire_step[OF run consistentD(6)[OF con]])
     (rule once_step[OF con _ lawful.expire realizes_expire refl])

lemma played_once: "played S b0 d \<Longrightarrow> once m S d d' \<Longrightarrow> played S b0 d'"
  by (auto simp: once_def intro: played_act)

lemma played_consistent: "played S b0 d \<Longrightarrow> consistent d"
  by (simp add: played_def)

interpretation confirm_acts: tx_operation "confirm_body bank i m token"
    "played (\<lambda>a. a = Do Authorise \<or> a = Do Decline) b0" for bank i m token b0
  by unfold_locales (rule keeps_confirm_body, blast intro: played_once confirm_one_act played_consistent)

interpretation capture_acts: tx_operation "capture_body bank i m" "played (\<lambda>a. a = Do Take) b0"
  for bank i m b0
  by unfold_locales (rule keeps_capture_body, blast intro: played_once capture_one_act played_consistent)

interpretation refund_acts: tx_operation "refund_body i m amount"
    "played (\<lambda>a. a = Do (GiveBack (sint amount))) b0" for i m amount b0
  by unfold_locales (rule keeps_refund_body, blast intro: played_once refund_one_act played_consistent)

interpretation release_acts: tx_operation "release_body i m" "played (\<lambda>a. a = Do PayOut) b0" for i m b0
  by unfold_locales (rule keeps_release_body, blast intro: played_once release_one_act played_consistent)

interpretation settle_acts: tx_operation "settle_body i m" "played (\<lambda>a. a = Do SettleUp) b0" for i m b0
  by unfold_locales (rule keeps_settle_body, blast intro: played_once settle_one_act played_consistent)

interpretation expire_acts: tx_operation "expire_body i m" "played (\<lambda>a. a = Do Abandon) b0" for i m b0
  by unfold_locales (rule keeps_expire_body, blast intro: played_once expire_one_act played_consistent)

interpretation settle_sweep_acts: swept settleOne "played (\<lambda>a. a = Do SettleUp) b0" for b0
  by unfold_locales
     (simp_all add: settleOne_def settle_acts.op_good settle_acts.op_closed settle_acts.op_clock)

interpretation expire_sweep_acts: swept expireOne "played (\<lambda>a. a = Do Abandon) b0" for b0
  by unfold_locales
     (simp_all add: expireOne_def expire_acts.op_good expire_acts.op_closed expire_acts.op_clock)

text \<open>The same as a relation between worlds.\<close>

definition acts_within :: "(act \<Rightarrow> bool) \<Rightarrow> world \<Rightarrow> world \<Rightarrow> bool" where
  "acts_within S w w' \<longleftrightarrow> (tx_open w = None \<and> consistent (tables w) \<longrightarrow>
     tx_open w' = None \<and> played S (book_of (tables w)) (tables w'))"

lemma played_refl: "consistent d \<Longrightarrow> played S (book_of d) d"
  unfolding played_def by (intro conjI exI[of _ "[]"]) simp_all

lemma played_trans:
  assumes "played S b0 d" and "played S (book_of d) d'"
  shows "played S b0 d'"
proof -
  from assms obtain as bs where "play as b0 = Some (book_of d)" "\<forall>x \<in> set as. S (snd x)"
    "play bs (book_of d) = Some (book_of d')" "\<forall>x \<in> set bs. S (snd x)"
    by (auto simp: played_def)
  then have "play (as @ bs) b0 = Some (book_of d') \<and> (\<forall>x \<in> set (as @ bs). S (snd x))"
    by (auto simp: play_append)
  then show ?thesis using assms(2) unfolding played_def by blast
qed

lemma played_mono: "played S b0 d \<Longrightarrow> (\<And>a. S a \<Longrightarrow> S' a) \<Longrightarrow> played S' b0 d"
  unfolding played_def by blast

lemma acts_mono: "within (acts_within S) f \<Longrightarrow> (\<And>a. S a \<Longrightarrow> S' a) \<Longrightarrow> within (acts_within S') f"
  unfolding within_def acts_within_def using played_mono by blast

lemma acts_same:
  "tables w' = tables w \<Longrightarrow> tx_open w' = tx_open w \<Longrightarrow> acts_within S w w'"
  by (simp add: acts_within_def played_refl)

lemma acts_trans: "acts_within S u v \<Longrightarrow> acts_within S v w \<Longrightarrow> acts_within S u w"
  unfolding acts_within_def using played_trans by (metis played_def)

lemma acts_run:
  assumes "\<And>u now d x d'. f u now d = Inr (x, d') \<Longrightarrow> same_money d d'"
  shows "within (acts_within S) (run f)"
proof -
  have "played S (book_of d) d'" if "consistent d" "f u now d = Inr (x, d')" for u now d x d'
    using played_refl[OF consistent_same_money[OF that(1) assms[OF that(2)]]]
    by (simp add: quiet_book[OF assms[OF that(2)]])
  then show ?thesis
    by (auto simp: within_def acts_within_def run_def Let_def played_refl split: fault.splits sum.splits)
qed

lemma create_one_act:
  assumes con: "consistent (tables w)" and run: "Create m inp w = (r, w')"
  shows "tables w' = tables w \<or> once m (\<lambda>a. \<exists>c. a = Agree c) (tables w) (tables w')"
  using run
proof (cases rule: Create_run)
  case (inserted cur mode payee fee meta)
  from inserted(1) show ?thesis
  proof (cases rule: run_CreateIntent)
    case (row u)
    let ?p = "new_intent u m (ci_amount inp) cur mode payee fee meta (clock w)"
    have wf: "intent_wf ?p" using row(2) inserted(3,4) by (auto simp: intent_wf_def new_intent_def)
    have act: "act_on (u, Agree (contract_of ?p)) (book_of (tables w)) = Some (book_of (tables w'))"
      using new_contract[of ?p "tables w"] row(1,4) wf by simp
    then have "bk_contracts (book_of (tables w')) u = Some (contract_of ?p, Open)"
      by (cases rule: act_on_cases) auto
    moreover have "ct_merchant (contract_of ?p) = m" by (simp add: new_intent_def)
    moreover have "consistent (tables w')"
      using growth.create_good[OF _ run, of "tables w"] con by (simp add: grows_def)
    ultimately show ?thesis using act unfolding once_def by blast
  qed simp
qed simp

lemma acts_create: "within (acts_within (\<lambda>a. \<exists>c. a = Agree c)) (Create m inp)"
  unfolding within_def acts_within_def
proof (intro allI impI)
  fix w :: world
  assume w: "tx_open w = None \<and> consistent (tables w)"
  obtain r w' where run: "Create m inp w = (r, w')" by (cases "Create m inp w")
  have "tx_open w' = None" using growth.create_good[OF _ run, of "tables w"] w by (simp add: grows_def)
  moreover have "played (\<lambda>a. \<exists>c. a = Agree c) (book_of (tables w)) (tables w')"
    using create_one_act[OF _ run] w played_once[OF played_refl] by (auto simp: played_refl)
  ultimately show "tx_open (snd (Create m inp w)) = None \<and>
      played (\<lambda>a. \<exists>c. a = Agree c) (book_of (tables w)) (tables (snd (Create m inp w)))"
    using run by simp
qed

lemma acts_calls:
  "within (acts_within (\<lambda>a. a = Do Authorise \<or> a = Do Decline)) (Confirm bank i m token)"
  "within (acts_within (\<lambda>a. a = Do Take)) (CaptureIntent bank i m)"
  "within (acts_within (\<lambda>a. a = Do (GiveBack (sint amount)))) (Refund i m amount)"
  "within (acts_within (\<lambda>a. a = Do PayOut)) (Release i m)"
  by (simp_all add: within_def acts_within_def Confirm_def CaptureIntent_def Refund_def Release_def
      fail_def played_refl confirm_acts.op_good confirm_acts.op_closed capture_acts.op_good
      capture_acts.op_closed refund_acts.op_good refund_acts.op_closed release_acts.op_good
      release_acts.op_closed)

lemma acts_sweeps:
  "within (acts_within (\<lambda>a. a = Do SettleUp)) (SettleDueIntents t)"
  "within (acts_within (\<lambda>a. a = Do Abandon)) (ExpireStaleIntents t)"
proof -
  have cap: "tables (snd (run (ListCapturedBefore c l) w)) = tables w"
      "tx_open (snd (run (ListCapturedBefore c l) w)) = tx_open w" for c l w
    by (rule run_reads, erule list_reads)+
  have stale: "tables (snd (run (ListStaleBefore c l) w)) = tables w"
      "tx_open (snd (run (ListStaleBefore c l) w)) = tx_open w" for c l w
    by (rule run_reads, erule list_reads)+
  have "tx_open (snd (SettleDueIntents t w)) = None \<and>
      played (\<lambda>a. a = Do SettleUp) (book_of (tables w)) (tables (snd (SettleDueIntents t w)))"
    if w: "tx_open w = None" "consistent (tables w)" for w
  proof -
    obtain r w1 where r: "run (ListCapturedBefore (clock w - t) sweepBatch) w = (r, w1)"
      by (cases "run (ListCapturedBefore (clock w - t) sweepBatch) w")
    then have "tables w1 = tables w" "tx_open w1 = None"
      using cap[of "clock w - t" sweepBatch w] w(1) by simp_all
    with w r settle_sweep_acts.rows_good[of w1 "book_of (tables w)"] show ?thesis
      by (cases r) (simp_all add: SettleDueIntents_def played_refl)
  qed
  then show "within (acts_within (\<lambda>a. a = Do SettleUp)) (SettleDueIntents t)"
    by (simp add: within_def acts_within_def)
  have "tx_open (snd (ExpireStaleIntents t w)) = None \<and>
      played (\<lambda>a. a = Do Abandon) (book_of (tables w)) (tables (snd (ExpireStaleIntents t w)))"
    if w: "tx_open w = None" "consistent (tables w)" for w
  proof -
    obtain r w1 where r: "run (ListStaleBefore (clock w - t) sweepBatch) w = (r, w1)"
      by (cases "run (ListStaleBefore (clock w - t) sweepBatch) w")
    then have "tables w1 = tables w" "tx_open w1 = None"
      using stale[of "clock w - t" sweepBatch w] w(1) by simp_all
    with w r expire_sweep_acts.rows_good[of w1 "book_of (tables w)"] show ?thesis
      by (cases r) (simp_all add: ExpireStaleIntents_def played_refl)
  qed
  then show "within (acts_within (\<lambda>a. a = Do Abandon)) (ExpireStaleIntents t)"
    by (simp add: within_def acts_within_def)
qed

interpretation served_acts: request_frame "acts_within requestable"
proof unfold_locales
  show "acts_within requestable u w" if "acts_within requestable u v" "acts_within requestable v w" for u v w
    by (rule acts_trans[OF that])
qed (rule acts_same, assumption+ | rule acts_run, erule quiet_statements |
     rule acts_mono[OF acts_create] acts_mono[OF acts_calls(1)] acts_mono[OF acts_calls(2)]
       acts_mono[OF acts_calls(3)] acts_mono[OF acts_calls(4)]; auto)+

interpretation worker_acts: worker_frame "acts_within (\<lambda>_. False)"
proof unfold_locales
  show "within (acts_within (\<lambda>_. False)) (wait n)" for n
    by (simp add: within_def acts_within_def wait_def played_refl)
  show "acts_within (\<lambda>_. False) u w" if "acts_within (\<lambda>_. False) u v" "acts_within (\<lambda>_. False) v w" for u v w
    by (rule acts_trans[OF that])
qed (rule acts_same, assumption+ | rule acts_run, erule quiet_statements)+

interpretation boot_acts: boot_frame "acts_within (\<lambda>_. False)"
  by unfold_locales (rule acts_run, erule quiet_statements)+

lemma may_simps:
  "may (CreateOp m inp) = (\<lambda>a. \<exists>c. a = Agree c)"
  "may (ConfirmOp bank i m token) = (\<lambda>a. a = Do Authorise \<or> a = Do Decline)"
  "may (CaptureOp bank i m) = (\<lambda>a. a = Do Take)"
  "may (RefundOp i m amount) = (\<lambda>a. a = Do (GiveBack (sint amount)))"
  "may (ReleaseOp i m) = (\<lambda>a. a = Do PayOut)"
  "may (ServeOp L bank rq) = requestable"
  "may (SettleSweep t) = (\<lambda>a. a = Do SettleUp)" "may (ExpireSweep t) = (\<lambda>a. a = Do Abandon)"
  "may (WorkOp SettleTick) = (\<lambda>a. a = Do SettleUp)"
  "may (WorkOp ExpireTick) = (\<lambda>a. a = Do Abandon)"
  "may (NewMerchant name) = (\<lambda>_. False)" "may (Tick n) = (\<lambda>_. False)"
  "may (BootOp L) = (\<lambda>_. False)" "may (ProcessOp L P hc lim) = (\<lambda>_. False)"
  by (rule ext, simp)+

lemma acts_work: "acts_within (may (WorkOp t)) w (work t w)"
proof (cases "sweeping t")
  case True
  with acts_sweeps show ?thesis by (cases t) (simp_all add: within_def may_simps)
next
  case False
  then have "may (WorkOp t) = (\<lambda>_. False)" by (cases t) auto
  with worker_acts.tick_within[OF False] show ?thesis by simp
qed

lemma acts_exec: "acts_within (may operation) w (exec operation w)"
proof (cases operation)
  case (Tick n)
  then show ?thesis by (simp add: acts_within_def played_refl)
next
  case (NewMerchant name)
  have "within (acts_within (\<lambda>_. False)) (run (CreateMerchant name))"
    by (rule acts_run) (auto simp: CreateMerchant_def same_money_def Let_def split: if_splits)
  with NewMerchant show ?thesis by (simp add: within_def may_simps)
next
  case (WorkOp t)
  with acts_work show ?thesis by simp
qed (use acts_create acts_calls acts_sweeps served_acts.serve_within worker_acts.process_within
      boot_acts.boot_within in \<open>simp_all add: within_def may_simps\<close>)

section \<open>The theorems\<close>

lemma reachable_wf: "reachable w \<Longrightarrow> p \<in> set (t_intents (tables w)) \<Longrightarrow> intent_wf p"
  using reachable_consistent consistentD(8) by blast

text \<open>The deed of a call, from its answer.\<close>

lemma committed_deed:
  assumes "reachable w" and "tables w0 = tables w" and "tables w' = tables w1"
    and "money_step p s (clock w0) posting (tables w0) (tables w1)" and "realizes p deed s posting"
  shows "act_on (pi_id p, Do deed) (book_of (tables w)) = Some (book_of (tables w'))"
  using realizes_step[OF assms(5,4)] assms(2,3) consistentD(7)[OF reachable_consistent[OF assms(1)]]
  by simp

lemma confirm_act:
  assumes r: "reachable w" and run: "Confirm bank i m token w = (Inr p, w')"
  shows "act_on (pi_id p, Do (if pi_status p = StatusAuthorized then Authorise else Decline))
    (book_of (tables w)) = Some (book_of (tables w'))"
proof -
  obtain w0 w1 where w0: "tables w0 = tables w" and w': "tables w' = tables w1"
    and b: "confirm_body bank i m token w0 = (Inr (Commit p), w1)"
    using in_tx_success[OF run[unfolded Confirm_def] keeps_confirm_body
        never_leaves_bodies(1) reachable_closed[OF r]] by metis
  have "sound (tables w0)" using reachable_sound[OF r] w0 by simp
  from b this show ?thesis
  proof (rule confirm_step)
    fix q s
    assume q: "pi_status q = StatusCreated \<or> pi_status q = StatusRequiresConfirmation"
      and p: "p = set_status s (clock w0) q"
      and s: "Authorize bank \<lparr>ar_intent = i, ar_amount = pi_amount q,
            ar_currency = pi_currency q, ar_token = token\<rparr> = Inr Approved \<and> s = StatusAuthorized \<or>
         Authorize bank \<lparr>ar_intent = i, ar_amount = pi_amount q,
            ar_currency = pi_currency q, ar_token = token\<rparr> = Inr Declined \<and> s = StatusFailed"
      and step: "money_step q s (clock w0) None (tables w0) (tables w1)"
    from s have "realizes q (if s = StatusAuthorized then Authorise else Decline) s None"
      using realizes_confirm[OF q] by auto
    from committed_deed[OF r w0 w' step this] show ?thesis by (simp add: p)
  qed
qed

lemma capture_act:
  assumes r: "reachable w" and run: "CaptureIntent bank i m w = (Inr p, w')"
  shows "act_on (pi_id p, Do Take) (book_of (tables w)) = Some (book_of (tables w'))"
proof -
  obtain w0 w1 where w0: "tables w0 = tables w" and w': "tables w' = tables w1"
    and b: "capture_body bank i m w0 = (Inr (Commit p), w1)"
    using in_tx_success[OF run[unfolded CaptureIntent_def] keeps_capture_body
        never_leaves_bodies(2) reachable_closed[OF r]] by metis
  have "sound (tables w0)" using reachable_sound[OF r] w0 by simp
  from b this show ?thesis
  proof (rule capture_step)
    fix q assume "q \<in> set (t_intents (tables w0))"
      and tr: "CanTransition (pi_mode q) (pi_status q) StatusCaptured"
      and p: "p = set_status StatusCaptured (clock w0) q"
      and step: "money_step q StatusCaptured (clock w0)
        (Some (''capture'', capture_moves q)) (tables w0) (tables w1)"
    then have "q \<in> set (t_intents (tables w))" by (simp add: w0)
    note real = realizes_capture[OF reachable_wf[OF r this] tr]
    show ?thesis using committed_deed[OF r w0 w' step real] by (simp add: p)
  qed
qed

lemma refund_act:
  assumes r: "reachable w" and run: "Refund i m amount w = (Inr p, w')"
  shows "act_on (pi_id p, Do (GiveBack (sint amount))) (book_of (tables w)) =
    Some (book_of (tables w'))"
proof -
  have "in_tx (refund_body i m amount) w = (Inr p, w')"
    using run by (auto simp: Refund_def split: if_splits elim!: fail_success)
  then obtain w0 w1 where w0: "tables w0 = tables w" and w': "tables w' = tables w1"
    and b: "refund_body i m amount w0 = (Inr (Commit p), w1)"
    using in_tx_success[OF _ keeps_refund_body never_leaves_bodies(3) reachable_closed[OF r]]
    by metis
  have "sound (tables w0)" using reachable_sound[OF r] w0 by simp
  from b this show ?thesis
  proof (rule refund_step)
    fix q assume "q \<in> set (t_intents (tables w0))"
      and am: "0 < sint amount" "sint amount \<le> sint (pi_amount q)"
        "pi_mode q = SettlementEscrow \<or> pi_status q = StatusCaptured \<Longrightarrow> amount = pi_amount q"
      and tr: "CanTransition (pi_mode q) (pi_status q) (refund_target q amount)"
      and p: "p = set_status (refund_target q amount) (clock w0) q"
      and step: "money_step q (refund_target q amount) (clock w0)
        (Some (''refund'', refund_moves q amount)) (tables w0) (tables w1)"
    then have "q \<in> set (t_intents (tables w))" by (simp add: w0)
    note real = realizes_refund[OF reachable_wf[OF r this] tr am]
    show ?thesis using committed_deed[OF r w0 w' step real] by (simp add: p)
  qed
qed

lemma release_act:
  assumes r: "reachable w" and run: "Release i m w = (Inr p, w')"
  shows "act_on (pi_id p, Do PayOut) (book_of (tables w)) = Some (book_of (tables w'))"
proof -
  obtain w0 w1 where w0: "tables w0 = tables w" and w': "tables w' = tables w1"
    and b: "release_body i m w0 = (Inr (Commit p), w1)"
    using in_tx_success[OF run[unfolded Release_def] keeps_release_body
        never_leaves_bodies(4) reachable_closed[OF r]] by metis
  have "sound (tables w0)" using reachable_sound[OF r] w0 by simp
  from b this show ?thesis
  proof (rule release_step)
    fix q assume "q \<in> set (t_intents (tables w0))"
      and tr: "CanTransition (pi_mode q) (pi_status q) StatusReleased"
      and p: "p = set_status StatusReleased (clock w0) q"
      and step: "money_step q StatusReleased (clock w0)
        (Some (''release'', release_moves q)) (tables w0) (tables w1)"
    then have "q \<in> set (t_intents (tables w))" by (simp add: w0)
    note real = realizes_release[OF reachable_wf[OF r this] tr]
    show ?thesis using committed_deed[OF r w0 w' step real] by (simp add: p)
  qed
qed

lemma create_act:
  assumes run: "Create m inp w = (Inr p, w')"
  shows "act_on (pi_id p, Agree (contract_of p)) (book_of (tables w)) = Some (book_of (tables w'))"
  using run
proof (cases rule: Create_run)
  case (inserted cur mode payee fee meta)
  from inserted(1) show ?thesis
  proof (cases rule: run_CreateIntent)
    case (row u)
    then have p: "p = new_intent u m (ci_amount inp) cur mode payee fee meta (clock w)" by simp
    have "intent_wf p"
      using row(2) inserted(3,4) by (auto simp: p intent_wf_def new_intent_def)
    with new_contract[of p "tables w"] row p show ?thesis by simp
  qed auto
qed simp

text \<open>The calls of the service, and what each is in the book.\<close>

fun call_of :: "op \<Rightarrow> payment_intent io option" where
  "call_of (CreateOp m inp) = Some (Create m inp)"
| "call_of (ConfirmOp bank i m token) = Some (Confirm bank i m token)"
| "call_of (CaptureOp bank i m) = Some (CaptureIntent bank i m)"
| "call_of (RefundOp i m amount) = Some (Refund i m amount)"
| "call_of (ReleaseOp i m) = Some (Release i m)"
| "call_of _ = None"

fun act_for :: "op \<Rightarrow> payment_intent \<Rightarrow> act" where
  "act_for (CreateOp m inp) p = Agree (contract_of p)"
| "act_for (ConfirmOp bank i m token) p =
     Do (if pi_status p = StatusAuthorized then Authorise else Decline)"
| "act_for (CaptureOp bank i m) p = Do Take"
| "act_for (RefundOp i m amount) p = Do (GiveBack (sint amount))"
| "act_for _ p = Do PayOut"

text \<open>C2: Every call of the service that reports success is exactly one act in the book: creating an
  intent signs its contract, confirming authorises it or declines it, capturing takes the money,
  refunding an amount gives that amount back, releasing pays out. The book allows the act and is
  what it says afterwards: that contract's phase, those purses, that piece of news, no other.\<close>

theorem calls_are_acts:
  assumes "reachable w" and "call_of operation = Some f" and "f w = (Inr p, w')"
  shows "act_on (pi_id p, act_for operation p) (book_of (tables w)) = Some (book_of (tables w'))"
  using assms(2,3) create_act confirm_act[OF assms(1)] capture_act[OF assms(1)]
    refund_act[OF assms(1)] release_act[OF assms(1)]
  by (cases operation) (auto simp del: act_on.simps split del: if_split)

theorem calls_are_acts_witness:
  "act_on (2, Do Take) (book_of (tables demo_authorized)) =
   Some (book_of (tables (snd (CaptureIntent demo_bank 2 1 demo_authorized))))"
proof -
  have "pi_id (projr (fst (CaptureIntent demo_bank 2 1 demo_authorized))) = 2" by code_simp
  then show ?thesis
    using calls_are_acts[where operation = "CaptureOp demo_bank 2 1" and f = "CaptureIntent demo_bank 2 1",
        OF reachable_demos(2) _ succeeded[OF demo_capture]]
    by (simp del: act_on.simps)
qed

text \<open>C1: The gateway implements the book of contracts. Whatever has happened to it, its tables
  read as a book that can be played from the blank one by signing and by deeds, each allowed by
  the rules; and whatever happens next, under any faults, continues that play by finitely many
  acts, all of the kind the operation may make: a call its own, a request only those of the calls,
  the settle sweep only settlements, the expiry sweep only abandonments; webhooks, housekeeping,
  boots and time make none at all.\<close>

theorem gateway_implements_book:
  assumes "reachable w"
  shows "(\<exists>acts. play acts blank = Some (book_of (tables w))) \<and>
    (\<exists>acts. play acts (book_of (tables w)) = Some (book_of (tables (exec operation w))) \<and>
      list_all (\<lambda>(u, a). may operation a) acts)"
proof
  show "\<exists>acts. play acts blank = Some (book_of (tables w))"
    by (rule reachable_played[OF assms]) blast
  have "played (may operation) (book_of (tables w)) (tables (exec operation w))"
    using acts_exec[of operation w] reachable_closed[OF assms] reachable_consistent[OF assms]
    by (simp add: acts_within_def)
  then show "\<exists>acts. play acts (book_of (tables w)) = Some (book_of (tables (exec operation w))) \<and>
      list_all (\<lambda>(u, a). may operation a) acts"
    by (auto simp: played_def list_all_iff split_def)
qed

theorem gateway_implements_book_witness:
  "(\<exists>acts. play acts blank = Some (book_of (tables demo_captured))) \<and>
   (\<exists>acts. play acts (book_of (tables demo_captured)) =
      Some (book_of (tables (exec (SettleSweep 1) demo_captured))) \<and>
      list_all (\<lambda>(u, a). a = Do SettleUp) acts)"
  using gateway_implements_book[OF reachable_demos(3), of "SettleSweep 1"] by simp

lemma told_events: "told (book_of d) i = map (\<lambda>r. phase_of (event_status r)) (events_of d i)"
proof -
  have "map snd (filter (\<lambda>(v, _). v = i) (List.map_filter (\<lambda>r. map_option
      (\<lambda>u. (u, phase_of (event_status r))) (event_intent r)) rs)) =
    map (\<lambda>r. phase_of (event_status r)) (filter (\<lambda>r. event_intent r = Some i) rs)" for rs
    by (induction rs) (auto simp: List.map_filter_simps split: option.split)
  then show ?thesis by (simp add: told_def book_of_def events_of_def)
qed

text \<open>No intent is ever announced more than four times: what the rules say of the book holds
  of the outbox.\<close>

theorem four_events:
  assumes "reachable w"
  shows "length (events_of (tables w) i) \<le> 4"
proof -
  obtain acts where "play acts blank = Some (book_of (tables w))" by (rule reachable_played[OF assms])
  from told_bounded[OF telling.good_reached[OF this], of i] show ?thesis by (simp add: told_events)
qed

theorem four_events_witness: "length (events_of (tables demo_settled) 2) \<le> 4"
  by (rule four_events[OF reachable_demos(4)])

text \<open>The book leaves no account out: what is not a purse holds nothing.\<close>

lemma position_purses:
  assumes "intent_wf p" and "(k, n) \<in> set (position left p)"
  obtains m cur q where "k = purse_key m cur q"
  using assms(2) intent_purses[OF assms(1)] that assms(1)
  by (auto simp: position_def intent_wf_def mode_status_def split: if_splits)

theorem book_complete:
  assumes "reachable w" and free: "\<forall>m cur q. \<not> Q (purse_key m cur q)"
  shows "key_sum Q (tables w) = 0"
proof -
  note con = reachable_consistent[OF assms(1)]
  obtain left where l: "books_with left (tables w)" using consistentD(5)[OF con] by (auto simp: books_def)
  have "\<not> Q k" if "p \<in> set (t_intents (tables w))" and "(k, n) \<in> set (position l p)" for p k n l
    using position_purses[OF consistentD(8)[OF con that(1)] that(2)] free by metis
  then have "effect (position l p) Q = 0" if "p \<in> set (t_intents (tables w))" for p l
    using that by (intro effect_none) blast
  then have "map (\<lambda>p. effect (position (left (pi_id p)) p) Q) (t_intents (tables w)) =
      map (\<lambda>_. 0) (t_intents (tables w))"
    by (intro map_cong) simp_all
  then have "(\<Sum>p\<leftarrow>t_intents (tables w). effect (position (left (pi_id p)) p) Q) = 0"
    by (simp only: sum_list_0)
  with l show ?thesis by (simp add: books_with_def)
qed

end
