(* ===== verification/Serving.thy ===== *)
theory Serving
  imports Acts Requests
begin

text \<open>
  What one HTTP request does in the book of contracts, through CORS, routing, authentication, the
  idempotency wrapper and its handler: at most one act, on a contract of the merchant whose secret
  key came with it.
\<close>

section \<open>One operation\<close>

lemma tx_one_act:
  assumes none: "tx_open w = None" and con: "consistent (tables w)" and body: "keeps_tx body"
    and one: "\<And>w0 x w1. consistent (tables w0) \<Longrightarrow> body w0 = (Inr (Commit x), w1) \<Longrightarrow>
      once m S (tables w0) (tables w1)"
  shows "tables (snd (in_tx body w)) = tables w \<or> once m S (tables w) (tables (snd (in_tx body w)))"
proof -
  obtain r w' where r: "in_tx body w = (r, w')" by (cases "in_tx body w")
  then show ?thesis
  proof (cases rule: in_tx_cases[OF r body none])
    case (2 w0 w1 x)
    with one[of w0 x w1] con r show ?thesis by simp
  qed simp
qed

lemma operation_one_act:
  assumes none: "tx_open w = None" and con: "consistent (tables w)"
    and req: "requests operation m \<or> (\<exists>inp. operation = CreateOp m inp)"
  shows "tables (exec operation w) = tables w \<or>
    once m (may operation) (tables w) (tables (exec operation w))"
proof (cases operation)
  case (CreateOp m' inp)
  with req create_one_act[OF con, of m inp "fst (Create m inp w)" "snd (Create m inp w)"] show ?thesis
    by (auto simp: may_simps)
next
  case (ConfirmOp bank i m' token)
  with req tx_one_act[OF none con keeps_confirm_body confirm_one_act] show ?thesis
    by (simp add: may_simps Confirm_def)
next
  case (CaptureOp bank i m')
  with req tx_one_act[OF none con keeps_capture_body capture_one_act] show ?thesis
    by (simp add: may_simps CaptureIntent_def)
next
  case (RefundOp i m' amount)
  with req tx_one_act[OF none con keeps_refund_body refund_one_act] show ?thesis
    by (simp add: may_simps Refund_def fail_def)
next
  case (ReleaseOp i m')
  with req tx_one_act[OF none con keeps_release_body release_one_act] show ?thesis
    by (simp add: may_simps Release_def)
qed (use req in simp_all)

section \<open>One handler\<close>

lemma and_then_says: "and_then f (\<lambda>r. say (g r)) w = (out, w') \<Longrightarrow> w' = snd (f w)"
  by (auto simp: and_then_def say_def split: prod.splits)

text \<open>A money handler answers at once or runs exactly one operation, for the merchant of its context.\<close>

lemma handler_runs_one:
  assumes h: "(path, h) \<in> set (money_handlers L bank)" and c: "MerchantID c = Some m"
    and run: "h c rq w = (out, w')"
  shows "w' = w \<or> (\<exists>operation. (requests operation m \<or> (\<exists>inp. operation = CreateOp m inp)) \<and>
    w' = exec operation w)"
proof -
  have create: "intents_create L c rq w = (out, w') \<Longrightarrow> w' = w \<or> (\<exists>inp. w' = exec (CreateOp m inp) w)"
    using c by (auto simp: intents_create_def with_merchant_def say_def
        split: option.splits dest!: and_then_says)
  have confirm: "intents_confirm L bank c rq w = (out, w') \<Longrightarrow>
      w' = w \<or> (\<exists>i token. w' = exec (ConfirmOp bank i m token) w)"
    using c by (auto simp: intents_confirm_def authAndID_def with_merchant_def say_def Let_def
        split: option.splits if_splits dest!: and_then_says)
  have capture: "intents_capture L bank c rq w = (out, w') \<Longrightarrow>
      w' = w \<or> (\<exists>i. w' = exec (CaptureOp bank i m) w)"
    using c by (auto simp: intents_capture_def authAndID_def with_merchant_def say_def
        split: option.splits dest!: and_then_says)
  have refund: "intents_refund L c rq w = (out, w') \<Longrightarrow>
      w' = w \<or> (\<exists>i amount. w' = exec (RefundOp i m amount) w)"
    using c by (auto simp: intents_refund_def authAndID_def with_merchant_def say_def
        split: option.splits dest!: and_then_says)
  have release: "intents_release L c rq w = (out, w') \<Longrightarrow>
      w' = w \<or> (\<exists>i. w' = exec (ReleaseOp i m) w)"
    using c by (auto simp: intents_release_def authAndID_def with_merchant_def say_def
        split: option.splits dest!: and_then_says)
  have req: "requests (ConfirmOp bank i m token) m" "requests (CaptureOp bank i m) m"
      "requests (RefundOp i m amount) m" "requests (ReleaseOp i m) m" for i token amount
    by simp_all
  from h consider "h = intents_create L" | "h = intents_confirm L bank" | "h = intents_capture L bank"
    | "h = intents_refund L" | "h = intents_release L"
    unfolding money_handlers_def by auto
  then show ?thesis
  proof cases
    case 1 with create run show ?thesis by blast
  next
    case 2 with confirm run req(1) show ?thesis by metis
  next
    case 3 with capture run req(2) show ?thesis by metis
  next
    case 4 with refund run req(3) show ?thesis by metis
  next
    case 5 with release run req(4) show ?thesis by metis
  qed
qed

section \<open>One request\<close>

lemma delete_book: "book_of (tables (snd (run (DeleteKey i) w))) = book_of (tables w)"
  by (auto simp: run_def Let_def split: fault.splits sum.splits dest!: quiet_statements(3) quiet_book)

lemma mark_book: "book_of (tables (snd (run (MarkCompleted i code b) w))) = book_of (tables w)"
  by (auto simp: run_def Let_def split: fault.splits sum.splits dest!: quiet_statements(2) quiet_book)

lemma finish_book: "book_of (tables (finish_phase L row out w)) = book_of (tables w)"
  by (auto simp: finish_phase_def Let_def delete_book mark_book split: outcome.split)

lemma claim_book:
  assumes "claim_phase L c rq w = (res, w1)"
  shows "book_of (tables w1) = book_of (tables w)"
  using assms
proof (cases rule: claim_cases)
  case (inserted m key hash row)
  then show ?thesis by (intro quiet_book quiet_statements(1))
qed simp

lemma once_mono: "once m S d d' \<Longrightarrow> (\<And>a. S a \<Longrightarrow> S' a) \<Longrightarrow> once m S' d d'"
  unfolding once_def by blast

lemma requested_requestable:
  "requests operation m \<or> (\<exists>inp. operation = CreateOp m inp) \<Longrightarrow> may operation a \<Longrightarrow> requestable a"
  by (cases operation) auto

text \<open>What is one act in the book, whatever else was written.\<close>

definition one_act :: "uuid \<Rightarrow> db \<Rightarrow> db \<Rightarrow> bool" where
  "one_act m d d' \<longleftrightarrow> (\<exists>u a c ph. requestable a \<and> act_on (u, a) (book_of d) = Some (book_of d') \<and>
     bk_contracts (book_of d') u = Some (c, ph) \<and> ct_merchant c = m)"

lemma once_one_act: "once m requestable d d' \<Longrightarrow> one_act m d d'"
  unfolding once_def one_act_def by blast

lemma one_act_book:
  "book_of d1 = book_of d \<Longrightarrow> book_of d2 = book_of d' \<Longrightarrow> one_act m d d' \<Longrightarrow> one_act m d1 d2"
  by (simp add: one_act_def)

lemma wrapped_one_act:
  assumes none: "tx_open w = None" and con: "consistent (tables w)"
    and h: "(path, h) \<in> set (money_handlers L bank)" and c: "MerchantID c = Some m"
    and run: "WithIdempotency L h c rq w = (out, w')"
  shows "book_of (tables w') = book_of (tables w) \<or> one_act m (tables w) (tables w')"
proof -
  obtain res w1 where cl: "claim_phase L c rq w = (res, w1)" by (cases "claim_phase L c rq w")
  note b1 = claim_book[OF cl]
  have w1: "tx_open w1 = None" "consistent (tables w1)"
    using withinD[OF steady_server.claim_within cl, of "grows (tables w)"] none con
      growth.money_invariant_axioms
    by (simp_all add: keeps_steady_def steady_def grows_def)
  show ?thesis
  proof (cases res)
    case (Inl o1)
    with run cl b1 show ?thesis by (simp add: WithIdempotency_def)
  next
    case (Inr x)
    then obtain row b where x: "res = Inr (row, b)" by (cases x) auto
    obtain o2 w2 where h2: "h c (restored rq b) w1 = (o2, w2)" by (cases "h c (restored rq b) w1")
    have w': "w' = finish_phase L row o2 w2" using run cl x h2 by (auto simp: WithIdempotency_def)
    from handler_runs_one[OF h c h2] consider (idle) "w2 = w1"
      | (ran) operation where "requests operation m \<or> (\<exists>inp. operation = CreateOp m inp)"
          and "w2 = exec operation w1" by blast
    then show ?thesis
    proof cases
      case idle
      with b1 w' show ?thesis by (simp add: finish_book)
    next
      case (ran operation)
      note op = ran(1) and w2 = ran(2)
      from operation_one_act[OF w1 op] show ?thesis
      proof
        assume "tables (exec operation w1) = tables w1"
        with b1 w' w2 show ?thesis by (simp add: finish_book)
      next
        assume "once m (may operation) (tables w1) (tables (exec operation w1))"
        then have "one_act m (tables w1) (tables w2)"
          unfolding w2 by (intro once_one_act) (erule once_mono, rule requested_requestable[OF op])
        with b1 w' show ?thesis by (intro disjI2 one_act_book[OF b1[symmetric]]) (simp_all add: finish_book)
      qed
    qed
  qed
qed

text \<open>C3: One request is at most one act: whatever the request, whatever bank and database do to it, the
  book afterwards is as before, or an active secret key came with it and exactly one act has been
  done, one that requests may do, on a contract of that key's merchant. No request settles,
  none expires, none touches two contracts, and none is carried out in half.\<close>

theorem request_at_most_one_act:
  assumes "reachable w"
  shows "book_of (tables (snd (serve L bank rq w))) = book_of (tables w) \<or>
    (\<exists>k u a c ph. presents L w rq k \<and> ak_kind k = ''secret'' \<and> requestable a \<and>
       act_on (u, a) (book_of (tables w)) = Some (book_of (tables (snd (serve L bank rq w)))) \<and>
       bk_contracts (book_of (tables (snd (serve L bank rq w)))) u = Some (c, ph) \<and>
       ct_merchant c = ak_merchant k)"
proof -
  obtain out w' where s: "serve L bank rq w = (out, w')" by (cases "serve L bank rq w")
  then have "book_of (tables w') = book_of (tables w) \<or>
    (\<exists>k. presents L w rq k \<and> ak_kind k = ''secret'' \<and> one_act (ak_merchant k) (tables w) (tables w'))"
  proof (cases rule: serve_cases)
    case reads
    then show ?thesis by (simp add: untouched_def)
  next
    case (money k c c0 path h w1 out1)
    from money(6) have w1: "tx_open w1 = None" "consistent (tables w1)" "tables w1 = tables w"
      using reachable_closed[OF assms] reachable_consistent[OF assms] by (simp_all add: untouched_def)
    from wrapped_one_act[OF w1(1,2) money(5,3,7)] money(1,2) w1(3) show ?thesis by auto
  next
    case (settings m c meth path h w1 out1)
    then have "same_money (tables w) (tables w')" by (auto simp: settings_of_def same_money_def)
    then show ?thesis by (simp add: quiet_book)
  qed
  with s show ?thesis by (simp only: one_act_def snd_conv) blast
qed

text \<open>The request that creates an intent does one act.\<close>

lemma shop_created: "t_intents (tables shop_start) = []" "t_intents (tables (snd shop_wrapped)) \<noteq> []"
  by code_simp (unfold shop_wrapped_def WithIdempotency_def claim_phase_def shop_body, code_simp)

lemma shop_book: "book_of (tables shop_served) \<noteq> book_of (tables shop_start)"
proof
  assume same: "book_of (tables shop_served) = book_of (tables shop_start)"
  have "t_intents (tables shop_served) \<noteq> []"
    using shop_created(2) by (simp add: shop_served_def shop_serve)
  then obtain p ps where "t_intents (tables shop_served) = p # ps" by (cases "t_intents (tables shop_served)") auto
  then have "bk_contracts (book_of (tables shop_served)) (pi_id p) \<noteq> None" by (simp add: book_of_def)
  moreover have "bk_contracts (book_of (tables shop_start)) (pi_id p) = None"
    by (simp add: book_of_def shop_created(1))
  ultimately show False using same by simp
qed

theorem request_at_most_one_act_witness:
  "\<exists>k u a c ph. presents shop_lib shop_start shop_request k \<and> ak_kind k = ''secret'' \<and>
     requestable a \<and>
     act_on (u, a) (book_of (tables shop_start)) = Some (book_of (tables shop_served)) \<and>
     bk_contracts (book_of (tables shop_served)) u = Some (c, ph) \<and> ct_merchant c = ak_merchant k"
  using request_at_most_one_act[OF reachable_shop(1), of shop_lib demo_bank shop_request] shop_book
  by (simp add: shop_served_def)

end
