(* ===== verification/Dispatching.thy ===== *)
theory Dispatching
  imports Webhook
begin

text \<open>
  The two ways of delivering (\<^verbatim>\<open>internal/webhook/deliver.go\<close>): \<^verbatim>\<open>ProcessDue\<close> claims and delivers in
  one process, \<^verbatim>\<open>Dispatch\<close> claims and lets a queue call \<^verbatim>\<open>DeliverByID\<close> for each row. Over a database
  that works they do the same.
\<close>

section \<open>Up to the ids of the log\<close>

text \<open>The delivery log with its random ids blanked out.\<close>

definition unnumbered :: "db \<Rightarrow> db" where
  "unnumbered d = d\<lparr>t_deliveries := map (\<lambda>r. r\<lparr>wd_id := 0\<rparr>) (t_deliveries d)\<rparr>"

lemma unnumbered_attempted:
  "unnumbered (attempted L P hc u now r d) = attempted L P hc 0 now r (unnumbered d)"
  by (auto simp: unnumbered_def attempted_def active_endpoints_def attempt_log_def
      split: list.split prod.split)

lemma attempt_time_unnumbered [simp]: "attempt_time L hc r (unnumbered d) = attempt_time L hc r d"
  by (simp add: attempt_time_def unnumbered_def active_endpoints_def)

text \<open>A stock of \<open>n\<close> ids that are fresh in the log.\<close>

definition log_stock :: "nat \<Rightarrow> world \<Rightarrow> bool" where
  "log_stock n w \<longleftrightarrow> inj_on (rng w) {rpos w..<rpos w + n} \<and>
     (\<forall>j. rpos w \<le> j \<longrightarrow> j < rpos w + n \<longrightarrow> rng w j \<notin> wd_id ` set (t_deliveries (tables w)))"

lemma log_stock_after:
  assumes st: "log_stock (4 + n) w" and k: "k \<le> 4" and j: "j < k"
    and w': "rng w' = rng w" "rpos w' = rpos w + k"
    and log: "wd_id ` set (t_deliveries (tables w')) \<subseteq>
      insert (rng w (rpos w + j)) (wd_id ` set (t_deliveries (tables w)))"
  shows "log_stock n w'"
proof -
  have inj: "inj_on (rng w) {rpos w..<rpos w + (4 + n)}" using st by (simp add: log_stock_def)
  have "rng w i \<notin> wd_id ` set (t_deliveries (tables w'))" if "rpos w' \<le> i" "i < rpos w' + n" for i
  proof -
    have "rng w i \<noteq> rng w (rpos w + j)"
      using that k j w'(2) inj_onD[OF inj, of i "rpos w + j"] by auto
    moreover have "rng w i \<notin> wd_id ` set (t_deliveries (tables w))"
    proof -
      have "rpos w \<le> i" "i < rpos w + (4 + n)" using that k w'(2) by simp_all
      then show ?thesis using st unfolding log_stock_def by blast
    qed
    ultimately show ?thesis using log by blast
  qed
  moreover have "inj_on (rng w) {rpos w'..<rpos w' + n}"
    by (rule inj_on_subset[OF inj]) (use k w'(2) in auto)
  ultimately show ?thesis using w'(1) by (simp add: log_stock_def)
qed

lemma attempted_log:
  "wd_id ` set (t_deliveries (attempted L P hc u now r d)) \<subseteq> insert u (wd_id ` set (t_deliveries d))"
  by (auto simp: attempted_def split: list.splits)

lemma attempted_outbox:
  "map ob_id (t_outbox (attempted L P hc u now r d)) = map ob_id (t_outbox d)"
  "x \<in> set (t_outbox d) \<Longrightarrow> ob_id x \<noteq> ob_id r \<Longrightarrow> x \<in> set (t_outbox (attempted L P hc u now r d))"
  by (simp_all add: attempted_def outbox_deliver.keys_update outbox_attempt.keys_update split: list.split)
     (auto simp: update_where_def intro!: image_eqI)

section \<open>Rows one after the other\<close>

text \<open>The rows a claim returned, still to be attempted.\<close>

definition queued :: "outbox list \<Rightarrow> world \<Rightarrow> bool" where
  "queued rows w \<longleftrightarrow> works w \<and> distinct (map ob_id (t_outbox (tables w))) \<and> distinct (map ob_id rows) \<and>
     (\<forall>r \<in> set rows. r \<in> set (t_outbox (tables w)) \<and> ob_status r = ''pending'') \<and>
     log_stock (4 * length rows) w"

text \<open>Attempts one after another, from a time and the tables.\<close>

definition attempt_next :: "lib \<Rightarrow> processor \<Rightarrow> hook_http \<Rightarrow> outbox \<Rightarrow> time \<times> db \<Rightarrow> time \<times> db" where
  "attempt_next L P hc r s =
     (fst s + attempt_time L hc r (snd s), attempted L P hc 0 (fst s) r (snd s))"

definition all_attempted :: "lib \<Rightarrow> processor \<Rightarrow> hook_http \<Rightarrow> outbox list \<Rightarrow> time \<times> db \<Rightarrow> time \<times> db" where
  "all_attempted L P hc rows s = fold (attempt_next L P hc) rows s"

definition seen :: "world \<Rightarrow> time \<times> db" where
  "seen w = (clock w, unnumbered (tables w))"

lemma seen_after: "seen (after_delivery L P hc j k r w) = attempt_next L P hc r (seen w)"
  by (simp add: seen_def attempt_next_def unnumbered_attempted)

lemma queued_next:
  assumes q: "queued (r # rows) w" and n: "k \<le> 4" "j < k"
    and w': "w' = after_delivery L P hc j k r w"
  shows "queued rows w'"
proof -
  have "log_stock (4 * length rows) w'"
    by (rule log_stock_after[of _ w k j])
       (use q n attempted_log[of L P hc "rng w (rpos w + j)" "clock w" r "tables w"] in
         \<open>simp_all add: queued_def w'\<close>)
  moreover have "works w'" using q by (simp add: queued_def w')
  moreover have "x \<in> set (t_outbox (tables w')) \<and> ob_status x = ''pending''" if "x \<in> set rows" for x
  proof -
    have "ob_id r \<notin> ob_id ` set rows" "ob_id x \<in> ob_id ` set rows"
      using q that by (simp_all add: queued_def)
    then have "ob_id x \<noteq> ob_id r" by metis
    with q that attempted_outbox(2) show ?thesis by (simp add: queued_def w')
  qed
  ultimately show ?thesis using q by (simp add: queued_def w' attempted_outbox(1))
qed

lemma queued_first:
  assumes "queued (r # rows) w"
  shows "works w" and "r \<in> set (t_outbox (tables w))" and "distinct (map ob_id (t_outbox (tables w)))"
    and "ob_status r = ''pending''" and "j < 4 \<Longrightarrow> rng w (rpos w + j) \<notin> wd_id ` set (t_deliveries (tables w))"
  using assms by (auto simp: queued_def log_stock_def)

lemma inline_rows:
  "queued rows w \<Longrightarrow> fst (deliver_rows L P hc rows w) = Inr () \<and>
   seen (snd (deliver_rows L P hc rows w)) = all_attempted L P hc rows (seen w)"
proof (induction rows arbitrary: w)
  case Nil
  then show ?case by (simp add: ret_def all_attempted_def)
next
  case (Cons r rows)
  note pre = queued_first[OF Cons.prems]
  from deliverRow_effect[OF pre(1-3) pre(5)[of 1], of L P hc] obtain n where n: "n \<in> {2, 3}" and
    row: "deliverRow L P hc r w = (Inr (), after_delivery L P hc 1 n r w)" by auto
  have "queued rows (after_delivery L P hc 1 n r w)"
    by (rule queued_next[OF Cons.prems _ _ refl]) (use n in auto)
  from Cons.IH[OF this] row show ?case by (simp add: bnd_def all_attempted_def seen_after)
qed

lemma queue_rows:
  "queued rows w \<Longrightarrow>
   seen (fold (\<lambda>r v. snd (DeliverByID L P hc (ob_id r) v)) rows w) = all_attempted L P hc rows (seen w)"
proof (induction rows arbitrary: w)
  case Nil
  then show ?case by (simp add: all_attempted_def)
next
  case (Cons r rows)
  note pre = queued_first[OF Cons.prems]
  from deliver_effect[OF pre(1-4) pre(5)[of 2], of L P hc] obtain n where n: "n \<in> {3, 4}" and
    row: "DeliverByID L P hc (ob_id r) w = (Inr (), after_delivery L P hc 2 n r w)" by auto
  have "queued rows (after_delivery L P hc 2 n r w)"
    by (rule queued_next[OF Cons.prems _ _ refl]) (use n in auto)
  from Cons.IH[OF this] row show ?case by (simp add: all_attempted_def seen_after)
qed

text \<open>C19: Delivering inline is the same as dispatching: over a database that works, \<^verbatim>\<open>ProcessDue\<close> handles
  as many rows, takes as long, and leaves the same tables, up to the random ids of the log, as
  \<^verbatim>\<open>Dispatch\<close> followed by one \<^verbatim>\<open>DeliverByID\<close> after the other for each id that was queued.\<close>

theorem inline_equals_dispatched:
  assumes "works w" and "distinct (map ob_id (t_outbox (tables w)))"
    and "run (ClaimDueOutbox (pr_lease P) lim) w = (Inr rows, w0)"
    and "log_stock (Suc (4 * length rows)) w"
  shows "fst (ProcessDue L P hc lim w) = Inr (length rows) \<and>
    fst (Dispatch P lim (\<lambda>_. True) w) = Inr (length rows) \<and>
    unnumbered (tables (snd (ProcessDue L P hc lim w))) =
    unnumbered (tables (fold (\<lambda>r v. snd (DeliverByID L P hc (ob_id r) v)) rows
      (snd (Dispatch P lim (\<lambda>_. True) w)))) \<and>
    clock (snd (ProcessDue L P hc lim w)) =
    clock (fold (\<lambda>r v. snd (DeliverByID L P hc (ob_id r) v)) rows (snd (Dispatch P lim (\<lambda>_. True) w)))"
proof -
  note rows = claimed_rows[OF assms(2,3)]
  have w0: "rng w0 = rng w" "rpos w0 = Suc (rpos w)" "works w0"
      "t_deliveries (tables w0) = t_deliveries (tables w)"
    using assms(1,3)
    by (auto simp: run_works works_def ClaimDueOutbox_def Let_def split: sum.splits)
  have "inj_on (rng w) {Suc (rpos w)..<Suc (rpos w) + 4 * length rows}"
    by (rule inj_on_subset[of _ "{rpos w..<rpos w + Suc (4 * length rows)}"])
       (use assms(4) in \<open>auto simp: log_stock_def\<close>)
  then have "queued rows w0"
    using rows w0 assms(4) by (auto simp: queued_def log_stock_def)
  then have "seen (snd (deliver_rows L P hc rows w0)) =
      seen (fold (\<lambda>r v. snd (DeliverByID L P hc (ob_id r) v)) rows w0)"
    and "fst (deliver_rows L P hc rows w0) = Inr ()"
    using inline_rows queue_rows by simp_all
  with assms(3) show ?thesis
    by (cases "deliver_rows L P hc rows w0")
       (simp add: ProcessDue_def Dispatch_def bnd_def and_then_def say_def ret_def list_all_iff seen_def)
qed

theorem inline_equals_dispatched_witness:
  "fst (ProcessDue plain_lib NewProcessor (\<lambda>_. (1000, Inr 200)) 10 demo_hooks) = Inr 1"
proof -
  obtain rows w0 where 1: "run (ClaimDueOutbox (pr_lease NewProcessor) 10) demo_hooks = (Inr rows, w0)"
      "length rows = 1"
    by (simp add: run_def ClaimDueOutbox_def limit_rows_def Let_def due_rows_def demo_hooks_def
        demo_event_def blank_world_def empty_db_def update_where_def lease_row_def)
  have "distinct (map (rng demo_hooks) [0..<5])" by code_simp
  then have "inj_on (rng demo_hooks) {0..<5}" by (simp add: distinct_map)
  then have "log_stock (Suc (4 * length rows)) demo_hooks"
    using 1(2) demo_hooks_setting(6)
    by (simp add: log_stock_def demo_hooks_def blank_world_def empty_db_def)
  from inline_equals_dispatched[OF demo_hooks_setting(1,3) 1(1) this, of plain_lib "\<lambda>_. (1000, Inr 200)"] 1(2)
  show ?thesis by simp
qed

end
