(* ===== verification/Draining.thy ===== *)
theory Draining
  imports Dispatching Gateway
begin

text \<open>
  How long the worker (\<^verbatim>\<open>cmd/worker/main.go\<close>) takes to clear a backlog of events, in rounds: a pause of a
  second or more, a tick of the dispatcher, then the tasks it queued, one after another, each as long as
  the merchant's server takes or the client waits for it. The retries of a row are due 1, 2, 4, 8
  and 16 seconds after the end of the attempt before, and a round takes a second at least, so the
  last of its six attempts falls in the thirty-second round at the latest.

  The worker carries out up to ten tasks at once, and its dispatcher ticks on while they run. Those
  schedules are not the subject here, nor is the time a task waits in the queue beyond the pause of its
  round.
\<close>

section \<open>A round of the worker\<close>

definition claimed_ids :: "world \<Rightarrow> uuid list" where
  "claimed_ids w =
     (case fst (run (ClaimDueOutbox (pr_lease NewProcessor) dispatchBatch) w) of
        Inl e \<Rightarrow> []
      | Inr rows \<Rightarrow> map ob_id rows)"

definition worker_round :: "lib \<Rightarrow> nat \<times> hook_http \<Rightarrow> world \<Rightarrow> world" where
  "worker_round L p w =
     (let w1 = exec (Tick (fst p)) w
      in fold (\<lambda>i. exec (WorkOp (DeliverTask L (snd p) (Some i)))) (claimed_ids w1)
           (exec (WorkOp (DispatchTick (\<lambda>_. Queued))) w1))"

definition pending_ids :: "db \<Rightarrow> uuid set" where
  "pending_ids d = ob_id ` {r \<in> set (t_outbox d). ob_status r = ''pending''}"

text \<open>The attempts that are still ahead.\<close>

definition row_left :: "outbox \<Rightarrow> int" where
  "row_left r = (if ob_status r = ''pending'' then 6 - sint (ob_attempts r) else 0)"

definition attempts_left :: "db \<Rightarrow> int" where
  "attempts_left d = (\<Sum>r\<leftarrow>t_outbox d. row_left r)"

lemma sum_update_where:
  fixes f :: "'r \<Rightarrow> int"
  assumes "distinct (map key rows)" and "r \<in> set rows"
  shows "(\<Sum>x\<leftarrow>update_where (\<lambda>x. key x = key r) g rows. f x) = (\<Sum>x\<leftarrow>rows. f x) - f r + f (g r)"
  using assms
proof (induction rows)
  case Nil
  then show ?case by simp
next
  case (Cons y ys)
  show ?case
  proof (cases "key y = key r")
    case True
    then have "y = r" using distinct_key_eq[OF Cons.prems(1), of y r] Cons.prems(2) by simp
    moreover have "update_where (\<lambda>x. key x = key r) g ys = ys"
      using Cons.prems(1) True unfolding update_where_def by (intro map_idI) (force simp: image_iff)
    ultimately show ?thesis by (simp add: update_where_def)
  next
    case False
    with Cons have "r \<in> set ys" by auto
    with Cons False show ?thesis by (simp add: update_where_def)
  qed
qed

section \<open>Delivering all that was claimed\<close>

text \<open>What an attempt between two times may make of a row.\<close>

definition handled :: "time \<Rightarrow> time \<Rightarrow> outbox \<Rightarrow> outbox \<Rightarrow> bool" where
  "handled t t' r x \<longleftrightarrow> x = deliver_row r \<or>
     (\<exists>L hc ep now. x = after_attempt L NewProcessor hc now ep r \<and> t \<le> now \<and>
        now + int (fst (hook_answer L hc ep r)) \<le> t')"

lemma handled_mono: "handled t t' r x \<Longrightarrow> s \<le> t \<Longrightarrow> t' \<le> s' \<Longrightarrow> handled s s' r x"
  unfolding handled_def by (elim disjE exE conjE) (simp, metis order_trans)

lemma after_attempt_pending:
  assumes pend: "ob_status (after_attempt L NewProcessor hc now ep r) = ''pending''"
  shows "sint (ob_attempts r + 1) < 6"
    and "ob_attempts (after_attempt L NewProcessor hc now ep r) = ob_attempts r + 1"
    and "ob_next (after_attempt L NewProcessor hc now ep r) = now + int (fst (hook_answer L hc ep r)) +
      backoff NewProcessor (sint (ob_attempts r + 1))"
proof -
  obtain t a where h: "hook_answer L hc ep r = (t, a)" by (cases "hook_answer L hc ep r")
  obtain code ok err where v: "hook_verdict a = (code, ok, err)" by (metis prod_cases3)
  have six: "pr_max_attempts NewProcessor = 6" by (simp add: NewProcessor_def)
  note attempt = after_attempt_def h v six deliver_row_def kill_row_def retry_row_def
  have live: "\<not> ok" "\<not> 6 \<le> sint (ob_attempts r + 1)"
    using pend by (simp_all add: attempt split: if_splits)
  then show "sint (ob_attempts r + 1) < 6"
    and "ob_attempts (after_attempt L NewProcessor hc now ep r) = ob_attempts r + 1"
    and "ob_next (after_attempt L NewProcessor hc now ep r) = now + int (fst (hook_answer L hc ep r)) +
      backoff NewProcessor (sint (ob_attempts r + 1))"
    by (simp_all add: attempt)
qed

lemma handled_pending:
  assumes "handled t t' r x" and pend: "ob_status x = ''pending''"
  shows "\<exists>ended. ob_id x = ob_id r \<and> sint (ob_attempts r + 1) < 6 \<and> ob_attempts x = ob_attempts r + 1 \<and>
    ended \<le> t' \<and> ob_next x = ended + backoff NewProcessor (sint (ob_attempts r + 1))"
proof -
  from assms obtain L hc ep now where x: "x = after_attempt L NewProcessor hc now ep r"
    and le: "now + int (fst (hook_answer L hc ep r)) \<le> t'"
    by (auto simp: handled_def deliver_row_def)
  from after_attempt_pending[OF pend[unfolded x]] le show ?thesis unfolding x by auto
qed

lemma attempted_rows:
  assumes dist: "distinct (map ob_id (t_outbox d))" and r: "r \<in> set (t_outbox d)"
    and x: "x \<in> set (t_outbox (attempted L NewProcessor hc u now r d))"
  shows "x \<in> set (t_outbox d) \<and> ob_id x \<noteq> ob_id r \<or> handled now (now + attempt_time L hc r d) r x"
proof -
  have "x \<in> set (update_where (\<lambda>y. ob_id y = ob_id r) f (t_outbox d)) \<Longrightarrow>
      x \<in> set (t_outbox d) \<and> ob_id x \<noteq> ob_id r \<or> x = f r" for f
    using distinct_key_eq[OF dist _ r] by (auto simp: update_where_def split: if_splits)
  note cases = this
  show ?thesis
  proof (cases "active_endpoints (ob_merchant r) d")
    case Nil
    with x cases[of deliver_row] show ?thesis by (auto simp: attempted_def handled_def)
  next
    case (Cons ep eps)
    with x cases[of "after_attempt L NewProcessor hc now ep"]
    have "x \<in> set (t_outbox d) \<and> ob_id x \<noteq> ob_id r \<or> x = after_attempt L NewProcessor hc now ep r"
      by (simp add: attempted_def)
    moreover have "now + int (fst (hook_answer L hc ep r)) \<le> now + attempt_time L hc r d"
      using Cons by (simp add: attempt_time_def)
    ultimately show ?thesis unfolding handled_def by blast
  qed
qed

text \<open>An attempt spends one of those ahead, and ten seconds at most.\<close>

lemma attempted_left:
  assumes dist: "distinct (map ob_id (t_outbox d))" and r: "r \<in> set (t_outbox d)"
    and pend: "ob_status r = ''pending''" and few: "sint (ob_attempts r) < 6"
  shows "attempt_time L hc r d + seconds 10 * attempts_left (attempted L NewProcessor hc u now r d) \<le>
    seconds 10 * attempts_left d"
proof -
  have "row_left (deliver_row r) + 1 \<le> row_left r"
    using pend few by (simp add: row_left_def deliver_row_def)
  moreover have "row_left (after_attempt L NewProcessor hc now ep r) + 1 \<le> row_left r" for ep
  proof (cases "ob_status (after_attempt L NewProcessor hc now ep r) = ''pending''")
    case True
    from after_attempt_pending(2)[OF True] True pend few sint_Suc[of "ob_attempts r"] show ?thesis by (simp add: row_left_def)
  next
    case False
    with pend few show ?thesis by (simp add: row_left_def)
  qed
  ultimately have "attempts_left (attempted L NewProcessor hc u now r d) + 1 \<le> attempts_left d"
    by (auto simp: attempts_left_def attempted_def sum_update_where[OF dist r] split: list.split)
  with attempt_time_bounds(2)[of L hc r d] show ?thesis by (simp add: seconds_def)
qed

lemma deliver_all:
  assumes "works w" and "distinct (map ob_id (t_outbox (tables w)))" and "distinct (map ob_id rows)"
    and "\<forall>r \<in> set rows. r \<in> set (t_outbox (tables w)) \<and> ob_status r = ''pending'' \<and> sint (ob_attempts r) < 6"
    and "log_stock (4 * length rows + n) w"
    and "v = fold (\<lambda>i v. snd (DeliverByID L NewProcessor hc i v)) (map ob_id rows) w"
  shows "works v \<and> clock w \<le> clock v \<and> log_stock n v \<and>
    map ob_id (t_outbox (tables v)) = map ob_id (t_outbox (tables w)) \<and>
    clock v + seconds 10 * attempts_left (tables v) \<le> clock w + seconds 10 * attempts_left (tables w) \<and>
    (\<forall>x \<in> set (t_outbox (tables v)).
       x \<in> set (t_outbox (tables w)) \<and> ob_id x \<notin> ob_id ` set rows \<or>
       (\<exists>r \<in> set rows. handled (clock w) (clock v) r x))"
  using assms
proof (induction rows arbitrary: w)
  case Nil
  then show ?case by simp
next
  case (Cons r rows)
  have r: "r \<in> set (t_outbox (tables w))" "ob_status r = ''pending''" "sint (ob_attempts r) < 6"
    using Cons.prems(4) by auto
  have free: "rng w (rpos w + 2) \<notin> wd_id ` set (t_deliveries (tables w))"
    using Cons.prems(5) by (auto simp: log_stock_def)
  obtain k where k: "k \<in> {3, 4}" and
    row: "DeliverByID L NewProcessor hc (ob_id r) w = (Inr (), after_delivery L NewProcessor hc 2 k r w)"
    using deliver_effect[OF Cons.prems(1) r(1) Cons.prems(2) r(2) free, of L NewProcessor hc]
    by (rule bexE)
  define w1 where "w1 = after_delivery L NewProcessor hc 2 k r w"
  have stock: "log_stock (4 * length rows + n) w1"
    by (rule log_stock_after[of "4 * length rows + n" w k 2])
       (use Cons.prems(5) k attempted_log[of L NewProcessor hc "rng w (rpos w + 2)" "clock w" r "tables w"] in
         \<open>auto simp: w1_def ac_simps\<close>)
  have w1: "works w1" "map ob_id (t_outbox (tables w1)) = map ob_id (t_outbox (tables w))"
    and c1: "clock w \<le> clock w1" "clock w1 = clock w + attempt_time L hc r (tables w)"
    using Cons.prems(1) attempt_time_bounds(1) by (simp_all add: w1_def attempted_outbox)
  have left: "clock w1 + seconds 10 * attempts_left (tables w1) \<le>
      clock w + seconds 10 * attempts_left (tables w)"
    using attempted_left[OF Cons.prems(2) r, of L hc] by (simp add: w1_def)
  have others: "ob_id x \<noteq> ob_id r" if "x \<in> set rows" for x
    using Cons.prems(3) that by simp (metis imageI)
  then have rest: "\<forall>x \<in> set rows. x \<in> set (t_outbox (tables w1)) \<and> ob_status x = ''pending'' \<and>
      sint (ob_attempts x) < 6"
    using Cons.prems(4) attempted_outbox(2) by (simp add: w1_def)
  have IH: "works v \<and> clock w1 \<le> clock v \<and> log_stock n v \<and>
    map ob_id (t_outbox (tables v)) = map ob_id (t_outbox (tables w1)) \<and>
    clock v + seconds 10 * attempts_left (tables v) \<le> clock w1 + seconds 10 * attempts_left (tables w1) \<and>
    (\<forall>x \<in> set (t_outbox (tables v)).
       x \<in> set (t_outbox (tables w1)) \<and> ob_id x \<notin> ob_id ` set rows \<or>
       (\<exists>r \<in> set rows. handled (clock w1) (clock v) r x))"
    by (rule Cons.IH) (use Cons.prems w1 rest stock row[folded w1_def] in simp_all)
  have first: "x \<in> set (t_outbox (tables w)) \<and> ob_id x \<noteq> ob_id r \<or> handled (clock w) (clock w1) r x"
    if "x \<in> set (t_outbox (tables w1))" for x
    using attempted_rows[OF Cons.prems(2) r(1)] that by (simp add: w1_def)
  have "x \<in> set (t_outbox (tables w)) \<and> ob_id x \<notin> ob_id ` set (r # rows) \<or>
      (\<exists>r' \<in> set (r # rows). handled (clock w) (clock v) r' x)"
    if x: "x \<in> set (t_outbox (tables v))" for x
    using IH x first[of x] c1(1)
    by (elim conjE ballE disjE bexE) (auto intro: handled_mono)
  with IH w1 c1(1) left show ?case by auto
qed

section \<open>One claim\<close>

lemma due_length:
  assumes "distinct (map ob_id (t_outbox d))"
  shows "length (due_rows now d) \<le> card (pending_ids d)"
proof -
  let ?rows = "filter (\<lambda>r. ob_status r = ''pending'' \<and> ob_next r \<le> now) (t_outbox d)"
  have "distinct (map ob_id ?rows)" using assms by (simp add: distinct_map_filter)
  then have "length ?rows = card (ob_id ` set ?rows)" using distinct_card by fastforce
  also have "\<dots> \<le> card (pending_ids d)"
    by (rule card_mono) (auto simp: pending_ids_def)
  finally show ?thesis by (simp add: due_rows_def)
qed

text \<open>The dispatcher claims every due row when there are at most a hundred.\<close>

lemma claim_all:
  assumes w: "works w" and dist: "distinct (map ob_id (t_outbox (tables w)))"
    and few: "card (pending_ids (tables w)) \<le> 100"
  obtains rows w0 where "run (ClaimDueOutbox (pr_lease NewProcessor) dispatchBatch) w = (Inr rows, w0)"
    and "ob_id ` set rows = ob_id ` {r \<in> set (t_outbox (tables w)).
           ob_status r = ''pending'' \<and> ob_next r \<le> clock w}"
    and "\<forall>r \<in> set rows. \<exists>r0 \<in> set (t_outbox (tables w)). r = lease_row (clock w + seconds 30) r0 \<and>
           ob_status r0 = ''pending'' \<and> ob_next r0 \<le> clock w"
    and "\<forall>x \<in> set (t_outbox (tables w0)). ob_id x \<notin> ob_id ` set rows \<longrightarrow> x \<in> set (t_outbox (tables w))"
    and "map ob_id (t_outbox (tables w0)) = map ob_id (t_outbox (tables w))"
    and "w0 = w\<lparr>fpos := Suc (fpos w), rpos := Suc (rpos w), tables := tables w0\<rparr>"
    and "t_deliveries (tables w0) = t_deliveries (tables w)"
    and "attempts_left (tables w0) = attempts_left (tables w)"
proof -
  let ?due = "due_rows (clock w) (tables w)"
  have len: "length ?due \<le> 100" using due_length[OF dist, of "clock w"] few by linarith
  obtain rows w0 where r: "run (ClaimDueOutbox (pr_lease NewProcessor) dispatchBatch) w = (Inr rows, w0)"
    using w by (simp add: run_works ClaimDueOutbox_def limit_rows_def dispatchBatch_def Let_def)
  then obtain u where cl: "ClaimDueOutbox (pr_lease NewProcessor) dispatchBatch u (clock w) (tables w) =
      Inr (rows, tables w0)"
    by (auto elim!: run_success)
  have w0: "w0 = w\<lparr>fpos := Suc (fpos w), rpos := Suc (rpos w), tables := tables w0\<rparr>"
    using r w by (auto simp: run_works split: sum.splits)
  have ids: "ob_id ` set rows = ob_id ` {r \<in> set (t_outbox (tables w)).
           ob_status r = ''pending'' \<and> ob_next r \<le> clock w}"
    using claim_rows(1)[OF cl] len by (simp add: dispatchBatch_def due_rows_def)
  have out: "t_outbox (tables w0) = update_where (\<lambda>r. ob_id r \<in> ob_id ` set rows)
      (lease_row (clock w + seconds 30)) (t_outbox (tables w))"
    using claim_rows(2)[OF cl] by (simp add: NewProcessor_def)
  have leased: "\<exists>r0 \<in> set (t_outbox (tables w)). r = lease_row (clock w + seconds 30) r0 \<and>
           ob_status r0 = ''pending'' \<and> ob_next r0 \<le> clock w" if "r \<in> set rows" for r
  proof -
    have "r \<in> set (t_outbox (tables w0))" "ob_id r \<in> ob_id ` set rows"
      using that eqset_imp_iff[OF arg_cong[OF claim_rows(4)[OF cl], of set], of r]
      by (simp_all only: set_filter mem_Collect_eq set_map simp_thms)
    then obtain r0 where r0: "r0 \<in> set (t_outbox (tables w))"
        "r = lease_row (clock w + seconds 30) r0" "ob_id r0 \<in> ob_id ` set rows"
      unfolding out by (auto simp: update_where_def lease_row_def split: if_splits)
    then obtain r1 where "r1 \<in> set (t_outbox (tables w))" "ob_id r1 = ob_id r0"
        "ob_status r1 = ''pending''" "ob_next r1 \<le> clock w"
      unfolding ids by auto
    with r0 distinct_key_eq[OF dist] show ?thesis by metis
  qed
  have "map ob_id (t_outbox (tables w0)) = map ob_id (t_outbox (tables w))"
    by (simp add: out outbox_lease.keys_update)
  moreover have "\<forall>x \<in> set (t_outbox (tables w0)).
      ob_id x \<notin> ob_id ` set rows \<longrightarrow> x \<in> set (t_outbox (tables w))"
    unfolding out by (auto simp: update_where_def lease_row_def split: if_splits)
  moreover have "t_deliveries (tables w0) = t_deliveries (tables w)"
    using arg_cong[OF claim_rows(3)[OF cl], of t_deliveries] by simp
  moreover have "attempts_left (tables w0) = attempts_left (tables w)"
    unfolding attempts_left_def out update_where_def map_map
    by (intro arg_cong[of _ _ sum_list] map_cong) (simp_all add: row_left_def lease_row_def)
  ultimately show thesis using that[OF r ids] leased w0 by blast
qed

text \<open>
  A round, from before its pause: a row still pending after it either was not yet due, or has
  made an attempt and is due again after the backoff.
\<close>

definition backlog :: "nat \<Rightarrow> world \<Rightarrow> bool" where
  "backlog n w \<longleftrightarrow> works w \<and> distinct (map ob_id (t_outbox (tables w))) \<and>
     card (pending_ids (tables w)) \<le> 100 \<and> log_stock (401 * n) w \<and>
     (\<forall>r \<in> set (t_outbox (tables w)). ob_status r = ''pending'' \<longrightarrow> sint (ob_attempts r) < 6)"

lemma round_step:
  assumes b: "backlog (Suc n) w" and v: "v = worker_round L (pause, hc) w" and t: "t = clock w + int pause"
  shows "backlog n v \<and> t \<le> clock v \<and>
    clock v + seconds 10 * attempts_left (tables v) \<le> t + seconds 10 * attempts_left (tables w) \<and>
    (\<forall>x \<in> set (t_outbox (tables v)). ob_status x = ''pending'' \<longrightarrow>
       x \<in> set (t_outbox (tables w)) \<and> t < ob_next x \<or>
       (\<exists>r \<in> set (t_outbox (tables w)). \<exists>ended \<le> clock v. ob_status r = ''pending'' \<and>
          sint (ob_attempts r + 1) < 6 \<and> ob_attempts x = ob_attempts r + 1 \<and>
          ob_next x = ended + backoff NewProcessor (sint (ob_attempts r + 1))))"
proof -
  define w1 where "w1 = exec (Tick pause) w"
  have w1: "works w1" "distinct (map ob_id (t_outbox (tables w1)))" "clock w1 = t"
      "card (pending_ids (tables w1)) \<le> 100" "log_stock (401 * Suc n) w1" "tables w1 = tables w"
    and six: "\<forall>r \<in> set (t_outbox (tables w1)). ob_status r = ''pending'' \<longrightarrow> sint (ob_attempts r) < 6"
    using b t by (simp_all add: w1_def backlog_def works_def log_stock_def)
  obtain rows w0 where r: "run (ClaimDueOutbox (pr_lease NewProcessor) dispatchBatch) w1 = (Inr rows, w0)"
    and ids: "ob_id ` set rows = ob_id ` {r \<in> set (t_outbox (tables w1)).
           ob_status r = ''pending'' \<and> ob_next r \<le> clock w1}"
    and leased: "\<forall>r \<in> set rows. \<exists>r0 \<in> set (t_outbox (tables w1)).
           r = lease_row (clock w1 + seconds 30) r0 \<and> ob_status r0 = ''pending'' \<and> ob_next r0 \<le> clock w1"
    and others: "\<forall>x \<in> set (t_outbox (tables w0)). ob_id x \<notin> ob_id ` set rows \<longrightarrow>
           x \<in> set (t_outbox (tables w1))"
    and keys: "map ob_id (t_outbox (tables w0)) = map ob_id (t_outbox (tables w1))"
    and w0: "w0 = w1\<lparr>fpos := Suc (fpos w1), rpos := Suc (rpos w1), tables := tables w0\<rparr>"
    and log: "t_deliveries (tables w0) = t_deliveries (tables w1)"
    and left: "attempts_left (tables w0) = attempts_left (tables w1)"
    by (rule claim_all[OF w1(1,2,4)])
  note claimed = claimed_rows[OF w1(2) r]
  have len: "4 * length rows + 401 * n \<le> 401 * Suc n - 1"
    using claimed(2) by (simp add: dispatchBatch_def)
  have w0': "works w0" "clock w0 = t" "rng w0 = rng w1" "rpos w0 = Suc (rpos w1)"
    by (subst w0, use w1 in \<open>simp add: works_def\<close>)+
  have stock: "log_stock (4 * length rows + 401 * n) w0"
  proof -
    have "inj_on (rng w1) {rpos w0..<rpos w0 + (4 * length rows + 401 * n)}"
      by (rule inj_on_subset[of _ "{rpos w1..<rpos w1 + 401 * Suc n}"])
         (use w1(5) len w0'(4) in \<open>auto simp: log_stock_def\<close>)
    then show ?thesis
      using w1(5) len w0'(3,4) log unfolding log_stock_def by auto
  qed
  have v': "v = fold (\<lambda>i v. snd (DeliverByID L NewProcessor hc i v)) (map ob_id rows) w0"
  proof -
    have "claimed_ids w1 = map ob_id rows" by (simp add: claimed_ids_def r)
    moreover have "exec (WorkOp (DispatchTick (\<lambda>_. Queued))) w1 = w0"
      using r by (simp add: Dispatch_def and_then_def say_def)
    moreover have "exec (WorkOp (DeliverTask L hc (Some i))) =
        (\<lambda>v. snd (DeliverByID L NewProcessor hc i v))" for i
      by (rule ext) simp
    ultimately show ?thesis unfolding v worker_round_def Let_def fst_conv snd_conv w1_def[symmetric] by (simp only:)
  qed
  have ready: "\<forall>r \<in> set rows. r \<in> set (t_outbox (tables w0)) \<and> ob_status r = ''pending'' \<and>
      sint (ob_attempts r) < 6"
    using claimed(3,4) leased six by (force simp: lease_row_def)
  have d: "works v \<and> clock w0 \<le> clock v \<and> log_stock (401 * n) v \<and>
    map ob_id (t_outbox (tables v)) = map ob_id (t_outbox (tables w0)) \<and>
    clock v + seconds 10 * attempts_left (tables v) \<le> clock w0 + seconds 10 * attempts_left (tables w0) \<and>
    (\<forall>x \<in> set (t_outbox (tables v)).
       x \<in> set (t_outbox (tables w0)) \<and> ob_id x \<notin> ob_id ` set rows \<or>
       (\<exists>r \<in> set rows. handled (clock w0) (clock v) r x))"
    by (rule deliver_all[OF w0'(1) claimed(5,1) ready stock v'])
  have step: "x \<in> set (t_outbox (tables w)) \<and> t < ob_next x \<or>
       (\<exists>r \<in> set (t_outbox (tables w)). \<exists>ended \<le> clock v. ob_id x = ob_id r \<and> ob_status r = ''pending'' \<and>
          sint (ob_attempts r + 1) < 6 \<and> ob_attempts x = ob_attempts r + 1 \<and>
          ob_next x = ended + backoff NewProcessor (sint (ob_attempts r + 1)))"
    if x: "x \<in> set (t_outbox (tables v))" and pend: "ob_status x = ''pending''" for x
    using d x
  proof (elim conjE ballE disjE)
    assume "x \<in> set (t_outbox (tables w0))" and no: "ob_id x \<notin> ob_id ` set rows"
    with others have "x \<in> set (t_outbox (tables w1))" by blast
    with no pend ids w1(3,6) show ?thesis by force
  next
    assume "\<exists>r \<in> set rows. handled (clock w0) (clock v) r x"
    then obtain r0 where r0: "r0 \<in> set (t_outbox (tables w1))" "ob_status r0 = ''pending''"
        "handled (clock w0) (clock v) (lease_row (clock w1 + seconds 30) r0) x"
      using leased by metis
    from handled_pending[OF r0(3) pend] obtain ended where "ended \<le> clock v" "ob_id x = ob_id r0"
        "sint (ob_attempts r0 + 1) < 6" "ob_attempts x = ob_attempts r0 + 1"
        "ob_next x = ended + backoff NewProcessor (sint (ob_attempts r0 + 1))"
      by (auto simp: lease_row_def)
    with r0(1,2) w1(6) show ?thesis by auto
  qed auto
  have "pending_ids (tables v) \<subseteq> pending_ids (tables w)"
    using step by (auto simp: pending_ids_def)
  then have few: "card (pending_ids (tables v)) \<le> card (pending_ids (tables w))"
    by (rule card_mono[rotated]) (simp add: pending_ids_def)
  have "sint (ob_attempts x) < 6" if "x \<in> set (t_outbox (tables v))" "ob_status x = ''pending''" for x
    using step[OF that] six that(2) w1(6) by auto
  with few have "backlog n v"
    using d keys w1 b by (simp add: backlog_def)
  moreover have "t \<le> clock v" "clock v + seconds 10 * attempts_left (tables v) \<le>
      t + seconds 10 * attempts_left (tables w)"
    using d w0'(2) left w1(6) by simp_all
  ultimately show ?thesis using step by blast
qed

section \<open>Thirty-two rounds clear the backlog\<close>

text \<open>
  Before round \<open>j\<close> starts at \<open>now\<close>, a pending row that has made \<open>a\<close> attempts is due before the pause of
  some round \<open>n\<close> from \<open>j\<close> on ends, and \<open>n\<close> is less than \<open>2 ^ a\<close>.
\<close>

definition scheduled :: "nat \<Rightarrow> time \<Rightarrow> outbox \<Rightarrow> bool" where
  "scheduled j now r \<longleftrightarrow> (\<exists>a n. sint (ob_attempts r) = int a \<and> a \<le> 5 \<and>
     ob_next r \<le> now + seconds (int n - int j + 1) \<and> j \<le> n \<and> n < 2 ^ a)"

lemma scheduled_retry:
  assumes s: "scheduled j t r" and "sint (ob_attempts r + 1) < 6" and "ob_attempts x = ob_attempts r + 1"
    and "ob_next x = ended + backoff NewProcessor (sint (ob_attempts r + 1))" and "ended \<le> now"
  shows "scheduled (Suc j) now x"
proof -
  from s obtain a n where an: "sint (ob_attempts r) = int a" "a \<le> 5" "j \<le> n" "n < 2 ^ a"
    unfolding scheduled_def by blast
  have a: "sint (ob_attempts r + 1) = int a + 1" using sint_Suc[of "ob_attempts r"] an(1,2) by simp
  with assms(2) have "a \<in> {0, 1, 2, 3, 4}" by auto
  then have "backoff NewProcessor (int a + 1) = seconds (2 ^ a)"
    using backoff_closed[of "int a + 1"] by (auto simp: seconds_def)
  then have "ob_next x \<le> now + seconds (int (j + 2 ^ a) - int (Suc j) + 1)"
    using assms(4,5) a by (simp add: seconds_def)
  moreover have "sint (ob_attempts x) = int (Suc a)" "Suc a \<le> 5" "Suc j \<le> j + 2 ^ a"
      "j + 2 ^ a < 2 ^ Suc a"
    using assms(2,3) a an by simp_all
  ultimately show ?thesis unfolding scheduled_def by blast
qed

lemma scheduled_round:
  assumes b: "backlog (Suc n) w" and pause: "seconds 1 \<le> int pause"
    and s: "\<forall>r \<in> set (t_outbox (tables w)). ob_status r = ''pending'' \<longrightarrow> scheduled j (clock w) r"
    and r: "r \<in> set (t_outbox (tables (worker_round L (pause, hc) w)))" "ob_status r = ''pending''"
  shows "scheduled (Suc j) (clock (worker_round L (pause, hc) w)) r"
proof -
  note step = round_step[OF b refl refl, of L pause hc]
  from step r consider (waits) "r \<in> set (t_outbox (tables w))" "clock w + int pause < ob_next r"
    | (tried) r0 ended where "r0 \<in> set (t_outbox (tables w))" "ob_status r0 = ''pending''"
        "sint (ob_attempts r0 + 1) < 6" "ob_attempts r = ob_attempts r0 + 1"
        "ob_next r = ended + backoff NewProcessor (sint (ob_attempts r0 + 1))"
        "ended \<le> clock (worker_round L (pause, hc) w)"
    by blast
  then show ?thesis
  proof cases
    case waits
    with s r(2) obtain a m where m: "sint (ob_attempts r) = int a" "a \<le> 5"
        "ob_next r \<le> clock w + seconds (int m - int j + 1)" "j \<le> m" "m < 2 ^ a"
      unfolding scheduled_def by blast
    have "Suc j \<le> m" using waits(2) m(3,4) pause by (cases "m = j") (auto simp: seconds_def)
    moreover have "ob_next r \<le> clock (worker_round L (pause, hc) w) + seconds (int m - int (Suc j) + 1)"
      using m(3) step pause by (simp add: seconds_def)
    ultimately show ?thesis using m unfolding scheduled_def by blast
  next
    case tried
    with s show ?thesis by (intro scheduled_retry[of j "clock w" r0]) simp_all
  qed
qed

lemma rounds_steps:
  assumes "backlog (length ps) w" and "\<forall>p \<in> set ps. seconds 1 \<le> int (fst p)"
    and "\<forall>r \<in> set (t_outbox (tables w)). ob_status r = ''pending'' \<longrightarrow> scheduled j (clock w) r"
    and "v = fold (worker_round L) ps w"
  shows "(\<forall>r \<in> set (t_outbox (tables v)). ob_status r = ''pending'' \<longrightarrow> scheduled (j + length ps) (clock v) r) \<and>
    clock v + seconds 10 * attempts_left (tables v) \<le>
    clock w + (\<Sum>p\<leftarrow>ps. int (fst p)) + seconds 10 * attempts_left (tables w)"
  using assms
proof (induction ps arbitrary: w j)
  case Nil
  then show ?case by simp
next
  case (Cons p ps)
  obtain pause hc where p: "p = (pause, hc)" by (cases p)
  have b: "backlog (Suc (length ps)) w" using Cons.prems(1) by simp
  note step = round_step[OF b refl refl, of L pause hc]
  have "backlog (length ps) (worker_round L p w)" using step p by blast
  moreover have "\<forall>r \<in> set (t_outbox (tables (worker_round L p w))). ob_status r = ''pending'' \<longrightarrow>
      scheduled (Suc j) (clock (worker_round L p w)) r"
    using scheduled_round[OF b _ Cons.prems(3)] Cons.prems(2) p by simp
  ultimately have IH: "(\<forall>r \<in> set (t_outbox (tables v)). ob_status r = ''pending'' \<longrightarrow>
      scheduled (Suc j + length ps) (clock v) r) \<and>
    clock v + seconds 10 * attempts_left (tables v) \<le> clock (worker_round L p w) + (\<Sum>p\<leftarrow>ps. int (fst p)) +
      seconds 10 * attempts_left (tables (worker_round L p w))"
    using Cons.prems(2,4) by (intro Cons.IH) simp_all
  with step p show ?case by simp
qed

lemma attempts_left_bound:
  assumes "distinct (map ob_id (t_outbox d))"
    and "\<forall>r \<in> set (t_outbox d). ob_status r = ''pending'' \<longrightarrow> 0 \<le> sint (ob_attempts r)"
  shows "attempts_left d \<le> 6 * int (card (pending_ids d))"
proof -
  let ?ps = "filter (\<lambda>r. ob_status r = ''pending'') (t_outbox d)"
  have "(\<Sum>r\<leftarrow>rs. row_left r) \<le> 6 * int (length (filter (\<lambda>r. ob_status r = ''pending'') rs))"
    if "\<forall>r \<in> set rs. ob_status r = ''pending'' \<longrightarrow> 0 \<le> sint (ob_attempts r)" for rs
    using that by (induction rs) (auto simp: row_left_def)
  then have "attempts_left d \<le> 6 * int (length ?ps)" using assms(2) by (simp add: attempts_left_def)
  moreover have "length ?ps = card (pending_ids d)"
    using assms(1) distinct_card[of "map ob_id ?ps"]
    by (simp add: pending_ids_def distinct_map_filter)
  ultimately show ?thesis by simp
qed

text \<open>C15: Thirty-two rounds of the worker clear its backlog, whatever the merchants' servers answer and
  however long they take: over a database that works, at most a hundred pending events, none of them due
  later than a second from now, are all delivered or dead after thirty-two rounds, each a pause of a
  second or more, a tick of the dispatcher, and the tasks it queued, one after another. All of it
  takes the pauses and at most a minute per event, six attempts of at most ten seconds.\<close>

theorem backlog_cleared:
  assumes "works w" and "distinct (map ob_id (t_outbox (tables w)))"
    and "card (pending_ids (tables w)) \<le> 100"
    and "\<forall>r \<in> set (t_outbox (tables w)). ob_status r = ''pending'' \<longrightarrow>
      0 \<le> sint (ob_attempts r) \<and> sint (ob_attempts r) < 6 \<and> ob_next r \<le> clock w + seconds 1"
    and "log_stock (401 * 32) w" and "length ps = 32" and "\<forall>p \<in> set ps. seconds 1 \<le> int (fst p)"
  shows "pending_ids (tables (fold (worker_round L) ps w)) = {} \<and>
    clock (fold (worker_round L) ps w) \<le>
      clock w + (\<Sum>p\<leftarrow>ps. int (fst p)) + seconds 60 * int (card (pending_ids (tables w)))"
proof -
  let ?v = "fold (worker_round L) ps w"
  have b: "backlog (length ps) w" using assms(1-6) by (simp add: backlog_def)
  have "scheduled 0 (clock w) r" if r: "r \<in> set (t_outbox (tables w))" "ob_status r = ''pending''" for r
  proof -
    have "sint (ob_attempts r) = int (nat (sint (ob_attempts r)))" "nat (sint (ob_attempts r)) \<le> 5"
      "ob_next r \<le> clock w + seconds (int 0 - int 0 + 1)"
      using assms(4) r by auto
    then show ?thesis unfolding scheduled_def by (metis le_refl zero_less_numeral zero_less_power)
  qed
  from rounds_steps[OF b assms(7) _ refl, of 0 L] this
  have later: "r \<in> set (t_outbox (tables ?v)) \<Longrightarrow> ob_status r = ''pending'' \<Longrightarrow> scheduled 32 (clock ?v) r"
    and time: "clock ?v + seconds 10 * attempts_left (tables ?v) \<le>
      clock w + (\<Sum>p\<leftarrow>ps. int (fst p)) + seconds 10 * attempts_left (tables w)" for r
    using assms(6) by auto
  have "\<not> scheduled 32 t r" for t r
  proof
    assume "scheduled 32 t r"
    then obtain a n where "a \<le> 5" "32 \<le> n" "n < (2::nat) ^ a" unfolding scheduled_def by blast
    moreover from this(1) have "(2::nat) ^ a \<le> 2 ^ 5" by (intro power_increasing) simp_all
    ultimately show False by simp
  qed
  with later have none: "\<forall>r \<in> set (t_outbox (tables ?v)). ob_status r \<noteq> ''pending''" by blast
  have "(\<Sum>r\<leftarrow>rs. row_left r) = 0" if "\<forall>r \<in> set rs. ob_status r \<noteq> ''pending''" for rs
    using that by (induction rs) (simp_all add: row_left_def)
  then have "attempts_left (tables ?v) = 0" using none by (simp add: attempts_left_def)
  moreover have "attempts_left (tables w) \<le> 6 * int (card (pending_ids (tables w)))"
    using assms(2,4) by (intro attempts_left_bound) simp_all
  ultimately have "clock ?v \<le> clock w + (\<Sum>p\<leftarrow>ps. int (fst p)) + seconds 60 * int (card (pending_ids (tables w)))"
    using time by (simp add: seconds_def)
  with none show ?thesis by (auto simp: pending_ids_def)
qed

text \<open>One event, whose endpoint hangs for sixteen rounds and then answers 500: a minute and a half.\<close>

theorem backlog_cleared_witness:
  "pending_ids (tables (fold (worker_round plain_lib)
     (replicate 16 (1000000, \<lambda>_. (60000000, Inr 200)) @ replicate 16 (1000000, \<lambda>_. (1000, Inr 500))) demo_hooks)) = {} \<and>
   clock (fold (worker_round plain_lib)
     (replicate 16 (1000000, \<lambda>_. (60000000, Inr 200)) @ replicate 16 (1000000, \<lambda>_. (1000, Inr 500))) demo_hooks)
     \<le> seconds 92"
proof -
  let ?ps = "replicate 16 (1000000, \<lambda>_. (60000000, Inr 200)) @ replicate 16 (1000000, \<lambda>_. (1000, Inr 500)) ::
    (nat \<times> hook_http) list"
  have rows: "t_outbox (tables demo_hooks) = [demo_event]" "clock demo_hooks = 0"
      "t_deliveries (tables demo_hooks) = []" "rpos demo_hooks = 0"
      "rng demo_hooks = (\<lambda>n. word_of_nat (Suc n))"
    by (simp_all add: demo_hooks_def blank_world_def empty_db_def)
  have "{r \<in> set [demo_event]. ob_status r = ''pending''} = {demo_event}"
    using demo_hooks_setting(4) by auto
  then have one: "pending_ids (tables demo_hooks) = {ob_id demo_event}"
    unfolding pending_ids_def rows by simp
  have early: "\<forall>r \<in> set (t_outbox (tables demo_hooks)). ob_status r = ''pending'' \<longrightarrow>
      0 \<le> sint (ob_attempts r) \<and> sint (ob_attempts r) < 6 \<and> ob_next r \<le> clock demo_hooks + seconds 1"
    by (simp add: rows demo_event_def seconds_def)
  have inj: "m = n" if "word_of_nat (Suc m) = (word_of_nat (Suc n) :: uuid)" and "m < 12832" and "n < 12832"
    for m n
    using arg_cong[OF that(1), of unat] that(2,3) by (simp add: unat_of_nat del: of_nat_Suc)
  have stock: "log_stock (401 * 32) demo_hooks"
    using inj by (simp add: log_stock_def rows inj_on_def)
  have few: "card (pending_ids (tables demo_hooks)) \<le> 100" by (simp add: one)
  have len: "length ?ps = 32" by (simp only: length_append length_replicate)
  have pause: "\<forall>p \<in> set ?ps. seconds 1 \<le> int (fst p)"
    by (simp add: seconds_def ball_Un)
  have total: "(\<Sum>p\<leftarrow>?ps. int (fst p)) = 32000000"
    by (simp add: map_replicate sum_list_replicate)
  show ?thesis
    using backlog_cleared[OF demo_hooks_setting(1,3) few early stock len pause, of plain_lib]
    unfolding total one rows by (simp add: seconds_def)
qed

end
