(* ===== verification/Processes.thy ===== *)
theory Processes
  imports Gateway
begin

text \<open>
  The two processes of the gateway side by side on one database: the API (\<^verbatim>\<open>cmd/api/main.go\<close>) and
  the worker (\<^verbatim>\<open>cmd/worker/main.go\<close>), each from its start, with every way the start can fail, to its
  end. What the outside does is an event: time passes, a process is launched or signalled, a
  request or a task arrives, a ticker is received. Answers of the database pool, of Redis, of the
  queue and of the listener come with the event.
\<close>

section \<open>The loops of the worker\<close>

datatype loop = DispatchLoop | SettleLoop | ExpireLoop | IdemLoop

definition dispatchInterval :: time where "dispatchInterval = seconds 1"
definition settleInterval :: time where "settleInterval = seconds 5"
definition expireInterval :: time where "expireInterval = seconds 30"
definition idemSweepInterval :: time where "idemSweepInterval = seconds 60"

fun interval :: "loop \<Rightarrow> time" where
  "interval DispatchLoop = dispatchInterval"
| "interval SettleLoop = settleInterval"
| "interval ExpireLoop = expireInterval"
| "interval IdemLoop = idemSweepInterval"

fun loop_name :: "loop \<Rightarrow> string" where
  "loop_name DispatchLoop = ''dispatch''"
| "loop_name SettleLoop = ''settle''"
| "loop_name ExpireLoop = ''expire''"
| "loop_name IdemLoop = ''idem-sweep''"

datatype loop_error = LoopDispatch dispatch_error | LoopDb error

text \<open>The function a loop calls, with its count and error; \<open>queue\<close> answers the enqueues of a dispatch.\<close>

fun loop_fn :: "loop \<Rightarrow> (uuid \<Rightarrow> enqueued) \<Rightarrow> world \<Rightarrow> (nat \<times> loop_error option) \<times> world" where
  "loop_fn DispatchLoop queue w =
     (case Dispatch NewProcessor dispatchBatch (\<lambda>i. enqueue_ok (queue i)) w of
        (Inl e, w') \<Rightarrow> ((0, Some (LoopDispatch e)), w')
      | (Inr n, w') \<Rightarrow> ((n, None), w'))"
| "loop_fn SettleLoop queue w =
     (case SettleDueIntents settleDelay w of ((n, e), w') \<Rightarrow> ((n, map_option LoopDb e), w'))"
| "loop_fn ExpireLoop queue w =
     (case ExpireStaleIntents expireDelay w of ((n, e), w') \<Rightarrow> ((n, map_option LoopDb e), w'))"
| "loop_fn IdemLoop queue w =
     (case SweepOrphanedKeys idemOrphanAfter w of
        (Inl e, w') \<Rightarrow> ((0, Some (LoopDb e)), w')
      | (Inr _, w') \<Rightarrow>
          (case ExpireCompletedKeys idemCompletedTTL w' of
             (Inl e, w'') \<Rightarrow> ((0, Some (LoopDb e)), w'')
           | (Inr _, w'') \<Rightarrow> ((0, None), w'')))"

datatype line =
    LoopFailed string loop_error
  | LoopProcessed string nat
  | BadTask
  | DeliverFailed uuid error

definition loop_lines :: "string \<Rightarrow> nat \<times> loop_error option \<Rightarrow> line list" where
  "loop_lines name r =
     (case r of
        (n, Some e) \<Rightarrow> [LoopFailed name e]
      | (n, None) \<Rightarrow> if 0 < n then [LoopProcessed name n] else [])"

text \<open>
  A ticker's channel holds one tick: one that is received late is followed by the next multiple of
  the interval, those in between are dropped.
\<close>

definition next_tick :: "time \<Rightarrow> time \<Rightarrow> time \<Rightarrow> time" where
  "next_tick due i now = due + i * ((now - due) div i + 1)"

section \<open>The state of the processes\<close>

datatype fatal =
    FatalPool string
  | FatalPing string
  | FatalSeed error
  | FatalRedis string
  | FatalQueue string
  | FatalServer string
  | FatalShutdown string

datatype process = Down | Running | Ended | Died fatal

record system =
  sy_world :: world
  sy_api :: process
  sy_answers :: "outcome list"
  sy_worker :: process
  sy_due :: "loop \<Rightarrow> time"
  sy_log :: "line list"

text \<open>What \<^verbatim>\<open>pgxpool.New\<close>, \<^verbatim>\<open>Ping\<close>, \<^verbatim>\<open>ParseRedisURI\<close> and \<^verbatim>\<open>srv.Start\<close> answer; \<open>None\<close> is no error.\<close>

record outside =
  ou_pool :: "string \<Rightarrow> string option"
  ou_ping :: "string option"
  ou_redis :: "string \<Rightarrow> string option"
  ou_start :: "string option"

datatype event =
    Passes nat
  | ApiStarts outside
  | Arrives "string \<Rightarrow> time \<Rightarrow> bank_http" request
  | ListenFails string
  | ApiSignalled "string option"
  | WorkerStarts outside
  | Fires loop "uuid \<Rightarrow> enqueued"
  | TaskComes hook_http "uuid option"
  | WorkerSignalled

section \<open>The API\<close>

definition api_start :: "lib \<Rightarrow> outside \<Rightarrow> world \<Rightarrow> process \<times> world" where
  "api_start L out w =
     (case ou_pool out (cf_db_url (Load L)) of
        Some e \<Rightarrow> (Died (FatalPool e), w)
      | None \<Rightarrow>
     case ou_ping out of
        Some e \<Rightarrow> (Died (FatalPing e), w)
      | None \<Rightarrow>
     case boot L w of
        (Inl e, w') \<Rightarrow> (Died (FatalSeed e), w')
      | (Inr _, w') \<Rightarrow> (Running, w'))"

definition api_shutdown :: "string option \<Rightarrow> process" where
  "api_shutdown r = (case r of Some e \<Rightarrow> Died (FatalShutdown e) | None \<Rightarrow> Ended)"

definition api_request :: "lib \<Rightarrow> (string \<Rightarrow> time \<Rightarrow> bank_http) \<Rightarrow> request \<Rightarrow> world \<Rightarrow> outcome \<times> world" where
  "api_request L net rq w = serve L (net (cf_bank_url (Load L)) bankTimeout) rq w"

section \<open>The worker\<close>

definition worker_start :: "lib \<Rightarrow> outside \<Rightarrow> process" where
  "worker_start L out =
     (case ou_pool out (cf_db_url (Load L)) of
        Some e \<Rightarrow> Died (FatalPool e)
      | None \<Rightarrow>
     case ou_ping out of
        Some e \<Rightarrow> Died (FatalPing e)
      | None \<Rightarrow>
     case ou_redis out (cf_redis_url (Load L)) of
        Some e \<Rightarrow> Died (FatalRedis e)
      | None \<Rightarrow>
     case ou_start out of
        Some e \<Rightarrow> Died (FatalQueue e)
      | None \<Rightarrow> Running)"

definition deliver_task :: "lib \<Rightarrow> hook_http \<Rightarrow> uuid option \<Rightarrow> world \<Rightarrow> line list \<times> world" where
  "deliver_task L hc task w =
     (case task of
        None \<Rightarrow> ([BadTask], w)
      | Some i \<Rightarrow>
          (case DeliverByID L NewProcessor hc i w of
             (Inl e, w') \<Rightarrow> ([DeliverFailed i e], w')
           | (Inr _, w') \<Rightarrow> ([], w')))"

text \<open>One round of \<^verbatim>\<open>every\<close>: the tick is received, the function called, its outcome logged.\<close>

definition every_round :: "loop \<Rightarrow> (uuid \<Rightarrow> enqueued) \<Rightarrow> system \<Rightarrow> system" where
  "every_round l queue s =
     (case loop_fn l queue (sy_world s) of
        (r, w') \<Rightarrow> s\<lparr>sy_world := w',
          sy_due := (sy_due s)(l := next_tick (sy_due s l) (interval l) (clock (sy_world s))),
          sy_log := sy_log s @ loop_lines (loop_name l) r\<rparr>)"

section \<open>The system\<close>

fun step :: "lib \<Rightarrow> event \<Rightarrow> system \<Rightarrow> system" where
  "step L (Passes n) s = s\<lparr>sy_world := (sy_world s)\<lparr>clock := clock (sy_world s) + int n\<rparr>\<rparr>"
| "step L (ApiStarts out) s =
     (if sy_api s = Running then s
      else case api_start L out (sy_world s) of (p, w') \<Rightarrow> s\<lparr>sy_api := p, sy_world := w'\<rparr>)"
| "step L (Arrives net rq) s =
     (if sy_api s \<noteq> Running then s
      else case api_request L net rq (sy_world s) of
        (out, w') \<Rightarrow> s\<lparr>sy_world := w', sy_answers := sy_answers s @ [out]\<rparr>)"
| "step L (ListenFails e) s =
     (if sy_api s \<noteq> Running then s else s\<lparr>sy_api := Died (FatalServer e)\<rparr>)"
| "step L (ApiSignalled r) s =
     (if sy_api s \<noteq> Running then s else s\<lparr>sy_api := api_shutdown r\<rparr>)"
| "step L (WorkerStarts out) s =
     (if sy_worker s = Running then s
      else s\<lparr>sy_worker := worker_start L out, sy_due := (\<lambda>l. clock (sy_world s) + interval l)\<rparr>)"
| "step L (Fires l queue) s =
     (if sy_worker s = Running \<and> sy_due s l \<le> clock (sy_world s) then every_round l queue s else s)"
| "step L (TaskComes hc task) s =
     (if sy_worker s \<noteq> Running then s
      else case deliver_task L hc task (sy_world s) of
        (ls, w') \<Rightarrow> s\<lparr>sy_world := w', sy_log := sy_log s @ ls\<rparr>)"
| "step L WorkerSignalled s =
     (if sy_worker s \<noteq> Running then s else s\<lparr>sy_worker := Ended\<rparr>)"

section \<open>The system is the gateway\<close>

text \<open>Every step of the processes is a short run of the gateway's operations on the shared database.\<close>

fun tick_of :: "loop \<Rightarrow> (uuid \<Rightarrow> enqueued) \<Rightarrow> tick" where
  "tick_of DispatchLoop queue = DispatchTick queue"
| "tick_of SettleLoop queue = SettleTick"
| "tick_of ExpireLoop queue = ExpireTick"
| "tick_of IdemLoop queue = IdemTick"

lemma loop_fn_works: "snd (loop_fn l queue w) = work (tick_of l queue) w"
  by (cases l) (auto simp: bnd_def split: prod.split sum.split)

lemma deliver_task_works: "snd (deliver_task L hc task w) = work (DeliverTask L hc task) w"
  by (auto simp: deliver_task_def split: option.split prod.split sum.split)

fun ops_of :: "lib \<Rightarrow> event \<Rightarrow> system \<Rightarrow> op list" where
  "ops_of L (Passes n) s = [Tick n]"
| "ops_of L (ApiStarts out) s =
     (if sy_api s \<noteq> Running \<and> ou_pool out (cf_db_url (Load L)) = None \<and> ou_ping out = None
      then [BootOp L] else [])"
| "ops_of L (Arrives net rq) s =
     (if sy_api s = Running then [ServeOp L (net (cf_bank_url (Load L)) bankTimeout) rq] else [])"
| "ops_of L (Fires l queue) s =
     (if sy_worker s = Running \<and> sy_due s l \<le> clock (sy_world s) then [WorkOp (tick_of l queue)] else [])"
| "ops_of L (TaskComes hc task) s =
     (if sy_worker s = Running then [WorkOp (DeliverTask L hc task)] else [])"
| "ops_of L _ s = []"

lemma step_world: "sy_world (step L ev s) = fold exec (ops_of L ev s) (sy_world s)"
proof (cases ev)
  case (ApiStarts out)
  then show ?thesis
    by (auto simp: api_start_def split: option.split prod.split sum.split)
next
  case (Arrives net rq)
  then show ?thesis by (auto simp: api_request_def split: prod.split)
next
  case (Fires l queue)
  then show ?thesis
    using loop_fn_works[of l queue "sy_world s"]
    by (auto simp: every_round_def split: prod.split)
next
  case (TaskComes hc task)
  then show ?thesis
    using deliver_task_works[of L hc task "sy_world s"] by (auto split: prod.split)
qed auto

lemma step_reachable: "reachable (sy_world s) \<Longrightarrow> reachable (sy_world (step L ev s))"
  by (simp add: step_world reachable_fold)

lemma steps_reachable: "reachable (sy_world s) \<Longrightarrow> reachable (sy_world (fold (step L) evs s))"
  by (induction evs arbitrary: s) (simp_all add: step_reachable)

definition launched :: "world \<Rightarrow> system" where
  "launched w = \<lparr>sy_world = w, sy_api = Down, sy_answers = [], sy_worker = Down,
     sy_due = (\<lambda>_. 0), sy_log = []\<rparr>"

text \<open>C17: Both processes together keep the books: however the API and the worker are launched,
  killed, signalled and launched again beside each other, whatever requests, tasks, ticks and
  faults come in between, in every state the shared database is one the gateway can reach, so its
  books are consistent, no transaction is open, and no row of the ledger was ever rewritten.\<close>

theorem processes_keep_books:
  assumes "tables w = empty_db" and "tx_open w = None"
  shows "reachable (sy_world (fold (step L) evs (launched w))) \<and>
    consistent (tables (sy_world (fold (step L) evs (launched w)))) \<and>
    tx_open (sy_world (fold (step L) evs (launched w))) = None \<and>
    evolves (tables (sy_world (fold (step L) evs (launched w))))
      (tables (sy_world (fold (step L) more_evs (fold (step L) evs (launched w)))))"
proof -
  let ?s = "fold (step L) evs (launched w)"
  have r: "reachable (sy_world ?s)"
    by (rule steps_reachable) (simp add: launched_def start assms)
  have "\<exists>ops. sy_world (fold (step L) more_evs s) = fold exec ops (sy_world s)" for s
  proof (induction more_evs arbitrary: s)
    case Nil
    show ?case by (rule exI[of _ "[]"]) simp
  next
    case (Cons ev evs)
    from Cons.IH[of "step L ev s"] obtain ops where
      "sy_world (fold (step L) evs (step L ev s)) = fold exec ops (sy_world (step L ev s))" by blast
    then have "sy_world (fold (step L) (ev # evs) s) = fold exec (ops_of L ev s @ ops) (sy_world s)"
      by (simp add: step_world)
    then show ?case by blast
  qed
  then obtain ops where "sy_world (fold (step L) more_evs ?s) = fold exec ops (sy_world ?s)" by blast
  with r reachable_consistent reachable_closed fold_evolves show ?thesis by metis
qed

section \<open>No error stops a loop\<close>

lemma ops_ticks: "(\<Sum>x\<leftarrow>ops_of L ev s. ticks x) = (case ev of Passes n \<Rightarrow> int n | _ \<Rightarrow> 0)"
  by (cases ev) auto

lemma fold_clock: "reachable w \<Longrightarrow> clock w + (\<Sum>x\<leftarrow>ops. ticks x) \<le> clock (fold exec ops w)"
proof (induction ops arbitrary: w)
  case Nil
  then show ?case by simp
next
  case (Cons x ops)
  then have "clock w + ticks x \<le> clock (exec x w)" "clock (exec x w) + (\<Sum>x\<leftarrow>ops. ticks x) \<le>
      clock (fold exec ops (exec x w))"
    using exec_clock[of w x] after[of w x] by blast+
  then show ?case by simp
qed

lemma step_clock:
  "reachable (sy_world s) \<Longrightarrow>
   clock (sy_world s) + (case ev of Passes n \<Rightarrow> int n | _ \<Rightarrow> 0) \<le> clock (sy_world (step L ev s))"
  using fold_clock[of "sy_world s" "ops_of L ev s"] by (simp add: step_world ops_ticks)

lemma interval_pos: "0 < interval l"
  by (cases l) (simp_all add: dispatchInterval_def settleInterval_def expireInterval_def
      idemSweepInterval_def seconds_def)

lemma next_tick_bounds:
  assumes "0 < i" and "due \<le> now"
  shows "now < next_tick due i now" and "next_tick due i now \<le> now + i"
    and "due + i \<le> next_tick due i now"
proof -
  define q r where "q = (now - due) div i" and "r = (now - due) mod i"
  have e: "next_tick due i now = due + i * q + i" by (simp add: next_tick_def q_def algebra_simps)
  have d: "now - due = i * q + r" by (simp add: q_def r_def)
  have b: "0 \<le> r" "r < i" using assms(1) by (simp_all add: r_def)
  show "now < next_tick due i now" and "next_tick due i now \<le> now + i"
    using d b unfolding e by linarith+
  have "0 \<le> i * q" using assms by (simp add: q_def pos_imp_zdiv_nonneg_iff)
  then show "due + i \<le> next_tick due i now" unfolding e by linarith
qed

text \<open>While the worker runs, every loop's next tick is at most one interval away.\<close>

definition ticking :: "system \<Rightarrow> bool" where
  "ticking s \<longleftrightarrow> reachable (sy_world s) \<and>
     (sy_worker s = Running \<longrightarrow> (\<forall>l. sy_due s l \<le> clock (sy_world s) + interval l))"

lemma due_cases:
  assumes "sy_worker (step L ev s) = Running"
  obtains (kept) "sy_worker s = Running" and "sy_due (step L ev s) l = sy_due s l"
    | (launch) out where "ev = WorkerStarts out" and "sy_due (step L ev s) l = clock (sy_world s) + interval l"
    | (fire) queue where "ev = Fires l queue" and "sy_worker s = Running"
        and "sy_due s l \<le> clock (sy_world s)"
        and "sy_due (step L ev s) l = next_tick (sy_due s l) (interval l) (clock (sy_world s))"
proof (cases ev)
  case (WorkerStarts out)
  with assms kept launch show thesis by (auto split: if_splits)
next
  case (Fires l' queue)
  with assms kept fire show thesis
    by (cases "l' = l") (auto simp: every_round_def split: if_splits prod.splits)
qed (use assms kept in \<open>auto split: if_splits prod.splits\<close>)

lemma ticking_step:
  assumes "ticking s"
  shows "ticking (step L ev s)"
proof -
  have r: "reachable (sy_world s)" using assms by (simp add: ticking_def)
  have mono: "clock (sy_world s) \<le> clock (sy_world (step L ev s))"
    using step_clock[OF r, of ev L] by (simp split: event.splits)
  have "sy_due (step L ev s) l \<le> clock (sy_world (step L ev s)) + interval l"
    if run: "sy_worker (step L ev s) = Running" for l
    using run
  proof (cases rule: due_cases[of L ev s l])
    case kept
    then have "sy_due s l \<le> clock (sy_world s) + interval l" using assms by (simp add: ticking_def)
    with kept mono show ?thesis by linarith
  next
    case (launch out)
    with mono show ?thesis by linarith
  next
    case (fire queue)
    with next_tick_bounds(2)[OF interval_pos, of "sy_due s l" "clock (sy_world s)" l] mono
    show ?thesis by linarith
  qed
  then show ?thesis using step_reachable[OF r] by (simp add: ticking_def)
qed

lemma ticking_steps: "ticking s \<Longrightarrow> ticking (fold (step L) evs s)"
  by (induction evs arbitrary: s) (simp_all add: ticking_step)

lemma running_steps:
  "sy_worker s = Running \<Longrightarrow> WorkerSignalled \<notin> set evs \<Longrightarrow> sy_worker (fold (step L) evs s) = Running"
proof (induction evs arbitrary: s)
  case Nil
  then show ?case by simp
next
  case (Cons ev evs)
  then have "sy_worker (step L ev s) = Running"
    by (cases ev) (auto simp: every_round_def split: prod.split)
  with Cons show ?case by simp
qed

text \<open>C16: One bad tick never kills a loop: once the worker has started, whatever errors, faults, tasks and
  requests follow, it runs until it is signalled; one interval later every loop receives a tick,
  and carries out its work and logs its error or its count.\<close>

theorem loops_survive:
  assumes "reachable w" and "worker_start L out = Running" and "WorkerSignalled \<notin> set evs"
    and "s = fold (step L) evs (step L (WorkerStarts out) (launched w))"
    and "s' = step L (Passes (nat (interval l))) s"
  shows "sy_worker s = Running \<and>
    sy_world (step L (Fires l queue) s') = work (tick_of l queue) (sy_world s') \<and>
    sy_log (step L (Fires l queue) s') =
      sy_log s' @ loop_lines (loop_name l) (fst (loop_fn l queue (sy_world s')))"
proof -
  let ?s0 = "step L (WorkerStarts out) (launched w)"
  have s0: "sy_worker ?s0 = Running" "ticking ?s0"
    using assms(1,2) by (simp_all add: launched_def ticking_def)
  have run: "sy_worker s = Running" unfolding assms(4) by (rule running_steps[OF s0(1) assms(3)])
  have "ticking s" unfolding assms(4) by (rule ticking_steps[OF s0(2)])
  then have "sy_due s' l \<le> clock (sy_world s')" "sy_worker s' = Running"
    using run interval_pos[of l] by (auto simp: ticking_def assms(5))
  then show ?thesis
    using run loop_fn_works[of l queue "sy_world s'"]
    by (cases "loop_fn l queue (sy_world s')") (simp add: every_round_def)
qed

section \<open>No loop runs too often\<close>

fun rounds :: "lib \<Rightarrow> loop \<Rightarrow> event list \<Rightarrow> system \<Rightarrow> nat" where
  "rounds L l [] s = 0"
| "rounds L l (ev # evs) s =
     (case ev of
        Fires l' queue \<Rightarrow>
          if l' = l \<and> sy_worker s = Running \<and> sy_due s l \<le> clock (sy_world s) then 1 else 0
      | _ \<Rightarrow> 0) + rounds L l evs (step L ev s)"

lemma rounds_due:
  "sy_worker s = Running \<Longrightarrow> WorkerSignalled \<notin> set evs \<Longrightarrow>
   sy_due s l + interval l * int (rounds L l evs s) \<le> sy_due (fold (step L) evs s) l"
proof (induction evs arbitrary: s)
  case Nil
  then show ?case by simp
next
  case (Cons ev evs)
  let ?n = "rounds L l [ev] s"
  have run: "sy_worker (step L ev s) = Running" using running_steps[of s "[ev]" L] Cons.prems by simp
  have "sy_due s l + interval l * int ?n \<le> sy_due (step L ev s) l"
  proof (cases ev)
    case (Fires l' queue)
    with next_tick_bounds(3)[OF interval_pos[of l], of "sy_due s l" "clock (sy_world s)"] Cons.prems(1)
    show ?thesis by (auto simp: every_round_def split: prod.splits)
  qed (use Cons.prems(1) in \<open>auto split: prod.splits\<close>)
  with Cons.IH[OF run] Cons.prems(2) show ?case by (simp add: algebra_simps)
qed

text \<open>From its start, the worker runs each loop at most once per interval, however late the ticks are
  received; in particular it settles at most once in five seconds.\<close>

theorem rounds_bounded:
  assumes "reachable w" and "worker_start L out = Running" and "WorkerSignalled \<notin> set evs"
    and "s = step L (WorkerStarts out) (launched w)"
  shows "interval l * int (rounds L l evs s) \<le> clock (sy_world (fold (step L) evs s)) - clock w"
proof -
  have s: "sy_worker s = Running" "sy_due s l = clock w + interval l" "ticking s"
    using assms(1,2) by (simp_all add: assms(4) launched_def ticking_def)
  have "ticking (fold (step L) evs s)" by (rule ticking_steps[OF s(3)])
  then have "sy_due (fold (step L) evs s) l \<le> clock (sy_world (fold (step L) evs s)) + interval l"
    using running_steps[OF s(1) assms(3)] by (simp add: ticking_def)
  with rounds_due[OF s(1) assms(3), of l L] s(2) show ?thesis by simp
qed

section \<open>A worker in a storm\<close>

text \<open>A database on which every exchange fails: the worker keeps running, and says so.\<close>

definition all_well :: outside where
  "all_well = \<lparr>ou_pool = (\<lambda>_. None), ou_ping = None, ou_redis = (\<lambda>_. None), ou_start = None\<rparr>"

definition storm :: world where
  "storm = demo_start\<lparr>faults := (\<lambda>_. Fault)\<rparr>"

definition storm_events :: "event list" where
  "storm_events = [Passes 1000000, Fires DispatchLoop (\<lambda>_. Queued), TaskComes (\<lambda>_. (1000, Inr 200)) (Some 7),
     Passes 4000000, Fires SettleLoop (\<lambda>_. Queued)]"

lemma storm_start: "tables storm = empty_db" "tx_open storm = None" "reachable storm"
  by (simp_all add: storm_def demo_start_def start)

lemma worker_starts: "worker_start L all_well = Running"
  by (simp add: worker_start_def all_well_def)

lemma storm_unsignalled: "WorkerSignalled \<notin> set storm_events"
  by (simp add: storm_events_def)

theorem processes_keep_books_witness:
  "consistent (tables (sy_world (fold (step plain_lib)
     (ApiStarts all_well # WorkerStarts all_well # storm_events) (launched storm))))"
  using processes_keep_books[OF storm_start(1,2),
      of plain_lib "ApiStarts all_well # WorkerStarts all_well # storm_events" "[]"] by blast

theorem loops_survive_witness:
  "sy_worker (fold (step plain_lib) storm_events
     (step plain_lib (WorkerStarts all_well) (launched storm))) = Running"
  using loops_survive[OF storm_start(3) worker_starts storm_unsignalled refl refl] by (rule conjunct1)

theorem rounds_bounded_witness:
  "interval SettleLoop * int (rounds plain_lib SettleLoop storm_events
     (step plain_lib (WorkerStarts all_well) (launched storm))) \<le>
   clock (sy_world (fold (step plain_lib) storm_events
     (step plain_lib (WorkerStarts all_well) (launched storm))))"
  using rounds_bounded[OF storm_start(3) worker_starts storm_unsignalled refl, of SettleLoop plain_lib]
  by (simp add: storm_def demo_start_def)

end
