(* ===== verification/Spec2Isabelle.thy ===== *)
theory Spec2Isabelle
  imports Intake Settling Reconcile History Hazards Serving Draining Processes
begin

text \<open>
  NemPay (\<^verbatim>\<open>src/nem_pay\<close>), a payment gateway in Go: a verification of the gateway, from the
  tables of its database to the requests its server answers and the ticks of its worker. Paths
  below are relative to \<^verbatim>\<open>src/nem_pay/api\<close>.

  \<^bold>\<open>The program.\<close> A merchant's shop creates a payment intent, confirms it with a card token, and
  captures it; a worker settles captured intents (a direct one to the platform's cash, an escrow
  one to segregated cash), delivers webhooks, fails stale intents and sweeps idempotency keys; a
  merchant may refund, or release an escrow to its payee. Every step of an intent's life runs in
  one database transaction that locks the intent, checks the edge table, may ask the bank, posts
  one balanced ledger transaction and writes one outbox event. Requests reach these operations
  through CORS, authentication and an idempotency wrapper.

  \<^bold>\<open>The model, bottom up.\<close>
  \<^item> \<^verbatim>\<open>Prelude\<close>: machine integers at Go's width (\<open>int64\<close> and \<open>int32\<close> are words; \<open>+\<close> wraps, \<open>sint\<close>
    reads), JSON, every package's error as a value, and the effect type in which the Go functions
    are written: state passing with a sum, \<open>bnd\<close> for a call whose error is returned early.
  \<^item> \<^verbatim>\<open>Statemachine\<close>: \<^verbatim>\<open>internal/statemachine/intent.go\<close>, the edge table per settlement mode.
  \<^item> \<^verbatim>\<open>Repository\<close>, \<^verbatim>\<open>Repository_Access\<close>: \<^verbatim>\<open>internal/repository/db\<close>. A table is the list of its
    rows; each query is a function of the id \<^verbatim>\<open>gen_random_uuid()\<close> draws, of \<^verbatim>\<open>now()\<close> and of the
    database, with the constraints of \<^verbatim>\<open>db/migrations\<close> as error values.
  \<^item> \<^verbatim>\<open>Txn\<close>: the world (tables, open transaction, clock, random ids, plan of faults), single
    statements \<open>run\<close> and transactions \<open>in_tx\<close>. A fault may hit any exchange with the database, before
    or after the server carried it out; theorems without a hypothesis on faults hold for all of them.
  \<^item> \<^verbatim>\<open>Ledger\<close>, \<^verbatim>\<open>Banksim\<close>, \<^verbatim>\<open>Intents\<close>: \<^verbatim>\<open>internal/ledger\<close>, \<^verbatim>\<open>internal/banksim\<close> with the simulator it
    talks to (\<^verbatim>\<open>bank-sim/cmd/banksim/main.go\<close>), and \<^verbatim>\<open>internal/service\<close> with \<^verbatim>\<open>internal/outbox\<close>: each
    exported method is a definition of its name (\<open>Create\<close>, \<open>Confirm\<close>, \<open>CaptureIntent\<close>, \<open>Refund\<close>,
    \<open>Release\<close>, the two sweeps), the closure it runs in its transaction is \<open>..._body\<close>.
  \<^item> \<^verbatim>\<open>Http\<close>, \<^verbatim>\<open>Handlers\<close>, \<^verbatim>\<open>Portal\<close>, \<^verbatim>\<open>Tokens\<close>, \<^verbatim>\<open>Access\<close>, \<^verbatim>\<open>Idempotency\<close>: \<^verbatim>\<open>internal/httpapi\<close> and
    \<^verbatim>\<open>internal/apikey\<close>. A handler takes the request's values, the request and the world to an answer
    (or a panic) and a world.
  \<^item> \<^verbatim>\<open>Webhook\<close>, \<^verbatim>\<open>Dispatching\<close>: \<^verbatim>\<open>internal/webhook\<close>, and that its two ways of delivering agree.
  \<^item> \<^verbatim>\<open>Router\<close>: \<^verbatim>\<open>router.go\<close>, \<^verbatim>\<open>cors.go\<close> and \<^verbatim>\<open>cmd/worker/main.go\<close>, where \<open>serve\<close> is the whole server
    and \<open>work\<close> one tick of the worker. Posting to a merchant's server takes time: it moves the clock.
  \<^item> \<^verbatim>\<open>Boot\<close>: \<^verbatim>\<open>internal/config\<close>, \<^verbatim>\<open>internal/devseed\<close> and what \<^verbatim>\<open>cmd/api/main.go\<close> does to the database
    before it serves.
  \<^item> \<^verbatim>\<open>Processes\<close>: \<^verbatim>\<open>cmd/api/main.go\<close> and \<^verbatim>\<open>cmd/worker/main.go\<close> from start to signal, side by side on
    one database: \<open>step\<close> takes an event of the outside (a launch, a request, a tick received, a task, a
    signal, time) and the state of both processes to the next.

  \<^bold>\<open>The theory of it.\<close>
  \<^item> \<^verbatim>\<open>Postings\<close>, \<^verbatim>\<open>Operations\<close>: one summary per money operation (which step, which amounts to which
    accounts), over the contract \<open>account_source\<close> that both get-or-create queries provide.
  \<^item> \<^verbatim>\<open>Books\<close>, \<^verbatim>\<open>Invariant\<close>: the invariant \<open>consistent\<close> (the ledger is what the statuses of the intents
    call for). A property of the tables that new intents and \<open>lawful\<close> steps keep is a
    \<open>money_invariant\<close>; under that contract every body (through \<open>tx_operation\<close>) and every sweep
    (through \<open>swept\<close>) keeps it, and \<^verbatim>\<open>Gateway\<close> extends that to every operation.
  \<^item> \<^verbatim>\<open>Contract_Book\<close>, \<^verbatim>\<open>Refinement\<close>: the abstract specification and the simulation. The book knows
    contracts, phases, purses and news, and one table of rules, \<open>perform\<close>; it has no rows, locks,
    faults or requests. \<open>book_of\<close> reads it off the tables, \<open>follows\<close> is the second \<open>money_invariant\<close>,
    and what is proved of the book (four pieces of news at most) holds of the outbox.
  \<^item> \<^verbatim>\<open>Acts\<close>, \<^verbatim>\<open>Serving\<close>: who may do what in the book. A call of the service does one act when it
    succeeds; an operation, a request or a tick does only acts that are its own to do (\<open>may\<close>); and one
    HTTP request, guards and wrapper included, is one act at most, for the merchant of its key.
  \<^item> \<^verbatim>\<open>Frame\<close>: from statements to the server. The contracts \<open>frame\<close>, \<open>request_frame\<close>, \<open>worker_frame\<close>,
    \<open>server_frame\<close> (both of these and the money sweeps) and \<open>boot_frame\<close> (in \<^verbatim>\<open>Boot\<close>) carry a relation
    between worlds over handlers, guards, routes, the wrapper and the worker; they are used for the money invariant, the book's acts, the uniqueness of
    keys, what only reads, and what one merchant sees of another's requests.
  \<^item> \<^verbatim>\<open>Gateway\<close>: all of it as one transition system, \<open>exec\<close> and \<open>reachable\<close>: operations, requests, ticks,
    boots, in any order, at any time.
  \<^item> \<^verbatim>\<open>Outcomes\<close>, \<^verbatim>\<open>Progress\<close>, \<^verbatim>\<open>Sweeps\<close>, \<^verbatim>\<open>Settling\<close>, \<^verbatim>\<open>Intake\<close>: what a success means, that an error
    means nothing happened, and, over a database that answers, exactly which answer comes and how
    far a sweep gets.
  \<^item> \<^verbatim>\<open>Draining\<close>: how many rounds of the worker, and how much time, clear a backlog of events.
  \<^item> \<^verbatim>\<open>Reconcile\<close>, \<^verbatim>\<open>History\<close>: what the books and the outbox say in every reachable world.
  \<^item> \<^verbatim>\<open>Keys\<close>, \<^verbatim>\<open>Guards\<close>, \<^verbatim>\<open>Requests\<close>: what a request may change by the credential it carries, which
    errors leave a trace, and that a retried request is replayed.
  \<^item> \<^verbatim>\<open>Hazards\<close>: two concrete runs of the server that its comments do not lead one to expect.

  \<^bold>\<open>Bounds.\<close> \<open>lucky 20\<close> (in \<^verbatim>\<open>Progress\<close>) supposes that the next 20 exchanges go well and draw fresh ids;
  the longest operation, an escrow release, makes 17. \<open>works\<close> supposes no fault at all. The outbox
  theorems draw at most 24 ids: six attempts, and not more than four draws in each; a settle sweep
  has 912 at hand: one for the listing, nine for each of a hundred rows, and some to spare; a round
  of the worker has 401, one for the claim and four for each of a hundred rows. No
  definition needs fuel: loops run over lists or, for the backoff, over the number of attempts.

  \<^bold>\<open>Parameters.\<close> What is not in the repository is a parameter of which nothing is assumed but
  what a theorem says: the bank's and the merchants' HTTP servers (these with the time they take,
  which the client cuts at ten seconds), the driver's decoding of numeric, and the functions of
  \<open>lib\<close> (JSON decoding, UUID text, SHA-256, HMAC, bcrypt, JWT, URL parsing, the
  environment). Named hypotheses on them are \<open>exact_codec\<close>, \<open>jwt_law\<close> (on
  the claims \<^verbatim>\<open>session.go\<close> signs, no others) and \<open>uuid_law\<close>.
  Gin's matching of a path against these routes, its redirection of a path with a last slash too
  many, 404, and 405 with \<^verbatim>\<open>Allow\<close> are modelled as documented.

  \<^bold>\<open>Not modelled.\<close> Sockets and the text of log lines (the worker's are values);
  the queue between the worker's dispatcher and its delivery task (its answer to an enqueue is a
  parameter, and a task may arrive at any time, any number of times); the cancellation of an
  operation in flight when a process is signalled; the time an exchange with the bank takes
  (\<^verbatim>\<open>now()\<close> does not move within a transaction) and the one a task waits in
  the queue; tasks of the worker that overlap (a delivery is one step of the world, though it takes
  time); isolation weaker than serial for transactions on one intent (the row lock serializes them;
  a transaction is one step of the world); the order of rows an \<^verbatim>\<open>ORDER BY\<close>
  leaves tied or a query does not ask for (\<^verbatim>\<open>GetKeysByPrefix\<close>: they come as
  inserted, and \<open>lookup_any_order\<close> says when that does not matter); what the
  \<^verbatim>\<open>jsonb\<close> type makes of an intent's metadata (the column keeps the bytes;
  PostgreSQL normalises them, and refuses a NUL escape). The Rails shop
  (\<^verbatim>\<open>src/Nem_luxury\<close>) and the React portal
  (\<^verbatim>\<open>portal\<close>) are other programs.
\<close>

section \<open>The bank\<close>

text \<open>C26: A bank that does not answer moves no money: while every exchange with it fails (no
  connection, a status code other than 200, a body that does not decode, an unknown answer), no
  confirmation and no capture changes anything at all.\<close>

theorem silent_bank_moves_nothing:
  assumes "reachable w" and "\<forall>req. \<exists>e. banksim_call bank req = Inl e"
  shows "tables (snd (Confirm bank i m token w)) = tables w \<and>
    tables (snd (CaptureIntent bank i m w)) = tables w"
proof
  note none = reachable_closed[OF assms(1)]
  have snd: "sound (tables w0)" if "tables w0 = tables w" for w0
    using reachable_sound[OF assms(1)] that by simp
  have silent: "Authorize bank req \<noteq> Inr x" "Banksim.Capture bank j n \<noteq> Inr x" for req j n x
    using assms(2) by (simp_all add: Authorize_def Capture_def) (metis Inl_Inr_False)+
  obtain r w' where r: "in_tx (confirm_body bank i m token) w = (r, w')"
    by (cases "in_tx (confirm_body bank i m token) w")
  then have "tables w' = tables w"
  proof (cases rule: in_tx_cases[OF r keeps_confirm_body none])
    case (2 w0 w1 x)
    from confirm_step[OF 2(3) snd[OF 2(1)]] silent(1) show ?thesis by metis
  qed
  with r show "tables (snd (Confirm bank i m token w)) = tables w" by (simp add: Confirm_def)
  obtain r w' where r: "in_tx (capture_body bank i m) w = (r, w')"
    by (cases "in_tx (capture_body bank i m) w")
  then have "tables w' = tables w"
  proof (cases rule: in_tx_cases[OF r keeps_capture_body none])
    case (2 w0 w1 x)
    from capture_step[OF 2(3) snd[OF 2(1)]] silent(2) show ?thesis by metis
  qed
  with r show "tables (snd (CaptureIntent bank i m w)) = tables w" by (simp add: CaptureIntent_def)
qed

theorem silent_bank_moves_nothing_witness:
  "tables (snd (CaptureIntent (\<lambda>_. HttpResponse 503 None) 2 1 demo_authorized)) =
   tables demo_authorized"
  using silent_bank_moves_nothing[OF reachable_demos(2), of "\<lambda>_. HttpResponse 503 None" 2 1 "[]"]
  by (simp add: banksim_call_def)

end
